(* ===== verification/Prelude.thy ===== *)
theory Prelude
  imports Main
begin

text \<open>
  Shared vocabulary of the development: result types, the collections of hints that the
  component theories extend, and lemmas on lists and options used by more than one component.

  Errors are values of a sum type, \<open>Inl\<close> for the error.  A Go operation that can block is a
  function into an option type: \<open>None\<close> says that the goroutine cannot take the step in this state.
\<close>

named_theorems chan_simps \<open>equations of the channel operations\<close>
named_theorems frame_simps \<open>which fields an operation leaves alone\<close>
named_theorems inv_intros \<open>preservation of a component's invariant\<close>

type_synonym ('e, 'a) result = "'e + 'a"

text \<open>Runs of an event-labelled, partial step function, and the states they reach.\<close>

fun run_events :: "('e \<Rightarrow> 's \<Rightarrow> 's option) \<Rightarrow> 'e list \<Rightarrow> 's \<Rightarrow> 's option" where
  "run_events step [] s = Some s"
| "run_events step (e # es) s = (case step e s of None \<Rightarrow> None | Some t \<Rightarrow> run_events step es t)"

lemma run_events_append:
  "run_events step (es @ fs) s =
     (case run_events step es s of None \<Rightarrow> None | Some t \<Rightarrow> run_events step fs t)"
  by (induction es arbitrary: s) (auto split: option.splits)

text \<open>An invariant of the single steps holds along every run.\<close>

lemma run_events_inv:
  assumes step: "\<And>e s t. I s \<Longrightarrow> step e s = Some t \<Longrightarrow> I t"
    and "I s" and "run_events step es s = Some t"
  shows "I t"
  using assms(2,3)
  by (induction es arbitrary: s) (auto split: option.splits intro: step)

text \<open>An invariant that mentions the events so far.\<close>

lemma run_events_history:
  assumes step: "\<And>h e s t. I h s \<Longrightarrow> step e s = Some t \<Longrightarrow> I (h @ [e]) t"
    and "I h s" and "run_events step es s = Some t"
  shows "I (h @ es) t"
  using assms(2,3)
proof (induction es arbitrary: h s)
  case (Cons e es)
  from Cons.prems(2) obtain u where u: "step e s = Some u" "run_events step es u = Some t"
    by (auto split: option.splits)
  from Cons.IH [OF step [OF Cons.prems(1) u(1)] u(2)] show ?case by simp
qed simp

lemma count_list_snoc: "count_list (xs @ [y]) x = count_list xs x + (if x = y then 1 else 0)"
  by simp

lemma fold_inv: "P s \<Longrightarrow> (\<And>x s. P s \<Longrightarrow> P (f x s)) \<Longrightarrow> P (fold f xs s)"
  by (induction xs arbitrary: s) auto

lemma option_if_SomeD: "(if b then Some x else None) = Some y \<Longrightarrow> b \<and> x = y"
  by (auto split: if_splits)

lemma map_sum_Inr: "map_sum f g x = Inr y \<longleftrightarrow> (\<exists>z. x = Inr z \<and> y = g z)"
  by (cases x) auto

lemma Inr_map_sum: "Inr y = map_sum f g x \<longleftrightarrow> (\<exists>z. x = Inr z \<and> y = g z)"
  by (cases x) auto

lemma map_sum_Inl: "map_sum f g x = Inl y \<longleftrightarrow> (\<exists>z. x = Inl z \<and> y = f z)"
  by (cases x) auto

end
