(* ===== verification/Go_Chan.thy ===== *)
theory Go_Chan
  imports Prelude
begin

text \<open>
  Go's buffered channels, as far as the program uses them: a bounded FIFO with a closed flag.
  Sending on a full channel blocks, sending on a closed one panics; receiving takes the oldest
  value, blocks on an empty open channel and returns at once (with the zero value) on an empty
  closed one.  A goroutine that selects over several channels is modelled by its users as one
  event per ready case.
\<close>

record 'a chan =
  ch_buf :: "'a list"
  ch_cap :: nat
  ch_closed :: bool

datatype 'a send_result = Sent "'a chan" | SendBlocks | SendPanics

datatype 'a recv_result = Received 'a "'a chan" | RecvZero | RecvBlocks

definition make_chan :: "nat \<Rightarrow> 'a chan" where
  "make_chan n = \<lparr>ch_buf = [], ch_cap = n, ch_closed = False\<rparr>"

definition chan_send :: "'a \<Rightarrow> 'a chan \<Rightarrow> 'a send_result" where
  "chan_send v c =
     (if ch_closed c then SendPanics
      else if length (ch_buf c) < ch_cap c then Sent (c\<lparr>ch_buf := ch_buf c @ [v]\<rparr>)
      else SendBlocks)"

definition chan_recv :: "'a chan \<Rightarrow> 'a recv_result" where
  "chan_recv c =
     (case ch_buf c of
        v # vs \<Rightarrow> Received v (c\<lparr>ch_buf := vs\<rparr>)
      | [] \<Rightarrow> if ch_closed c then RecvZero else RecvBlocks)"

text \<open>\<open>close(c)\<close>; closing a closed channel panics (\<open>None\<close>).\<close>

definition chan_close :: "'a chan \<Rightarrow> 'a chan option" where
  "chan_close c = (if ch_closed c then None else Some (c\<lparr>ch_closed := True\<rparr>))"

definition chan_ok :: "'a chan \<Rightarrow> bool" where
  "chan_ok c \<longleftrightarrow> length (ch_buf c) \<le> ch_cap c"

subsection \<open>The channel as a bounded queue\<close>

text \<open>
  What the users of a channel rely on: a successful send appends, a successful receive takes the
  oldest value, and the contents never exceed the capacity.
\<close>

locale bounded_fifo =
  fixes contents :: "'c \<Rightarrow> 'a list"
    and bound :: "'c \<Rightarrow> nat"
    and put :: "'a \<Rightarrow> 'c \<Rightarrow> 'c option"
    and get :: "'c \<Rightarrow> ('a \<times> 'c) option"
  assumes put_contents: "put v c = Some d \<Longrightarrow> contents d = contents c @ [v] \<and> bound d = bound c"
    and put_room: "put v c = Some d \<Longrightarrow> length (contents c) < bound c"
    and get_contents: "get c = Some (v, d) \<Longrightarrow> contents c = v # contents d \<and> bound d = bound c"
    and get_nonempty: "contents c \<noteq> [] \<Longrightarrow> \<exists>v d. get c = Some (v, d)"
begin

fun put_all :: "'a list \<Rightarrow> 'c \<Rightarrow> 'c option" where
  "put_all [] c = Some c"
| "put_all (v # vs) c = (case put v c of None \<Rightarrow> None | Some d \<Rightarrow> put_all vs d)"

fun get_n :: "nat \<Rightarrow> 'c \<Rightarrow> ('a list \<times> 'c) option" where
  "get_n 0 c = Some ([], c)"
| "get_n (Suc n) c =
     (case get c of None \<Rightarrow> None
      | Some (v, d) \<Rightarrow> (case get_n n d of None \<Rightarrow> None | Some (vs, e) \<Rightarrow> Some (v # vs, e)))"

lemma put_all_contents: "put_all vs c = Some d \<Longrightarrow> contents d = contents c @ vs"
  by (induction vs arbitrary: c) (auto split: option.splits dest: put_contents)

lemma get_n_contents:
  "n \<le> length (contents c) \<Longrightarrow>
     \<exists>d. get_n n c = Some (take n (contents c), d) \<and> contents d = drop n (contents c)"
proof (induction n arbitrary: c)
  case 0
  then show ?case by simp
next
  case (Suc n)
  then have "contents c \<noteq> []" by auto
  then obtain v d where g: "get c = Some (v, d)" using get_nonempty by blast
  then have c: "contents c = v # contents d" by (simp add: get_contents)
  with Suc.prems have "n \<le> length (contents d)" by simp
  from Suc.IH [OF this] g c show ?case by auto
qed

text \<open>Values come out in the order they went in.\<close>

lemma fifo_order:
  assumes "contents c = []" and "put_all vs c = Some d"
  shows "\<exists>e. get_n (length vs) d = Some (vs, e) \<and> contents e = []"
proof -
  from assms have "contents d = vs" by (simp add: put_all_contents)
  with get_n_contents [of "length vs" d] show ?thesis by auto
qed

end

definition chan_put :: "'a \<Rightarrow> 'a chan \<Rightarrow> 'a chan option" where
  "chan_put v c = (case chan_send v c of Sent d \<Rightarrow> Some d | _ \<Rightarrow> None)"

definition chan_get :: "'a chan \<Rightarrow> ('a \<times> 'a chan) option" where
  "chan_get c = (case chan_recv c of Received v d \<Rightarrow> Some (v, d) | _ \<Rightarrow> None)"

lemma chan_put_Some [chan_simps]:
  "chan_put v c = Some d \<longleftrightarrow>
     \<not> ch_closed c \<and> length (ch_buf c) < ch_cap c \<and> d = c\<lparr>ch_buf := ch_buf c @ [v]\<rparr>"
  by (auto simp: chan_put_def chan_send_def)

lemma chan_get_Some [chan_simps]:
  "chan_get c = Some (v, d) \<longleftrightarrow> (\<exists>vs. ch_buf c = v # vs \<and> d = c\<lparr>ch_buf := vs\<rparr>)"
  by (auto simp: chan_get_def chan_recv_def split: list.splits)

lemma chan_get_None [chan_simps]: "chan_get c = None \<longleftrightarrow> ch_buf c = []"
  by (auto simp: chan_get_def chan_recv_def split: list.splits)

lemma chan_put_None [chan_simps]:
  "chan_put v c = None \<longleftrightarrow> ch_closed c \<or> ch_cap c \<le> length (ch_buf c)"
  by (auto simp: chan_put_def chan_send_def)

interpretation fifo: bounded_fifo ch_buf ch_cap chan_put chan_get
  by unfold_locales (auto simp: chan_simps neq_Nil_conv)

lemma make_chan_simps [simp]:
  "ch_buf (make_chan n) = []" "ch_cap (make_chan n) = n" "\<not> ch_closed (make_chan n)"
  by (simp_all add: make_chan_def)

lemma chan_ok_make [inv_intros]: "chan_ok (make_chan n)"
  by (simp add: chan_ok_def)

lemma chan_ok_put [inv_intros]: "chan_put v c = Some d \<Longrightarrow> chan_ok d"
  by (auto simp: chan_simps chan_ok_def)

lemma chan_ok_get [inv_intros]: "chan_ok c \<Longrightarrow> chan_get c = Some (v, d) \<Longrightarrow> chan_ok d"
  by (auto simp: chan_simps chan_ok_def)

end
