(* ===== verification/Resource_Pool.thy ===== *)
theory Resource_Pool
  imports Go_Chan
begin

text \<open>
  \<open>pkg/core/resource.go\<close>: the pool of resources an execution context releases when it closes.
  Pointers are natural numbers into explicit stores; the stores only grow, an address below the
  fresh counter is allocated.  The pool is a doubly linked list reached from its tail.  One step
  of the pool's own goroutine moves a resource from the channel \<open>cache\<close> into the list; the
  binary semaphore \<open>exclusive\<close> makes that step, \<open>Remove\<close> and \<open>ForEach\<close> atomic.
\<close>

type_synonym nref = nat
type_synonym rref = nat

record resource_node =
  nd_next :: "nref option"
  nd_prev :: "nref option"
  nd_resource :: rref

record resource =
  rs_name :: string
  rs_released :: bool
  rs_has_after :: bool
  rs_node :: "nref option"
  rs_pool :: bool

text \<open>The callbacks a release has run, oldest first.\<close>

datatype callback = ReleaseRun rref | AfterRun rref

record pool =
  pl_nodes :: "nref \<Rightarrow> resource_node"
  pl_fresh :: nref
  pl_res :: "rref \<Rightarrow> resource"
  pl_rfresh :: rref
  pl_tail :: "nref option"
  pl_cache :: "rref chan"
  pl_running :: bool
  pl_log :: "callback list"

definition resource0 :: resource where
  "resource0 = \<lparr>rs_name = [], rs_released = False, rs_has_after = False,
     rs_node = None, rs_pool = False\<rparr>"

definition node0 :: resource_node where
  "node0 = \<lparr>nd_next = None, nd_prev = None, nd_resource = 0\<rparr>"

subsection \<open>The operations\<close>

definition NewResourcePool :: "nat \<Rightarrow> pool" where
  "NewResourcePool n =
     \<lparr>pl_nodes = (\<lambda>_. node0), pl_fresh = 0, pl_res = (\<lambda>_. resource0), pl_rfresh = 0,
      pl_tail = None, pl_cache = make_chan n, pl_running = True, pl_log = []\<rparr>"

definition NewResource :: "string \<Rightarrow> bool \<Rightarrow> pool \<Rightarrow> rref \<times> pool" where
  "NewResource name has_after s =
     (let r = pl_rfresh s in
      (r, s\<lparr>pl_res := (pl_res s)(r := \<lparr>rs_name = name, rs_released = False,
              rs_has_after = has_after, rs_node = None, rs_pool = False\<rparr>),
            pl_rfresh := Suc r\<rparr>))"

definition setNode :: "rref \<Rightarrow> nref option \<Rightarrow> pool \<Rightarrow> pool" where
  "setNode r n s = s\<lparr>pl_res := (pl_res s)(r := (pl_res s r)\<lparr>rs_node := n\<rparr>)\<rparr>"

definition setPool :: "rref \<Rightarrow> bool \<Rightarrow> pool \<Rightarrow> pool" where
  "setPool r b s = s\<lparr>pl_res := (pl_res s)(r := (pl_res s r)\<lparr>rs_pool := b\<rparr>)\<rparr>"

definition set_next :: "nref \<Rightarrow> nref option \<Rightarrow> pool \<Rightarrow> pool" where
  "set_next n v s = s\<lparr>pl_nodes := (pl_nodes s)(n := (pl_nodes s n)\<lparr>nd_next := v\<rparr>)\<rparr>"

definition set_prev :: "nref \<Rightarrow> nref option \<Rightarrow> pool \<Rightarrow> pool" where
  "set_prev n v s = s\<lparr>pl_nodes := (pl_nodes s)(n := (pl_nodes s n)\<lparr>nd_prev := v\<rparr>)\<rparr>"

text \<open>\<open>Insert\<close> only hands the resource to the pool's goroutine; it blocks on a full cache.\<close>

definition pool_Insert :: "rref \<Rightarrow> pool \<Rightarrow> pool option" where
  "pool_Insert r s =
     (case chan_put r (pl_cache s) of None \<Rightarrow> None | Some c \<Rightarrow> Some (s\<lparr>pl_cache := c\<rparr>))"

text \<open>The body of the goroutine's \<open>case res := <-p.cache\<close>.\<close>

definition link_resource :: "rref \<Rightarrow> pool \<Rightarrow> pool" where
  "link_resource r s =
     (let n = pl_fresh s;
          s1 = s\<lparr>pl_fresh := Suc n,
                 pl_nodes := (pl_nodes s)(n := \<lparr>nd_next = None, nd_prev = None, nd_resource = r\<rparr>)\<rparr>;
          s2 = setPool r True (setNode r (Some n) s1);
          s3 = set_prev n (pl_tail s2) s2;
          s4 = (case pl_tail s3 of None \<Rightarrow> s3 | Some t \<Rightarrow> set_next t (Some n) s3)
      in s4\<lparr>pl_tail := Some n\<rparr>)"

definition pool_goroutine :: "pool \<Rightarrow> pool option" where
  "pool_goroutine s =
     (if pl_running s then
        (case chan_get (pl_cache s) of
           None \<Rightarrow> None
         | Some (r, c) \<Rightarrow> Some (link_resource r (s\<lparr>pl_cache := c\<rparr>)))
      else None)"

definition pool_Remove :: "nref option \<Rightarrow> pool \<Rightarrow> pool" where
  "pool_Remove node s =
     (case node of
        None \<Rightarrow> s
      | Some n \<Rightarrow>
          (let s1 = setNode (nd_resource (pl_nodes s n)) None s;
               prev = nd_prev (pl_nodes s1 n);
               nxt = nd_next (pl_nodes s1 n);
               s2 = (case prev of None \<Rightarrow> s1 | Some p \<Rightarrow> set_next p nxt s1);
               s3 = (case nxt of None \<Rightarrow> s2 | Some m \<Rightarrow> set_prev m prev s2)
           in if pl_tail s3 = Some n then s3\<lparr>pl_tail := None\<rparr> else s3))"

text \<open>
  \<open>ForEach\<close>: walk back from the tail to the head, then forward.  Both loops follow pointers, so
  they are partial functions; \<open>None\<close> is a loop that does not end.
\<close>

partial_function (option) find_head :: "(nref \<Rightarrow> resource_node) \<Rightarrow> nref \<Rightarrow> nref option" where
  "find_head h cur =
     (case nd_prev (h cur) of None \<Rightarrow> Some cur | Some p \<Rightarrow> find_head h p)"

partial_function (option) walk_nodes ::
  "(rref \<Rightarrow> pool \<Rightarrow> pool) \<Rightarrow> nref option \<Rightarrow> pool \<Rightarrow> pool option" where
  "walk_nodes iter cur s =
     (case cur of
        None \<Rightarrow> Some s
      | Some n \<Rightarrow>
          let t = iter (nd_resource (pl_nodes s n)) s
          in walk_nodes iter (nd_next (pl_nodes t n)) t)"

definition pool_ForEach :: "(rref \<Rightarrow> pool \<Rightarrow> pool) \<Rightarrow> pool \<Rightarrow> pool option" where
  "pool_ForEach iter s =
     (case pl_tail s of
        None \<Rightarrow> Some s
      | Some t \<Rightarrow>
          (case find_head (pl_nodes s) t of
             None \<Rightarrow> None
           | Some h \<Rightarrow> walk_nodes iter (Some h) s))"

text \<open>\<open>Close\<close> hands the exit token to the goroutine over an unbuffered channel.\<close>

definition pool_Close :: "pool \<Rightarrow> pool option" where
  "pool_Close s = (if pl_running s then Some (s\<lparr>pl_running := False\<rparr>) else None)"

definition resource_Release :: "rref \<Rightarrow> pool \<Rightarrow> pool" where
  "resource_Release r s =
     (if rs_released (pl_res s r) then s
      else s\<lparr>pl_res := (pl_res s)(r := (pl_res s r)\<lparr>rs_released := True\<rparr>),
             pl_log := pl_log s @ ReleaseRun r #
               (if rs_has_after (pl_res s r) then [AfterRun r] else [])\<rparr>)"

definition resource_Name :: "rref \<Rightarrow> pool \<Rightarrow> string" where
  "resource_Name r s = rs_name (pl_res s r)"

definition resource_Cancel :: "rref \<Rightarrow> pool \<Rightarrow> pool" where
  "resource_Cancel r s =
     (if rs_node (pl_res s r) = None \<or> \<not> rs_pool (pl_res s r) then s
      else pool_Remove (rs_node (pl_res s r)) s)"

declare find_head.simps [simp del] walk_nodes.simps [simp del]

subsection \<open>Segments of the linked list\<close>

text \<open>
  \<open>dseg h p ns q\<close>: the nodes \<open>ns\<close> are linked both ways, the first one's \<open>prev\<close> is \<open>p\<close> and the
  last one's \<open>next\<close> is \<open>q\<close>.
\<close>

fun dseg :: "(nref \<Rightarrow> resource_node) \<Rightarrow> nref option \<Rightarrow> nref list \<Rightarrow> nref option \<Rightarrow> bool" where
  "dseg h p [] q = True"
| "dseg h p (n # ns) q =
     (nd_prev (h n) = p \<and> nd_next (h n) = (case ns of [] \<Rightarrow> q | m # _ \<Rightarrow> Some m) \<and>
      dseg h (Some n) ns q)"

definition first_or :: "nref option \<Rightarrow> nref list \<Rightarrow> nref option" where
  "first_or q ns = (case ns of [] \<Rightarrow> q | m # _ \<Rightarrow> Some m)"

definition last_or :: "nref option \<Rightarrow> nref list \<Rightarrow> nref option" where
  "last_or p ns = (if ns = [] then p else Some (last ns))"

lemma first_or_simps [simp]: "first_or q [] = q" "first_or q (m # ns) = Some m"
  by (simp_all add: first_or_def)

lemma last_or_simps [simp]: "last_or p [] = p" "last_or p (ns @ [m]) = Some m"
  by (simp_all add: last_or_def)

lemma last_or_Cons [simp]: "last_or p (n # ns) = last_or (Some n) ns"
  by (simp add: last_or_def)

lemma dseg_Cons: "dseg h p (n # ns) q \<longleftrightarrow>
    nd_prev (h n) = p \<and> nd_next (h n) = first_or q ns \<and> dseg h (Some n) ns q"
  by (simp add: first_or_def)

lemma dseg_append:
  "dseg h p (xs @ ys) q \<longleftrightarrow> dseg h p xs (first_or q ys) \<and> dseg h (last_or p xs) ys q"
  by (induction xs arbitrary: p) (auto simp: first_or_def split: list.splits)

lemma dseg_cong:
  "(\<And>n. n \<in> set ns \<Longrightarrow> h n = h' n) \<Longrightarrow> dseg h p ns q = dseg h' p ns q"
  by (induction ns arbitrary: p) auto

lemma dseg_upd [simp]: "n \<notin> set ns \<Longrightarrow> dseg (h(n := x)) p ns q = dseg h p ns q"
  by (rule dseg_cong) auto

text \<open>The first node of a segment reads \<open>p\<close> only, the last one \<open>q\<close> only.\<close>

lemma dseg_set_prev_hd:
  assumes "n \<notin> set rest" and "dseg h p (n # rest) q"
  shows "dseg (h(n := (h n)\<lparr>nd_prev := p'\<rparr>)) p' (n # rest) q"
  using assms by (simp add: dseg_Cons del: dseg.simps(2))

lemma dseg_set_next_last:
  assumes "n \<notin> set xs" and "dseg h p (xs @ [n]) q"
  shows "dseg (h(n := (h n)\<lparr>nd_next := q'\<rparr>)) p (xs @ [n]) q'"
  using assms by (simp add: dseg_append)

subsection \<open>The list a pool holds\<close>

definition attached :: "pool \<Rightarrow> nref \<Rightarrow> bool" where
  "attached s n \<longleftrightarrow> n < pl_fresh s \<and> rs_node (pl_res s (nd_resource (pl_nodes s n))) = Some n"

definition pool_rep :: "pool \<Rightarrow> nref list \<Rightarrow> bool" where
  "pool_rep s ns \<longleftrightarrow>
     dseg (pl_nodes s) None ns None \<and> pl_tail s = last_or None ns \<and> distinct ns \<and>
     (\<forall>n\<in>set ns. attached s n)"

definition pool_resources :: "pool \<Rightarrow> nref list \<Rightarrow> rref list" where
  "pool_resources s ns = map (\<lambda>n. nd_resource (pl_nodes s n)) ns"

lemma pool_rep_New: "pool_rep (NewResourcePool k) []"
  by (simp add: pool_rep_def NewResourcePool_def)

text \<open>Distinct attached nodes hold distinct resources.\<close>

lemma attached_inj:
  "attached s m \<Longrightarrow> attached s n \<Longrightarrow>
     nd_resource (pl_nodes s m) = nd_resource (pl_nodes s n) \<Longrightarrow> m = n"
  by (auto simp: attached_def)

lemma pool_resources_distinct: "pool_rep s ns \<Longrightarrow> distinct (pool_resources s ns)"
  by (auto simp: pool_rep_def pool_resources_def distinct_map inj_on_def intro: attached_inj)

subsection \<open>Linking and unlinking\<close>

text \<open>Closed forms of the two list operations, field by field.\<close>

lemma link_fields [frame_simps]:
  "pl_fresh (link_resource r s) = Suc (pl_fresh s)"
  "pl_tail (link_resource r s) = Some (pl_fresh s)"
  "pl_rfresh (link_resource r s) = pl_rfresh s"
  "pl_cache (link_resource r s) = pl_cache s"
  "pl_running (link_resource r s) = pl_running s"
  "pl_log (link_resource r s) = pl_log s"
  "pl_res (link_resource r s) =
     (pl_res s)(r := (pl_res s r)\<lparr>rs_node := Some (pl_fresh s), rs_pool := True\<rparr>)"
  by (auto simp: link_resource_def Let_def setNode_def setPool_def set_prev_def set_next_def
      split: option.splits)

lemma link_nodes:
  "pl_nodes (link_resource r s) =
     (let n = pl_fresh s;
          h = (pl_nodes s)(n := \<lparr>nd_next = None, nd_prev = pl_tail s, nd_resource = r\<rparr>)
      in case pl_tail s of None \<Rightarrow> h | Some t \<Rightarrow> h(t := (h t)\<lparr>nd_next := Some n\<rparr>))"
  by (auto simp: link_resource_def Let_def setNode_def setPool_def set_prev_def set_next_def
      split: option.splits)

lemma remove_fields [frame_simps]:
  "pl_fresh (pool_Remove x s) = pl_fresh s"
  "pl_rfresh (pool_Remove x s) = pl_rfresh s"
  "pl_cache (pool_Remove x s) = pl_cache s"
  "pl_running (pool_Remove x s) = pl_running s"
  "pl_log (pool_Remove x s) = pl_log s"
  by (auto simp: pool_Remove_def Let_def setNode_def set_prev_def set_next_def
      split: option.splits)

lemma remove_res:
  "pl_res (pool_Remove (Some n) s) =
     (pl_res s)(nd_resource (pl_nodes s n) :=
        (pl_res s (nd_resource (pl_nodes s n)))\<lparr>rs_node := None\<rparr>)"
  by (auto simp: pool_Remove_def Let_def setNode_def set_prev_def set_next_def
      split: option.splits)

lemma remove_tail:
  "pl_tail (pool_Remove (Some n) s) = (if pl_tail s = Some n then None else pl_tail s)"
  by (auto simp: pool_Remove_def Let_def setNode_def set_prev_def set_next_def
      split: option.splits)

definition unlinked :: "(nref \<Rightarrow> resource_node) \<Rightarrow> nref \<Rightarrow> nref \<Rightarrow> resource_node" where
  "unlinked h n =
     (let h1 = (case nd_prev (h n) of None \<Rightarrow> h
                | Some p \<Rightarrow> h(p := (h p)\<lparr>nd_next := nd_next (h n)\<rparr>))
      in case nd_next (h n) of None \<Rightarrow> h1
         | Some m \<Rightarrow> h1(m := (h1 m)\<lparr>nd_prev := nd_prev (h n)\<rparr>))"

lemma remove_nodes: "pl_nodes (pool_Remove (Some n) s) = unlinked (pl_nodes s) n"
  by (auto simp: pool_Remove_def unlinked_def Let_def setNode_def set_prev_def set_next_def
      split: option.splits)

lemma unlinked_resource [simp]: "nd_resource (unlinked h n m) = nd_resource (h m)"
  by (auto simp: unlinked_def Let_def split: option.splits)

lemma link_resource_of [simp]:
  "m \<noteq> pl_fresh s \<Longrightarrow> nd_resource (pl_nodes (link_resource r s) m) = nd_resource (pl_nodes s m)"
  by (auto simp: link_nodes Let_def split: option.splits)

lemma link_rep:
  assumes rep: "pool_rep s ns" and r: "r \<notin> set (pool_resources s ns)"
  shows "pool_rep (link_resource r s) (ns @ [pl_fresh s])"
    and "pool_resources (link_resource r s) (ns @ [pl_fresh s]) = pool_resources s ns @ [r]"
proof -
  let ?n = "pl_fresh s" and ?s = "link_resource r s"
  from rep have att: "\<forall>n\<in>set ns. attached s n" and tl: "pl_tail s = last_or None ns"
    and seg: "dseg (pl_nodes s) None ns None" and dist: "distinct ns"
    by (auto simp: pool_rep_def)
  from att have fresh: "?n \<notin> set ns" by (auto simp: attached_def)
  have seg': "dseg (pl_nodes ?s) None (ns @ [?n]) None"
  proof (cases ns rule: rev_cases)
    case Nil
    with tl show ?thesis by (simp add: link_nodes)
  next
    case (snoc xs t)
    with dist have "t \<notin> set xs" by simp
    then have "dseg ((pl_nodes s)(t := (pl_nodes s t)\<lparr>nd_next := Some ?n\<rparr>)) None (xs @ [t]) (Some ?n)"
      using seg snoc by (intro dseg_set_next_last) auto
    moreover have "pl_nodes ?s = ((pl_nodes s)(t := (pl_nodes s t)\<lparr>nd_next := Some ?n\<rparr>))
        (?n := \<lparr>nd_next = None, nd_prev = Some t, nd_resource = r\<rparr>)"
      using snoc tl fresh by (auto simp: link_nodes Let_def fun_eq_iff)
    ultimately show ?thesis
      using snoc fresh by (simp add: dseg_append [of _ _ "xs @ [t]"] del: append_assoc)
  qed
  have att': "\<forall>n\<in>set (ns @ [?n]). attached ?s n"
  proof
    fix n assume "n \<in> set (ns @ [?n])"
    then consider "n \<in> set ns" | "n = ?n" by auto
    then show "attached ?s n"
    proof cases
      case 1
      with fresh have "n \<noteq> ?n" by auto
      moreover from 1 r have "nd_resource (pl_nodes s n) \<noteq> r"
        by (auto simp: pool_resources_def)
      ultimately show ?thesis using att 1
        by (simp add: attached_def frame_simps less_SucI)
    next
      case 2
      have "nd_resource (pl_nodes ?s ?n) = r"
        using tl fresh by (auto simp: link_nodes Let_def split: option.splits)
      then show ?thesis by (simp add: 2 attached_def frame_simps)
    qed
  qed
  show "pool_rep ?s (ns @ [?n])"
    using seg' att' dist fresh by (simp add: pool_rep_def frame_simps)
  show "pool_resources ?s (ns @ [?n]) = pool_resources s ns @ [r]"
    using fresh tl by (auto simp: pool_resources_def link_nodes Let_def split: option.splits)
qed

text \<open>
  Unlinking an inner node joins its neighbours.  The list stays reachable because the node is
  not the tail.
\<close>

lemma unlinked_dseg:
  assumes seg: "dseg h None (xs @ n # y # zs) None" and dist: "distinct (xs @ n # y # zs)"
  shows "dseg (unlinked h n) None (xs @ y # zs) None"
proof -
  from seg have nx: "nd_next (h n) = Some y" and pv: "nd_prev (h n) = last_or None xs"
    by (simp_all add: dseg_append)
  have right: "dseg (h(y := (h y)\<lparr>nd_prev := last_or None xs\<rparr>)) (last_or None xs) (y # zs) None"
    using seg dist by (intro dseg_set_prev_hd [where p = "Some n"]) (auto simp: dseg_append)
  show ?thesis
  proof (cases xs rule: rev_cases)
    case Nil
    with right nx pv show ?thesis by (simp add: unlinked_def)
  next
    case (snoc ws p)
    have left: "dseg (h(p := (h p)\<lparr>nd_next := Some y\<rparr>)) None (ws @ [p]) (Some y)"
      using seg dist snoc
      by (intro dseg_set_next_last [where q = "Some n"]) (auto simp: dseg_append)
    from dist snoc have ne: "y \<notin> set (ws @ [p])" "p \<notin> set (y # zs)" by auto
    from nx pv snoc have h: "unlinked h n =
        h(p := (h p)\<lparr>nd_next := Some y\<rparr>, y := (h y)\<lparr>nd_prev := Some p\<rparr>)"
      using ne by (auto simp: unlinked_def Let_def fun_eq_iff)
    also from ne have "\<dots> =
        (h(y := (h y)\<lparr>nd_prev := Some p\<rparr>))(p := (h p)\<lparr>nd_next := Some y\<rparr>)"
      by (auto simp: fun_eq_iff)
    finally have h': "unlinked h n = \<dots>" .
    have "dseg (unlinked h n) None (ws @ [p]) (Some y)"
      unfolding h using left dseg_upd [OF ne(1)] by blast
    moreover have "dseg (unlinked h n) (Some p) (y # zs) None"
      unfolding h' using right snoc dseg_upd [OF ne(2)] by simp
    ultimately show ?thesis
      using snoc dseg_append [of "unlinked h n" None "ws @ [p]" "y # zs" None] by simp
  qed
qed

lemma attached_remove:
  "attached s n \<Longrightarrow> attached (pool_Remove (Some n) s) m \<longleftrightarrow> attached s m \<and> m \<noteq> n"
  by (auto simp: attached_def frame_simps remove_res remove_nodes)

lemma remove_inner_rep:
  assumes rep: "pool_rep s (xs @ n # ys)" and "ys \<noteq> []"
  shows "pool_rep (pool_Remove (Some n) s) (xs @ ys)"
    and "pool_resources (pool_Remove (Some n) s) (xs @ ys) =
           pool_resources s xs @ pool_resources s ys"
proof -
  from \<open>ys \<noteq> []\<close> obtain y zs where ys: "ys = y # zs" by (cases ys) auto
  from rep have att: "\<forall>m\<in>set (xs @ n # ys). attached s m"
    and seg: "dseg (pl_nodes s) None (xs @ n # ys) None"
    and dist: "distinct (xs @ n # ys)" and tl: "pl_tail s = Some (last ys)"
    using ys by (auto simp: pool_rep_def last_or_def)
  from dist ys have "last ys \<noteq> n" by auto
  then have "pl_tail (pool_Remove (Some n) s) = last_or None (xs @ ys)"
    using tl ys by (auto simp: remove_tail last_or_def)
  moreover have "dseg (pl_nodes (pool_Remove (Some n) s)) None (xs @ ys) None"
    using unlinked_dseg [of "pl_nodes s" xs n y zs] seg dist ys by (simp add: remove_nodes)
  moreover have "\<forall>m\<in>set (xs @ ys). attached (pool_Remove (Some n) s) m"
    using att dist by (auto simp: attached_remove)
  ultimately show "pool_rep (pool_Remove (Some n) s) (xs @ ys)"
    using dist by (auto simp: pool_rep_def)
  show "pool_resources (pool_Remove (Some n) s) (xs @ ys) =
           pool_resources s xs @ pool_resources s ys"
    by (simp add: pool_resources_def remove_nodes)
qed

text \<open>Unlinking the tail leaves the pool without any list at all.\<close>

lemma remove_tail_rep:
  assumes "pool_rep s (xs @ [n])"
  shows "pool_rep (pool_Remove (Some n) s) []"
  using assms by (simp add: pool_rep_def remove_tail)

subsection \<open>ForEach visits the list in order\<close>

lemma find_head_dseg:
  "dseg h None (ns @ [t]) q \<Longrightarrow> find_head h t = Some (hd (ns @ [t]))"
proof (induction ns arbitrary: t q rule: rev_induct)
  case Nil
  then show ?case by (simp add: find_head.simps)
next
  case (snoc m ns)
  then have "dseg h None (ns @ [m]) (Some t)" and "nd_prev (h t) = Some m"
    by (auto simp: dseg_append)
  with snoc.IH have "find_head h m = Some (hd (ns @ [m]))" by blast
  with \<open>nd_prev (h t) = Some m\<close> show ?case
    by (subst find_head.simps) (simp add: hd_append)
qed

text \<open>An iteratee that leaves the nodes alone, as the one \<open>Close\<close> passes.\<close>

definition keeps_nodes :: "(rref \<Rightarrow> pool \<Rightarrow> pool) \<Rightarrow> bool" where
  "keeps_nodes iter \<longleftrightarrow> (\<forall>r s. pl_nodes (iter r s) = pl_nodes s)"

lemma keeps_nodesD: "keeps_nodes iter \<Longrightarrow> pl_nodes (iter r s) = pl_nodes s"
  by (simp add: keeps_nodes_def)

lemma walk_dseg:
  assumes "keeps_nodes iter"
  shows "dseg (pl_nodes s) p ns None \<Longrightarrow>
     walk_nodes iter (first_or None ns) s = Some (fold iter (pool_resources s ns) s)"
proof (induction ns arbitrary: p s)
  case Nil
  then show ?case by (simp add: walk_nodes.simps pool_resources_def)
next
  case (Cons n ns)
  let ?t = "iter (nd_resource (pl_nodes s n)) s"
  have nodes: "pl_nodes ?t = pl_nodes s" by (rule keeps_nodesD [OF assms])
  from Cons.prems have nx: "nd_next (pl_nodes s n) = first_or None ns"
    and seg: "dseg (pl_nodes ?t) (Some n) ns None"
    by (auto simp: nodes first_or_def)
  have "walk_nodes iter (Some n) s = walk_nodes iter (first_or None ns) ?t"
    by (subst walk_nodes.simps) (simp add: Let_def nodes nx)
  with Cons.IH [OF seg] show ?case by (simp add: pool_resources_def nodes)
qed

lemma ForEach_rep:
  assumes rep: "pool_rep s ns" and "keeps_nodes iter"
  shows "pool_ForEach iter s = Some (fold iter (pool_resources s ns) s)"
proof (cases ns rule: rev_cases)
  case Nil
  with rep show ?thesis by (simp add: pool_ForEach_def pool_rep_def pool_resources_def)
next
  case (snoc ms t)
  from rep snoc have seg: "dseg (pl_nodes s) None (ms @ [t]) None" and tl: "pl_tail s = Some t"
    by (auto simp: pool_rep_def)
  have "walk_nodes iter (Some (hd (ms @ [t]))) s = Some (fold iter (pool_resources s ns) s)"
    using walk_dseg [OF assms(2) seg] snoc by (cases ms) auto
  with find_head_dseg [OF seg] tl show ?thesis by (simp add: pool_ForEach_def)
qed

subsection \<open>The pool as a state machine\<close>

text \<open>
  \<open>ExecutionContext.Guard\<close> (\<open>execution_context.go\<close>) stores the pool in the resource and
  queues it for insertion.
\<close>

definition ec_Guard :: "rref \<Rightarrow> pool \<Rightarrow> pool option" where
  "ec_Guard r s = pool_Insert r (setPool r True s)"

text \<open>
  The callers create a resource and guard it at once (\<open>fs.go\<close>, \<open>sql.go\<close>, \<open>http\<close>,
  \<open>network\<close>, \<open>websocket\<close>); they cancel it when the script closes the handle.
\<close>

datatype pool_event =
    GuardNew string bool
  | Goroutine
  | CancelRes rref
  | ReleaseRes rref

fun pool_step :: "pool_event \<Rightarrow> pool \<Rightarrow> pool option" where
  "pool_step (GuardNew name after) s =
     (case NewResource name after s of (r, t) \<Rightarrow> ec_Guard r t)"
| "pool_step Goroutine s = pool_goroutine s"
| "pool_step (CancelRes r) s = (if r < pl_rfresh s then Some (resource_Cancel r s) else None)"
| "pool_step (ReleaseRes r) s = (if r < pl_rfresh s then Some (resource_Release r s) else None)"

definition links_ok :: "pool \<Rightarrow> bool" where
  "links_ok s \<longleftrightarrow>
     (\<forall>n m. attached s n \<and> nd_prev (pl_nodes s n) = Some m \<longrightarrow>
        attached s m \<and> m < n \<and> nd_next (pl_nodes s m) = Some n) \<and>
     (\<forall>n m. attached s n \<and> nd_next (pl_nodes s n) = Some m \<longrightarrow>
        attached s m \<and> n < m \<and> nd_prev (pl_nodes s m) = Some n) \<and>
     (\<forall>t. pl_tail s = Some t \<longrightarrow> attached s t \<and> nd_next (pl_nodes s t) = None)"

definition refs_ok :: "pool \<Rightarrow> bool" where
  "refs_ok s \<longleftrightarrow>
     (\<forall>r n. rs_node (pl_res s r) = Some n \<longrightarrow>
        n < pl_fresh s \<and> nd_resource (pl_nodes s n) = r \<and> r < pl_rfresh s) \<and>
     distinct (ch_buf (pl_cache s)) \<and>
     (\<forall>r \<in> set (ch_buf (pl_cache s)). rs_node (pl_res s r) = None \<and> r < pl_rfresh s)"

definition log_ok :: "pool \<Rightarrow> bool" where
  "log_ok s \<longleftrightarrow>
     (\<forall>r. count_list (pl_log s) (ReleaseRun r) = (if rs_released (pl_res s r) then 1 else 0) \<and>
          count_list (pl_log s) (AfterRun r) \<le> 1 \<and>
          (\<not> rs_released (pl_res s r) \<longrightarrow> count_list (pl_log s) (AfterRun r) = 0)) \<and>
     (\<forall>r \<ge> pl_rfresh s. \<not> rs_released (pl_res s r))"

definition pool_inv :: "pool \<Rightarrow> bool" where
  "pool_inv s \<longleftrightarrow> links_ok s \<and> refs_ok s"

lemma pool_inv_New: "pool_inv (NewResourcePool k)"
  by (simp add: pool_inv_def links_ok_def refs_ok_def attached_def NewResourcePool_def
      resource0_def)

lemma links_okI:
  assumes "\<And>n m. attached s n \<Longrightarrow> nd_prev (pl_nodes s n) = Some m \<Longrightarrow>
      attached s m \<and> m < n \<and> nd_next (pl_nodes s m) = Some n"
    and "\<And>n m. attached s n \<Longrightarrow> nd_next (pl_nodes s n) = Some m \<Longrightarrow>
      attached s m \<and> n < m \<and> nd_prev (pl_nodes s m) = Some n"
    and "\<And>t. pl_tail s = Some t \<Longrightarrow> attached s t \<and> nd_next (pl_nodes s t) = None"
  shows "links_ok s"
  unfolding links_ok_def using assms by blast

lemma links_prevD:
  "links_ok s \<Longrightarrow> attached s n \<Longrightarrow> nd_prev (pl_nodes s n) = Some m \<Longrightarrow>
     attached s m \<and> m < n \<and> nd_next (pl_nodes s m) = Some n"
  unfolding links_ok_def by blast

lemma links_nextD:
  "links_ok s \<Longrightarrow> attached s n \<Longrightarrow> nd_next (pl_nodes s n) = Some m \<Longrightarrow>
     attached s m \<and> n < m \<and> nd_prev (pl_nodes s m) = Some n"
  unfolding links_ok_def by blast

lemma links_tailD:
  "links_ok s \<Longrightarrow> pl_tail s = Some t \<Longrightarrow> attached s t \<and> nd_next (pl_nodes s t) = None"
  unfolding links_ok_def by blast

lemma attached_link:
  assumes "refs_ok s" and "rs_node (pl_res s r) = None"
  shows "attached (link_resource r s) m \<longleftrightarrow> attached s m \<or> m = pl_fresh s"
proof (cases "m = pl_fresh s")
  case True
  have "nd_resource (pl_nodes (link_resource r s) (pl_fresh s)) = r"
    by (auto simp: link_nodes Let_def split: option.splits)
  with True show ?thesis by (simp add: attached_def frame_simps)
next
  case False
  with assms show ?thesis by (auto simp: attached_def frame_simps)
qed

lemma links_ok_link:
  assumes inv: "links_ok s" and refs: "refs_ok s" and r: "rs_node (pl_res s r) = None"
  shows "links_ok (link_resource r s)"
proof -
  let ?h = "pl_nodes s" and ?n = "pl_fresh s"
  let ?h' = "pl_nodes (link_resource r s)"
  note att = attached_link [OF refs r]
  have lt: "attached s m \<Longrightarrow> m < ?n" for m by (simp add: attached_def)
  have tl: "pl_tail s = Some t \<Longrightarrow> attached s t \<and> nd_next (?h t) = None" for t
    using links_tailD [OF inv] .
  have "pl_tail s \<noteq> Some ?n" using tl lt by blast
  then have new: "nd_prev (?h' ?n) = pl_tail s \<and> nd_next (?h' ?n) = None"
    by (auto simp: link_nodes Let_def split: option.splits)
  have old_prev: "m < ?n \<Longrightarrow> nd_prev (?h' m) = nd_prev (?h m)" for m
    by (auto simp: link_nodes Let_def split: option.splits)
  have old_next: "m < ?n \<Longrightarrow> nd_next (?h' m) = (if pl_tail s = Some m then Some ?n else nd_next (?h m))" for m
    by (auto simp: link_nodes Let_def split: option.splits)
  note fwd = links_prevD [OF inv] and bwd = links_nextD [OF inv]
  have P: "(attached s m \<or> m = ?n) \<and> m < k \<and> nd_next (?h' m) = Some k"
    if k: "attached s k \<or> k = ?n" and "nd_prev (?h' k) = Some m" for k m
  proof (cases "k = ?n")
    case True
    with that new tl lt old_next show ?thesis by simp
  next
    case False
    with k lt that have *: "attached s k" "nd_prev (?h k) = Some m" by (auto simp: old_prev)
    from fwd [OF *] have "attached s m" "m < k" "nd_next (?h m) = Some k" by auto
    moreover from this tl have "pl_tail s \<noteq> Some m" by auto
    ultimately show ?thesis using lt old_next by simp
  qed
  have N: "(attached s m \<or> m = ?n) \<and> k < m \<and> nd_prev (?h' m) = Some k"
    if k: "attached s k \<or> k = ?n" and "nd_next (?h' k) = Some m" for k m
  proof (cases "k = ?n")
    case True
    with that new show ?thesis by simp
  next
    case False
    with k have ak: "attached s k" by simp
    show ?thesis
    proof (cases "pl_tail s = Some k")
      case True
      with ak that lt new old_next show ?thesis by simp
    next
      case False
      with ak lt that have "nd_next (?h k) = Some m" by (simp add: old_next)
      from bwd [OF ak this] lt old_prev show ?thesis by simp
    qed
  qed
  have T: "t = ?n" if "pl_tail (link_resource r s) = Some t" for t
    using that by (simp add: frame_simps)
  show ?thesis
  proof (rule links_okI; unfold att)
    fix k m assume "attached s k \<or> k = ?n" and "nd_prev (?h' k) = Some m"
    then show "(attached s m \<or> m = ?n) \<and> m < k \<and> nd_next (?h' m) = Some k" by (rule P)
  next
    fix k m assume "attached s k \<or> k = ?n" and "nd_next (?h' k) = Some m"
    then show "(attached s m \<or> m = ?n) \<and> k < m \<and> nd_prev (?h' m) = Some k" by (rule N)
  next
    fix t assume "pl_tail (link_resource r s) = Some t"
    then have "t = ?n" by (rule T)
    with new show "(attached s t \<or> t = ?n) \<and> nd_next (?h' t) = None" by blast
  qed
qed

lemma unlinked_prev:
  "nd_prev (unlinked h n k) = (if nd_next (h n) = Some k then nd_prev (h n) else nd_prev (h k))"
  by (auto simp: unlinked_def Let_def split: option.splits)

lemma unlinked_next:
  "nd_next (unlinked h n k) = (if nd_prev (h n) = Some k then nd_next (h n) else nd_next (h k))"
  by (auto simp: unlinked_def Let_def split: option.splits)

lemma links_ok_remove:
  assumes inv: "links_ok s" and n: "attached s n"
  shows "links_ok (pool_Remove (Some n) s)"
proof (rule links_okI; unfold attached_remove [OF n] remove_nodes)
  let ?h = "pl_nodes s"
  fix k m assume k: "attached s k \<and> k \<noteq> n" and pv: "nd_prev (unlinked ?h n k) = Some m"
  show "(attached s m \<and> m \<noteq> n) \<and> m < k \<and> nd_next (unlinked ?h n m) = Some k"
  proof (cases "nd_next (?h n) = Some k")
    case True
    with pv have pn: "nd_prev (?h n) = Some m" by (simp add: unlinked_prev)
    with links_prevD [OF inv n pn] links_nextD [OF inv n True] True
    show ?thesis by (auto simp: unlinked_next)
  next
    case False
    with pv have pk: "nd_prev (?h k) = Some m" by (simp add: unlinked_prev)
    from k have ak: "attached s k" by simp
    from links_prevD [OF inv ak pk] have m: "attached s m" "m < k" "nd_next (?h m) = Some k"
      by blast+
    with False have "m \<noteq> n" by auto
    moreover have "nd_prev (?h n) \<noteq> Some m"
      using links_prevD [OF inv n] m k by fastforce
    ultimately show ?thesis using m by (simp add: unlinked_next)
  qed
next
  let ?h = "pl_nodes s"
  fix k m assume k: "attached s k \<and> k \<noteq> n" and nx: "nd_next (unlinked ?h n k) = Some m"
  show "(attached s m \<and> m \<noteq> n) \<and> k < m \<and> nd_prev (unlinked ?h n m) = Some k"
  proof (cases "nd_prev (?h n) = Some k")
    case True
    with nx have nn: "nd_next (?h n) = Some m" by (simp add: unlinked_next)
    with links_nextD [OF inv n nn] links_prevD [OF inv n True] True
    show ?thesis by (auto simp: unlinked_prev)
  next
    case False
    with nx have nk: "nd_next (?h k) = Some m" by (simp add: unlinked_next)
    from k have ak: "attached s k" by simp
    from links_nextD [OF inv ak nk] have m: "attached s m" "k < m" "nd_prev (?h m) = Some k"
      by blast+
    with False have "m \<noteq> n" by auto
    moreover have "nd_next (?h n) \<noteq> Some m"
      using links_nextD [OF inv n] m k by fastforce
    ultimately show ?thesis using m by (simp add: unlinked_prev)
  qed
next
  fix t assume "pl_tail (pool_Remove (Some n) s) = Some t"
  then have t: "pl_tail s = Some t" "t \<noteq> n" by (auto simp: remove_tail split: if_splits)
  from links_tailD [OF inv t(1)] have a: "attached s t" "nd_next (pl_nodes s t) = None" by blast+
  have "nd_prev (pl_nodes s n) \<noteq> Some t"
    using links_prevD [OF inv n] a(2) by fastforce
  with a t show "(attached s t \<and> t \<noteq> n) \<and> nd_next (unlinked (pl_nodes s) n t) = None"
    by (simp add: unlinked_next)
qed

text \<open>Steps that touch no node and no \<open>node\<close> field keep the links.\<close>

lemma attached_cong:
  assumes "pl_nodes t = pl_nodes s" "pl_fresh t = pl_fresh s"
    "\<And>r. rs_node (pl_res t r) = rs_node (pl_res s r)"
  shows "attached t n = attached s n"
  using assms by (simp add: attached_def)

lemma links_ok_cong:
  assumes "pl_nodes t = pl_nodes s" "pl_fresh t = pl_fresh s" "pl_tail t = pl_tail s"
    "\<And>r. rs_node (pl_res t r) = rs_node (pl_res s r)"
  shows "links_ok t = links_ok s"
  unfolding links_ok_def attached_cong [OF assms(1,2,4)] assms(1,3) by (rule refl)

lemma refs_ok_link:
  assumes "refs_ok s" and "rs_node (pl_res s r) = None" and "r < pl_rfresh s"
    and "r \<notin> set (ch_buf (pl_cache s))"
  shows "refs_ok (link_resource r s)"
proof -
  have new: "nd_resource (pl_nodes (link_resource r s) (pl_fresh s)) = r"
    by (auto simp: link_nodes Let_def split: option.splits)
  have old: "nd_resource (pl_nodes (link_resource r s) n) = nd_resource (pl_nodes s n)"
    if "n < pl_fresh s" for n using that by simp
  have "nd_resource (pl_nodes (link_resource r s) n) = q"
    if "rs_node (pl_res s q) = Some n" for q n
    using assms(1) that old [of n] unfolding refs_ok_def by metis
  with assms new show ?thesis
    by (auto simp: refs_ok_def frame_simps less_SucI)
qed

lemma refs_ok_remove: "refs_ok s \<Longrightarrow> refs_ok (pool_Remove (Some n) s)"
  by (auto simp: refs_ok_def frame_simps remove_res remove_nodes split: if_splits)

lemma cancel_cases:
  "resource_Cancel r s = s \<or>
   (\<exists>n. rs_node (pl_res s r) = Some n \<and> resource_Cancel r s = pool_Remove (Some n) s)"
  by (auto simp: resource_Cancel_def)

lemma refs_attached: "refs_ok s \<Longrightarrow> rs_node (pl_res s r) = Some n \<Longrightarrow> attached s n"
  by (auto simp: refs_ok_def attached_def)

lemma guard_fields:
  assumes "pool_step (GuardNew name after) s = Some t"
  shows "pl_nodes t = pl_nodes s" "pl_fresh t = pl_fresh s" "pl_tail t = pl_tail s"
    "pl_log t = pl_log s" "pl_rfresh t = Suc (pl_rfresh s)"
    "pl_res t = (pl_res s)(pl_rfresh s := \<lparr>rs_name = name, rs_released = False,
       rs_has_after = after, rs_node = None, rs_pool = True\<rparr>)"
    "ch_buf (pl_cache t) = ch_buf (pl_cache s) @ [pl_rfresh s]"
  using assms
  by (auto simp: NewResource_def Let_def ec_Guard_def pool_Insert_def setPool_def chan_simps
      split: option.splits)

lemma goroutine_fields:
  assumes "pool_goroutine s = Some t"
  obtains r vs where "ch_buf (pl_cache s) = r # vs"
    and "t = link_resource r (s\<lparr>pl_cache := (pl_cache s)\<lparr>ch_buf := vs\<rparr>\<rparr>)"
  using assms by (auto simp: pool_goroutine_def chan_simps split: if_splits option.splits)

lemma refs_fresh_None:
  assumes "refs_ok s" shows "rs_node (pl_res s (pl_rfresh s)) = None"
proof (cases "rs_node (pl_res s (pl_rfresh s))")
  case (Some n)
  with assms show ?thesis by (auto simp: refs_ok_def)
qed

lemma pool_step_inv [inv_intros]:
  assumes inv: "pool_inv s" and step: "pool_step e s = Some t"
  shows "pool_inv t"
proof -
  from inv have L: "links_ok s" and R: "refs_ok s" by (simp_all add: pool_inv_def)
  show ?thesis
  proof (cases e)
    case (GuardNew name after)
    note f = guard_fields [OF step [unfolded GuardNew]]
    have "links_ok t"
      using L links_ok_cong [of t s] f refs_fresh_None [OF R] by simp
    moreover have "refs_ok t"
      using R by (auto simp: refs_ok_def f less_SucI split: if_splits)
    ultimately show ?thesis by (simp add: pool_inv_def)
  next
    case Goroutine
    with step have "pool_goroutine s = Some t" by simp
    then obtain r vs where vs: "ch_buf (pl_cache s) = r # vs"
      and t: "t = link_resource r (s\<lparr>pl_cache := (pl_cache s)\<lparr>ch_buf := vs\<rparr>\<rparr>)"
      by (rule goroutine_fields)
    let ?s = "s\<lparr>pl_cache := (pl_cache s)\<lparr>ch_buf := vs\<rparr>\<rparr>"
    have "links_ok ?s" using L links_ok_cong [of ?s s] by simp
    moreover have "refs_ok ?s" using R vs by (simp add: refs_ok_def)
    moreover have "rs_node (pl_res ?s r) = None" "r < pl_rfresh ?s" "r \<notin> set (ch_buf (pl_cache ?s))"
      using R vs by (auto simp: refs_ok_def)
    ultimately show ?thesis
      unfolding t pool_inv_def by (blast intro: links_ok_link refs_ok_link)
  next
    case (CancelRes r)
    with step have t: "t = resource_Cancel r s" by (simp split: if_splits)
    from cancel_cases [of r s] show ?thesis
    proof (elim disjE exE conjE)
      assume "resource_Cancel r s = s"
      with inv show ?thesis by (simp add: t)
    next
      fix n assume n: "rs_node (pl_res s r) = Some n"
        and c: "resource_Cancel r s = pool_Remove (Some n) s"
      show ?thesis
        unfolding t c pool_inv_def
        using links_ok_remove [OF L refs_attached [OF R n]] refs_ok_remove [OF R] by blast
    qed
  next
    case (ReleaseRes r)
    with step have t: "t = resource_Release r s" by (simp split: if_splits)
    have "links_ok t" using L links_ok_cong [of t s] by (simp add: t resource_Release_def)
    moreover have "refs_ok t" using R by (auto simp: t resource_Release_def refs_ok_def)
    ultimately show ?thesis by (simp add: pool_inv_def)
  qed
qed

subsection \<open>Every reachable pool holds a list\<close>

lemma back_list:
  assumes inv: "links_ok s"
  shows "attached s t \<Longrightarrow> \<exists>ns. dseg (pl_nodes s) None (ns @ [t]) (nd_next (pl_nodes s t)) \<and>
     distinct (ns @ [t]) \<and> (\<forall>n\<in>set (ns @ [t]). attached s n \<and> n \<le> t)"
proof (induction t rule: less_induct)
  case (less t)
  show ?case
  proof (cases "nd_prev (pl_nodes s t)")
    case None
    with less.prems show ?thesis by (intro exI [of _ "[]"]) simp
  next
    case (Some m)
    from links_prevD [OF inv less.prems Some] have m: "attached s m" "m < t"
      "nd_next (pl_nodes s m) = Some t" by blast+
    from less.IH [OF m(2,1)] obtain ns where
      ns: "dseg (pl_nodes s) None (ns @ [m]) (Some t)" "distinct (ns @ [m])"
        "\<forall>n\<in>set (ns @ [m]). attached s n \<and> n \<le> m"
      using m(3) by auto
    from ns m Some less.prems
    have "dseg (pl_nodes s) None ((ns @ [m]) @ [t]) (nd_next (pl_nodes s t))"
      by (simp add: dseg_append [of _ _ "ns @ [m]"] del: append_assoc)
    with ns m less.prems show ?thesis
      by (intro exI [of _ "ns @ [m]"]) (auto simp del: append_assoc)
  qed
qed

lemma pool_inv_rep:
  assumes "pool_inv s" shows "\<exists>ns. pool_rep s ns"
proof (cases "pl_tail s")
  case None
  then have "pool_rep s []" by (simp add: pool_rep_def)
  then show ?thesis ..
next
  case (Some t)
  from assms have L: "links_ok s" by (simp add: pool_inv_def)
  from links_tailD [OF L Some] have t: "attached s t" "nd_next (pl_nodes s t) = None" by blast+
  from back_list [OF L t(1)] t(2) obtain ns where
    "dseg (pl_nodes s) None (ns @ [t]) None" "distinct (ns @ [t])"
    "\<forall>n\<in>set (ns @ [t]). attached s n" by auto
  with Some have "pool_rep s (ns @ [t])" by (simp add: pool_rep_def)
  then show ?thesis ..
qed

text \<open>The release callbacks run at most once, whatever the calls.\<close>

lemma log_ok_New: "log_ok (NewResourcePool k)"
  by (simp add: log_ok_def NewResourcePool_def resource0_def)

lemma link_released [simp]:
  "rs_released (pl_res (link_resource r s) q) = rs_released (pl_res s q)"
  by (simp add: frame_simps)

lemma remove_released [simp]:
  "rs_released (pl_res (pool_Remove x s) q) = rs_released (pl_res s q)"
  by (cases x) (simp_all add: pool_Remove_def [of None] remove_res)

lemma cancel_fields [frame_simps]:
  "pl_log (resource_Cancel r s) = pl_log s"
  "pl_rfresh (resource_Cancel r s) = pl_rfresh s"
  "rs_released (pl_res (resource_Cancel r s) q) = rs_released (pl_res s q)"
  by (simp_all add: resource_Cancel_def frame_simps)

lemma release_log_ok: "log_ok s \<Longrightarrow> r < pl_rfresh s \<Longrightarrow> log_ok (resource_Release r s)"
  by (auto simp: log_ok_def resource_Release_def)

lemma log_ok_cong:
  assumes "pl_log t = pl_log s" "pl_rfresh s \<le> pl_rfresh t"
    "\<And>r. rs_released (pl_res t r) = rs_released (pl_res s r)"
  shows "log_ok s \<Longrightarrow> log_ok t"
  using assms by (simp add: log_ok_def)

lemma pool_step_log_ok [inv_intros]:
  assumes "log_ok s" and "pool_step e s = Some t"
  shows "log_ok t"
proof (cases e)
  case (GuardNew name after)
  with assms(2) have "pool_step (GuardNew name after) s = Some t" by simp
  note f = guard_fields [OF this]
  have "\<not> rs_released (pl_res s (pl_rfresh s))" using assms(1) by (simp add: log_ok_def)
  then have "rs_released (pl_res t q) = rs_released (pl_res s q)" for q by (simp add: f(6))
  with f(4,5) assms(1) show ?thesis using log_ok_cong [of t s] by simp
next
  case Goroutine
  with assms(2) have "pool_goroutine s = Some t" by simp
  then show ?thesis
    by (rule goroutine_fields) (use assms(1) in \<open>auto simp: log_ok_def frame_simps\<close>)
next
  case (CancelRes r)
  with assms show ?thesis
    by (auto simp: frame_simps intro: log_ok_cong split: if_splits)
next
  case (ReleaseRes r)
  with assms show ?thesis
    by (auto intro: release_log_ok split: if_splits)
qed

definition pool_reached :: "pool_event list \<Rightarrow> nat \<Rightarrow> pool \<Rightarrow> bool" where
  "pool_reached es k s \<longleftrightarrow> run_events pool_step es (NewResourcePool k) = Some s"

lemma pool_reached_inv: "pool_reached es k s \<Longrightarrow> pool_inv s"
  unfolding pool_reached_def
  by (rule run_events_inv [where I = pool_inv])
     (auto simp: pool_inv_New intro: pool_step_inv)

lemma pool_reached_log: "pool_reached es k s \<Longrightarrow> log_ok s"
  unfolding pool_reached_def
  by (rule run_events_inv [where I = log_ok]) (auto simp: log_ok_New intro: pool_step_log_ok)

subsection \<open>Closing\<close>

text \<open>
  The second half of \<open>ExecutionContext.Close\<close>: stop the pool's goroutine, then release every
  resource of the list and clear its two pointers.
\<close>

definition release_and_detach :: "rref \<Rightarrow> pool \<Rightarrow> pool" where
  "release_and_detach r s = setNode r None (setPool r False (resource_Release r s))"

definition close_resources :: "pool \<Rightarrow> pool option" where
  "close_resources s =
     (case pool_Close s of None \<Rightarrow> None | Some t \<Rightarrow> pool_ForEach release_and_detach t)"

text \<open>The resources released so far, oldest first.\<close>

fun released_of :: "callback list \<Rightarrow> rref list" where
  "released_of [] = []"
| "released_of (ReleaseRun r # cs) = r # released_of cs"
| "released_of (AfterRun r # cs) = released_of cs"

lemma released_of_append [simp]: "released_of (cs @ ds) = released_of cs @ released_of ds"
  by (induction cs rule: released_of.induct) auto

lemma set_released_of: "r \<in> set (released_of cs) \<longleftrightarrow> ReleaseRun r \<in> set cs"
  by (induction cs rule: released_of.induct) auto

text \<open>
  What a client of the pool relies on when it visits the resources: the visit is a fold over the
  held list, and the visitor releases each resource that was not released before.
\<close>

locale visited_registry =
  fixes holds :: "'s \<Rightarrow> 'r list \<Rightarrow> bool"
    and each :: "('r \<Rightarrow> 's \<Rightarrow> 's) \<Rightarrow> 's \<Rightarrow> 's option"
    and quiet :: "('r \<Rightarrow> 's \<Rightarrow> 's) \<Rightarrow> bool"
    and finish :: "'r \<Rightarrow> 's \<Rightarrow> 's"
    and finished :: "'s \<Rightarrow> 'r list"
    and ok :: "'s \<Rightarrow> bool"
    and valid :: "'r \<Rightarrow> 's \<Rightarrow> bool"
  assumes each_fold: "holds s rs \<Longrightarrow> quiet f \<Longrightarrow> each f s = Some (fold f rs s)"
    and holds_valid: "holds s rs \<Longrightarrow> distinct rs \<and> (\<forall>r\<in>set rs. valid r s)"
    and finish_quiet: "quiet finish"
    and finish_ok: "ok s \<Longrightarrow> valid r s \<Longrightarrow> ok (finish r s)"
    and finish_valid: "valid q (finish r s) = valid q s"
    and finish_finished:
      "ok s \<Longrightarrow> finished (finish r s) = finished s @ (if r \<in> set (finished s) then [] else [r])"
begin

lemma fold_finish:
  "ok s \<Longrightarrow> distinct rs \<Longrightarrow> (\<forall>r\<in>set rs. valid r s) \<Longrightarrow>
     finished (fold finish rs s) = finished s @ filter (\<lambda>r. r \<notin> set (finished s)) rs"
proof (induction rs arbitrary: s)
  case Nil
  then show ?case by simp
next
  case (Cons r rs)
  then have "ok (finish r s)" "\<forall>q\<in>set rs. valid q (finish r s)"
    by (auto simp: finish_ok finish_valid)
  with Cons.IH Cons.prems have
    "finished (fold finish rs (finish r s)) =
       finished (finish r s) @ filter (\<lambda>q. q \<notin> set (finished (finish r s))) rs"
    by simp
  moreover have "filter (\<lambda>q. q \<notin> set (finished (finish r s))) rs =
      filter (\<lambda>q. q \<notin> set (finished s)) rs"
    using Cons.prems by (intro filter_cong) (auto simp: finish_finished)
  ultimately show ?case using Cons.prems by (simp add: finish_finished)
qed

text \<open>Visiting with \<open>finish\<close> releases each held resource exactly once, in list order.\<close>

lemma each_finish:
  assumes "holds s rs" and "ok s"
  shows "\<exists>t. each finish s = Some t \<and>
     finished t = finished s @ filter (\<lambda>r. r \<notin> set (finished s)) rs"
  using assms each_fold [OF assms(1) finish_quiet] fold_finish holds_valid by auto

end

definition pool_holds :: "pool \<Rightarrow> rref list \<Rightarrow> bool" where
  "pool_holds s rs \<longleftrightarrow> refs_ok s \<and> (\<exists>ns. pool_rep s ns \<and> rs = pool_resources s ns)"

definition pool_released :: "pool \<Rightarrow> rref list" where
  "pool_released s = released_of (pl_log s)"

lemma detach_quiet: "keeps_nodes release_and_detach"
  by (simp add: keeps_nodes_def release_and_detach_def setNode_def setPool_def
      resource_Release_def)

lemma detach_fields [frame_simps]:
  "pl_log (release_and_detach r s) = pl_log (resource_Release r s)"
  "pl_rfresh (release_and_detach r s) = pl_rfresh s"
  "rs_released (pl_res (release_and_detach r s) q) = rs_released (pl_res (resource_Release r s) q)"
  "rs_node (pl_res (release_and_detach r s) q) = (if q = r then None else rs_node (pl_res s q))"
  by (simp_all add: release_and_detach_def setNode_def setPool_def resource_Release_def)

lemma release_rfresh [simp]: "pl_rfresh (resource_Release r s) = pl_rfresh s"
  by (simp add: resource_Release_def)

lemma released_iff:
  assumes "log_ok s"
  shows "r \<in> set (pool_released s) \<longleftrightarrow> rs_released (pl_res s r)"
proof -
  from assms have "count_list (pl_log s) (ReleaseRun r) = (if rs_released (pl_res s r) then 1 else 0)"
    unfolding log_ok_def by blast
  then show ?thesis
    unfolding pool_released_def set_released_of using count_list_0_iff [of "pl_log s" "ReleaseRun r"]
    by (simp split: if_splits)
qed

interpretation pool_reg: visited_registry pool_holds pool_ForEach keeps_nodes
  release_and_detach pool_released log_ok "\<lambda>r s. r < pl_rfresh s"
proof unfold_locales
  fix s rs f assume "pool_holds s rs" and f: "keeps_nodes f"
  then obtain ns where ns: "pool_rep s ns" and rs: "rs = pool_resources s ns"
    unfolding pool_holds_def by blast
  show "pool_ForEach f s = Some (fold f rs s)"
    unfolding rs by (rule ForEach_rep [OF ns f])
next
  fix s rs assume h: "pool_holds s rs"
  then obtain ns where ns: "pool_rep s ns" "rs = pool_resources s ns" and R: "refs_ok s"
    unfolding pool_holds_def by blast
  have "r < pl_rfresh s" if "rs_node (pl_res s r) = Some n" for r n
    using R that unfolding refs_ok_def by blast
  with ns have "\<forall>r\<in>set rs. r < pl_rfresh s"
    by (auto simp: pool_rep_def pool_resources_def attached_def)
  with ns show "distinct rs \<and> (\<forall>r\<in>set rs. r < pl_rfresh s)"
    by (simp add: pool_resources_distinct)
next
  fix s r assume "log_ok s" "r < pl_rfresh s"
  then have "log_ok (resource_Release r s)" by (rule release_log_ok)
  then show "log_ok (release_and_detach r s)"
    by (rule log_ok_cong [rotated -1]) (simp_all add: frame_simps)
next
  fix s r assume "log_ok s"
  then show "pool_released (release_and_detach r s) =
      pool_released s @ (if r \<in> set (pool_released s) then [] else [r])"
    by (simp add: released_iff) (auto simp: pool_released_def frame_simps resource_Release_def)
qed (simp_all add: detach_quiet frame_simps)

lemma close_holds:
  assumes inv: "pool_inv s" and log: "log_ok s" and run: "pl_running s" and rep: "pool_rep s ns"
  shows "\<exists>t. close_resources s = Some t \<and>
     pool_released t = pool_released s @
       filter (\<lambda>r. r \<notin> set (pool_released s)) (pool_resources s ns)"
proof -
  let ?s = "s\<lparr>pl_running := False\<rparr>"
  from rep have "pool_rep ?s ns" by (simp add: pool_rep_def attached_def)
  moreover from inv have "refs_ok ?s" by (simp add: pool_inv_def refs_ok_def)
  moreover have res: "pool_resources ?s ns = pool_resources s ns" by (simp add: pool_resources_def)
  ultimately have holds: "pool_holds ?s (pool_resources s ns)" unfolding pool_holds_def by metis
  have lg: "log_ok ?s" using log log_ok_cong [of ?s s] by simp
  have rel: "pool_released ?s = pool_released s" by (simp add: pool_released_def)
  have "close_resources s = pool_ForEach release_and_detach ?s"
    using run by (simp add: close_resources_def pool_Close_def)
  with pool_reg.each_finish [OF holds lg] rel show ?thesis by simp
qed

lemma step_running: "pool_step e s = Some t \<Longrightarrow> pl_running t = pl_running s"
  by (cases e) (auto simp: NewResource_def Let_def ec_Guard_def pool_Insert_def setPool_def
      pool_goroutine_def frame_simps resource_Cancel_def resource_Release_def
      split: option.splits if_splits)

lemma pool_reached_running: "pool_reached es k s \<Longrightarrow> pl_running s"
  unfolding pool_reached_def
  by (rule run_events_inv [where I = pl_running])
     (auto simp: step_running, simp add: NewResourcePool_def)

definition pooled :: "pool \<Rightarrow> bool" where
  "pooled s \<longleftrightarrow> (\<forall>r. rs_node (pl_res s r) \<noteq> None \<longrightarrow> rs_pool (pl_res s r))"

lemma pooled_remove: "pooled s \<Longrightarrow> pooled (pool_Remove (Some n) s)"
  by (simp add: pooled_def remove_res)

lemma pool_step_pooled [inv_intros]: "pooled s \<Longrightarrow> pool_step e s = Some t \<Longrightarrow> pooled t"
proof (cases e)
  case (CancelRes r)
  assume "pooled s" "pool_step e s = Some t"
  with CancelRes cancel_cases [of r s] show ?thesis
    by (auto intro: pooled_remove split: if_splits)
qed (auto simp: pooled_def NewResource_def Let_def ec_Guard_def pool_Insert_def setPool_def
      pool_goroutine_def frame_simps resource_Release_def split: option.splits if_splits)

lemma pool_reached_pooled: "pool_reached es k s \<Longrightarrow> pooled s"
  unfolding pool_reached_def
  by (rule run_events_inv [where I = pooled])
     (auto intro: pool_step_pooled, simp add: pooled_def NewResourcePool_def resource0_def)

text \<open>In a reachable pool, cancelling a held resource removes its own node.\<close>

lemma cancel_held:
  assumes "pool_reached es k s" and "pool_rep s ns" and "n \<in> set ns"
  shows "resource_Cancel (nd_resource (pl_nodes s n)) s = pool_Remove (Some n) s"
proof -
  from assms(2,3) have "rs_node (pl_res s (nd_resource (pl_nodes s n))) = Some n"
    by (simp add: pool_rep_def attached_def)
  with pool_reached_pooled [OF assms(1)] show ?thesis
    by (simp add: resource_Cancel_def pooled_def)
qed

text \<open>Only guarding and linking happened: the list and the cache together are in creation order.\<close>

definition only_guards :: "pool_event list \<Rightarrow> bool" where
  "only_guards es \<longleftrightarrow> list_all (\<lambda>e. case e of CancelRes _ \<Rightarrow> False | ReleaseRes _ \<Rightarrow> False | _ \<Rightarrow> True) es"

definition in_creation_order :: "pool \<Rightarrow> bool" where
  "in_creation_order s \<longleftrightarrow>
     (\<exists>ns. pool_rep s ns \<and> pool_resources s ns @ ch_buf (pl_cache s) = [0..<pl_rfresh s])"

lemma creation_order_step:
  assumes "in_creation_order s" and "refs_ok s" and "only_guards [e]" and "pool_step e s = Some t"
  shows "in_creation_order t"
proof -
  from assms(1) obtain ns where ns: "pool_rep s ns"
    and ord: "pool_resources s ns @ ch_buf (pl_cache s) = [0..<pl_rfresh s]"
    unfolding in_creation_order_def by blast
  show ?thesis
  proof (cases e)
    case (GuardNew name after)
    note f = guard_fields [OF assms(4) [unfolded GuardNew]]
    have "attached t n = attached s n" for n
      by (rule attached_cong) (simp_all add: f refs_fresh_None [OF assms(2)])
    with ns have "pool_rep t ns" by (simp add: pool_rep_def f)
    moreover have "pool_resources t ns @ ch_buf (pl_cache t) = [0..<pl_rfresh t]"
      using ord by (simp add: pool_resources_def f flip: append_assoc)
    ultimately show ?thesis unfolding in_creation_order_def by blast
  next
    case Goroutine
    with assms(4) have "pool_goroutine s = Some t" by simp
    then obtain r vs where vs: "ch_buf (pl_cache s) = r # vs"
      and t: "t = link_resource r (s\<lparr>pl_cache := (pl_cache s)\<lparr>ch_buf := vs\<rparr>\<rparr>)"
      by (rule goroutine_fields)
    let ?s = "s\<lparr>pl_cache := (pl_cache s)\<lparr>ch_buf := vs\<rparr>\<rparr>"
    have rep: "pool_rep ?s ns" using ns by (simp add: pool_rep_def attached_def)
    have res: "pool_resources ?s ns = pool_resources s ns" by (simp add: pool_resources_def)
    have "distinct (pool_resources s ns @ r # vs)" using ord vs distinct_upt by metis
    then have r: "r \<notin> set (pool_resources ?s ns)" by (simp add: res)
    have "pool_rep t (ns @ [pl_fresh s])"
      using link_rep(1) [OF rep r] by (simp add: t)
    moreover have "pool_resources t (ns @ [pl_fresh s]) @ ch_buf (pl_cache t) = [0..<pl_rfresh t]"
      using link_rep(2) [OF rep r] ord vs by (simp add: t res frame_simps)
    ultimately show ?thesis unfolding in_creation_order_def by blast
  qed (use assms(3) in \<open>simp_all add: only_guards_def\<close>)
qed

lemma creation_order_run:
  "in_creation_order s \<Longrightarrow> pool_inv s \<Longrightarrow> only_guards es \<Longrightarrow>
     run_events pool_step es s = Some t \<Longrightarrow> in_creation_order t"
proof (induction es arbitrary: s)
  case Nil
  then show ?case by simp
next
  case (Cons e es)
  then obtain u where u: "pool_step e s = Some u" "run_events pool_step es u = Some t"
    by (auto split: option.splits)
  from Cons.prems have o: "only_guards [e]" "only_guards es" by (simp_all add: only_guards_def)
  from creation_order_step [OF Cons.prems(1) _ o(1) u(1)] Cons.prems(2)
  have "in_creation_order u" by (simp add: pool_inv_def)
  with Cons.IH pool_step_inv [OF Cons.prems(2) u(1)] o u show ?case by blast
qed

lemma close_reached:
  "pool_reached es k s \<Longrightarrow> pool_rep s ns \<Longrightarrow>
     \<exists>t. close_resources s = Some t \<and>
       pool_released t = pool_released s @
         filter (\<lambda>r. r \<notin> set (pool_released s)) (pool_resources s ns)"
  by (rule close_holds [OF pool_reached_inv pool_reached_log pool_reached_running])

subsection \<open>Properties\<close>

text \<open>A run used by the witnesses: three resources guarded and linked.\<close>

definition three_guarded :: "pool_event list" where
  "three_guarded = [GuardNew ''a'' False, GuardNew ''b'' False, GuardNew ''c'' False,
     Goroutine, Goroutine, Goroutine]"

definition two_guarded_one_pending :: "pool_event list" where
  "two_guarded_one_pending = [GuardNew ''a'' False, GuardNew ''b'' True,
     Goroutine, Goroutine, GuardNew ''c'' False]"

lemmas pool_eval = pool_reached_def NewResource_def Let_def ec_Guard_def pool_Insert_def
  setPool_def pool_goroutine_def chan_put_def chan_send_def chan_get_def chan_recv_def
  NewResourcePool_def make_chan_def link_resource_def setNode_def set_prev_def set_next_def

lemma three_guarded_reached: "\<exists>s. pool_reached three_guarded 64 s"
  by (simp add: pool_eval three_guarded_def)

lemma two_guarded_reached:
  "\<exists>s. pool_reached two_guarded_one_pending 64 s \<and> ch_buf (pl_cache s) = [2] \<and> pool_released s = []"
  by (simp add: pool_eval two_guarded_one_pending_def pool_released_def)

lemma creation_order_New: "in_creation_order (NewResourcePool k)"
proof -
  have "pool_resources (NewResourcePool k) [] @ ch_buf (pl_cache (NewResourcePool k)) =
      [0..<pl_rfresh (NewResourcePool k)]"
    by (simp add: pool_resources_def NewResourcePool_def)
  with pool_rep_New show ?thesis unfolding in_creation_order_def by blast
qed

lemma reached_creation_order:
  "pool_reached es k s \<Longrightarrow> only_guards es \<Longrightarrow> in_creation_order s"
  unfolding pool_reached_def
  by (rule creation_order_run [OF creation_order_New pool_inv_New])

lemma three_guarded_list:
  "\<exists>s ns. pool_reached three_guarded 64 s \<and> pool_rep s ns \<and> pool_resources s ns = [0, 1, 2] \<and>
     pool_released s = []"
proof -
  obtain s where s: "pool_reached three_guarded 64 s" "ch_buf (pl_cache s) = []"
    "pl_rfresh s = 3" "pl_log s = []"
    by (simp add: pool_eval three_guarded_def)
  have "in_creation_order s"
    by (rule reached_creation_order [OF s(1)]) (simp add: only_guards_def three_guarded_def)
  then obtain ns where "pool_rep s ns" "pool_resources s ns = [0..<3]"
    using s by (auto simp: in_creation_order_def)
  moreover have "[0..<3] = [0, 1, 2::nat]" by (simp add: upt_rec)
  moreover have "pool_released s = []" using s by (simp add: pool_released_def)
  ultimately show ?thesis using s(1) by metis
qed

text \<open>
  from every reachable pool, whatever guards, insertions, cancellations and releases came
  before, \<open>ForEach\<close> terminates and visits a duplicate-free list of resources, front to back.
\<close>

theorem ForEach_total:
  assumes "pool_reached es k s"
  shows "\<exists>ns. pool_rep s ns \<and> distinct (pool_resources s ns) \<and>
     (\<forall>iter. keeps_nodes iter \<longrightarrow>
        pool_ForEach iter s = Some (fold iter (pool_resources s ns) s))"
proof -
  obtain ns where ns: "pool_rep s ns" using pool_inv_rep [OF pool_reached_inv [OF assms]] by blast
  then show ?thesis using pool_resources_distinct [OF ns] ForEach_rep [OF ns] by blast
qed

theorem ForEach_total_witness:
  "\<exists>s t. pool_reached three_guarded 64 s \<and> pool_ForEach release_and_detach s = Some t"
  using three_guarded_reached ForEach_total detach_quiet by meson

text \<open>
  C22: as long as nothing is cancelled, the list holds the guarded resources in the order they were
  created, followed by those still waiting in the cache.
\<close>

theorem guard_order:
  assumes "pool_reached es k s" and "only_guards es"
  shows "\<exists>ns. pool_rep s ns \<and> pool_resources s ns @ ch_buf (pl_cache s) = [0..<pl_rfresh s]"
  using reached_creation_order [OF assms] by (simp add: in_creation_order_def)

theorem guard_order_witness:
  "\<exists>s ns. pool_reached two_guarded_one_pending 64 s \<and>
     pool_resources s ns @ ch_buf (pl_cache s) = [0..<pl_rfresh s]"
proof -
  obtain s where s: "pool_reached two_guarded_one_pending 64 s"
    using two_guarded_reached by blast
  have "only_guards two_guarded_one_pending"
    by (simp add: only_guards_def two_guarded_one_pending_def)
  from guard_order [OF s this] s show ?thesis by blast
qed

text \<open>
  C3: closing a reachable pool releases exactly the listed resources that were not released
  before, each once and in list order, and terminates.
\<close>

theorem close_releases_list:
  assumes "pool_reached es k s" and "pool_rep s ns"
  shows "\<exists>t. close_resources s = Some t \<and>
     pool_released t = pool_released s @
       filter (\<lambda>r. r \<notin> set (pool_released s)) (pool_resources s ns)"
  by (rule close_reached [OF assms])

theorem close_releases_list_witness:
  "\<exists>s t. pool_reached three_guarded 64 s \<and> close_resources s = Some t \<and>
     pool_released t = [0, 1, 2]"
proof -
  obtain s ns where s: "pool_reached three_guarded 64 s" "pool_rep s ns"
    "pool_resources s ns = [0, 1, 2]" "pool_released s = []"
    using three_guarded_list by blast
  from close_releases_list [OF s(1,2)] s show ?thesis by auto
qed

text \<open>
  C37: over any run, the release callback of a resource runs at most once, and its after-release
  callback at most once and only if the release callback ran.
\<close>

theorem release_at_most_once:
  assumes "pool_reached es k s"
  shows "count_list (pl_log s) (ReleaseRun r) \<le> 1 \<and>
     count_list (pl_log s) (AfterRun r) \<le> count_list (pl_log s) (ReleaseRun r)"
proof -
  from pool_reached_log [OF assms]
  have "count_list (pl_log s) (ReleaseRun r) = (if rs_released (pl_res s r) then 1 else 0)"
    and "count_list (pl_log s) (AfterRun r) \<le> 1"
    and "\<not> rs_released (pl_res s r) \<longrightarrow> count_list (pl_log s) (AfterRun r) = 0"
    unfolding log_ok_def by blast+
  then show ?thesis by auto
qed

theorem release_at_most_once_witness:
  "\<exists>s. pool_reached [GuardNew ''f'' True, ReleaseRes 0, ReleaseRes 0] 1 s \<and>
     pl_log s = [ReleaseRun 0, AfterRun 0] \<and> count_list (pl_log s) (ReleaseRun 0) \<le> 1"
proof -
  obtain s where s: "pool_reached [GuardNew ''f'' True, ReleaseRes 0, ReleaseRes 0] 1 s"
    "pl_log s = [ReleaseRun 0, AfterRun 0]"
    by (simp add: pool_eval resource_Release_def)
  with release_at_most_once [OF s(1), of 0] show ?thesis by blast
qed

text \<open>
  C34: cancelling a held resource that is not the most recently linked one removes exactly that
  resource, keeps the order of the others, and closing afterwards releases the others only.
\<close>

theorem cancel_inner:
  assumes reached: "pool_reached es k s" and rep: "pool_rep s (xs @ n # ys)" and ys: "ys \<noteq> []"
    and r: "r = nd_resource (pl_nodes s n)" and fresh: "pool_released s = []"
  shows "\<exists>t. pool_rep (resource_Cancel r s) (xs @ ys) \<and>
     close_resources (resource_Cancel r s) = Some t \<and>
     pool_released t = pool_resources s xs @ pool_resources s ys \<and> r \<notin> set (pool_released t)"
proof -
  from rep have C: "resource_Cancel r s = pool_Remove (Some n) s"
    unfolding r by (intro cancel_held [OF reached]) auto
  note R = remove_inner_rep [OF rep ys, folded C]
  have "n < pl_fresh s" using rep by (simp add: pool_rep_def attached_def)
  have "rs_node (pl_res s r) = Some n" using rep r by (simp add: pool_rep_def attached_def)
  then have "r < pl_rfresh s"
    using pool_reached_inv [OF reached] unfolding pool_inv_def refs_ok_def by blast
  then have "pool_reached (es @ [CancelRes r]) k (resource_Cancel r s)"
    using reached by (simp add: pool_reached_def run_events_append)
  from close_reached [OF this R(1)] R(2) fresh
  obtain t where t: "close_resources (resource_Cancel r s) = Some t"
    "pool_released t = pool_resources s xs @ pool_resources s ys"
    by (auto simp: pool_released_def frame_simps)
  moreover have "r \<notin> set (pool_resources s xs @ pool_resources s ys)"
    using pool_resources_distinct [OF rep] r by (simp add: pool_resources_def)
  ultimately show ?thesis using R(1) by auto
qed

theorem cancel_inner_witness:
  "\<exists>s t. pool_reached three_guarded 64 s \<and> close_resources (resource_Cancel 1 s) = Some t \<and>
     pool_released t = [0, 2]"
proof -
  obtain s ns where s: "pool_reached three_guarded 64 s" "pool_rep s ns"
    "pool_resources s ns = [0, 1, 2]" "pool_released s = []"
    using three_guarded_list by blast
  then obtain a b c where ns: "ns = [a, b, c]"
    by (auto simp: pool_resources_def map_eq_Cons_conv)
  with s(2,3) have "pool_rep s ([a] @ b # [c])" "1 = nd_resource (pl_nodes s b)"
    "pool_resources s [a] @ pool_resources s [c] = [0, 2]"
    by (simp_all add: pool_resources_def)
  from cancel_inner [OF s(1) this(1) _ this(2) s(4)] this(3) s(1) show ?thesis by auto
qed

text \<open>
  cancelling the most recently linked resource empties the pool: \<open>Remove\<close> sets the tail to
  nil instead of to its predecessor, so every other resource of the list becomes unreachable and
  closing releases none of them.
\<close>

theorem cancel_tail_forgets_all:
  assumes reached: "pool_reached es k s" and rep: "pool_rep s ns" and "ns \<noteq> []"
  shows "\<exists>t. close_resources (resource_Cancel (last (pool_resources s ns)) s) = Some t \<and>
     pool_released t = pool_released s"
proof -
  let ?n = "last ns" and ?r = "last (pool_resources s ns)"
  have r: "?r = nd_resource (pl_nodes s ?n)" using \<open>ns \<noteq> []\<close> by (simp add: pool_resources_def last_map)
  have C: "resource_Cancel ?r s = pool_Remove (Some ?n) s"
    unfolding r using assms by (intro cancel_held) auto
  have "pool_rep s (butlast ns @ [?n])" using rep \<open>ns \<noteq> []\<close> by simp
  from remove_tail_rep [OF this] have R: "pool_rep (resource_Cancel ?r s) []" by (simp add: C)
  have "rs_node (pl_res s ?r) = Some ?n"
    using rep \<open>ns \<noteq> []\<close> unfolding r by (simp add: pool_rep_def attached_def)
  then have "?r < pl_rfresh s"
    using pool_reached_inv [OF reached] unfolding pool_inv_def refs_ok_def by blast
  then have "pool_reached (es @ [CancelRes ?r]) k (resource_Cancel ?r s)"
    using reached by (simp add: pool_reached_def run_events_append)
  from close_reached [OF this R] show ?thesis
    by (auto simp: pool_resources_def pool_released_def frame_simps)
qed

theorem cancel_tail_forgets_all_witness:
  "\<exists>s ns t. pool_reached three_guarded 64 s \<and> pool_rep s ns \<and> pool_resources s ns = [0, 1, 2] \<and>
     close_resources (resource_Cancel 2 s) = Some t \<and> pool_released t = []"
proof -
  obtain s ns where s: "pool_reached three_guarded 64 s" "pool_rep s ns"
    "pool_resources s ns = [0, 1, 2]" "pool_released s = []"
    using three_guarded_list by blast
  then have "ns \<noteq> []" by (auto simp: pool_resources_def)
  from cancel_tail_forgets_all [OF s(1,2) this] s show ?thesis by auto
qed

lemma fold_detach_cache: "pl_cache (fold release_and_detach rs s) = pl_cache s"
  by (induction rs arbitrary: s)
     (simp_all add: release_and_detach_def setNode_def setPool_def resource_Release_def)

lemma fold_detach_running: "pl_running (fold release_and_detach rs s) = pl_running s"
  by (induction rs arbitrary: s)
     (simp_all add: release_and_detach_def setNode_def setPool_def resource_Release_def)

text \<open>
  a resource that was guarded but not yet linked when the pool closes is dropped: closing does
  not release it, and the stopped goroutine never links it afterwards.
\<close>

theorem close_drops_pending:
  assumes reached: "pool_reached es k s" and r: "r \<in> set (ch_buf (pl_cache s))"
    and nrel: "r \<notin> set (pool_released s)"
  shows "\<exists>t. close_resources s = Some t \<and> r \<in> set (ch_buf (pl_cache t)) \<and>
     r \<notin> set (pool_released t) \<and> pool_goroutine t = None"
proof -
  obtain ns where ns: "pool_rep s ns" using pool_inv_rep [OF pool_reached_inv [OF reached]] by blast
  from r have "rs_node (pl_res s r) = None"
    using pool_reached_inv [OF reached] by (simp add: pool_inv_def refs_ok_def)
  with ns have "r \<notin> set (pool_resources s ns)"
    by (auto simp: pool_rep_def pool_resources_def attached_def)
  with close_reached [OF reached ns] nrel
  obtain t where t: "close_resources s = Some t" "r \<notin> set (pool_released t)" by auto
  have rep: "pool_rep (s\<lparr>pl_running := False\<rparr>) ns"
    using ns by (simp add: pool_rep_def attached_def)
  from t(1) have "t = fold release_and_detach
      (pool_resources (s\<lparr>pl_running := False\<rparr>) ns) (s\<lparr>pl_running := False\<rparr>)"
    using ForEach_rep [OF rep detach_quiet] pool_reached_running [OF reached]
    by (simp add: close_resources_def pool_Close_def)
  then have "pl_cache t = pl_cache s" "\<not> pl_running t"
    by (simp_all add: fold_detach_cache fold_detach_running)
  with t r show ?thesis by (simp add: pool_goroutine_def)
qed

theorem close_drops_pending_witness:
  "\<exists>s t. pool_reached two_guarded_one_pending 64 s \<and> close_resources s = Some t \<and>
     2 \<notin> set (pool_released t) \<and> pool_goroutine t = None"
proof -
  obtain s where s: "pool_reached two_guarded_one_pending 64 s" "ch_buf (pl_cache s) = [2]"
    "pool_released s = []"
    using two_guarded_reached by blast
  from close_drops_pending [OF s(1), of 2] s show ?thesis by auto
qed

end
