(* ===== verification/Rpc_Types.thy ===== *)
theory Rpc_Types
  imports Prelude
begin

text \<open>
  The data the RPC path carries (\<open>pkg/server/rpc_reply.go\<close>, \<open>pkg/core/rpc/rpc.go\<close>) and the
  parts of Go's \<open>time\<close> it uses.  Byte slices are strings of bytes.  An instant is a number of
  nanoseconds; \<open>None\<close> is the zero \<open>time.Time\<close>.  A duration is a signed 64-bit count of
  nanoseconds, so its arithmetic wraps.
\<close>

type_synonym bytes = string
type_synonym instant = int
type_synonym duration = int

definition wrap64 :: "int \<Rightarrow> int" where
  "wrap64 i = (i + 2 ^ 63) mod 2 ^ 64 - 2 ^ 63"

lemma wrap64_id: "- (2 ^ 63) \<le> i \<Longrightarrow> i < 2 ^ 63 \<Longrightarrow> wrap64 i = i"
  by (simp add: wrap64_def)

lemma wrap64_range: "- (2 ^ 63) \<le> wrap64 i \<and> wrap64 i < 2 ^ 63"
  by (simp add: wrap64_def)

text \<open>Go's integer division truncates towards zero.\<close>

definition go_div :: "int \<Rightarrow> int \<Rightarrow> int" where
  "go_div a b = sgn a * sgn b * (\<bar>a\<bar> div \<bar>b\<bar>)"

definition millisecond :: duration where
  "millisecond = 1000000"

definition duration_of_ms :: "int \<Rightarrow> duration" where
  "duration_of_ms ms = wrap64 (millisecond * ms)"

definition Milliseconds :: "duration \<Rightarrow> int" where
  "Milliseconds d = go_div d millisecond"

record rpc_request =
  rq_id :: string
  rq_name :: string
  rq_body :: bytes
  rq_timestamp :: instant
  rq_timeout :: duration
  rq_node :: string
  rq_loopback :: bool

record rpc_response =
  rsp_id :: string
  rsp_result :: bytes
  rsp_timestamp :: instant
  rsp_node :: string
  rsp_error :: bool

record core_request =
  cr_id :: string
  cr_node :: string
  cr_loopback :: bool
  cr_name :: string
  cr_body :: bytes
  cr_expires :: "instant option"

text \<open>A core response carries a body or an error message.\<close>

record core_response =
  cp_body :: bytes
  cp_error :: "string option"

end
