(* ===== verification/Reply_Box.thy ===== *)
theory Reply_Box
  imports Go_Chan Rpc_Types
begin

text \<open>
  \<open>pkg/server/replybox.go\<close>: where callers wait for the responses of their RPCs.  One goroutine
  serves three request channels in an order of its own choosing; \<open>Watch\<close> looks the map up
  directly.  Channels of responses live in a store; an address below \<open>rb_fresh\<close> is allocated.

  The clients' side is explicit: \<open>rb_pending\<close> are the calls of \<open>Watch\<close> that missed in the map
  and have not yet sent their request, \<open>rb_handed\<close> the channels \<open>Watch\<close> has returned, and
  \<open>rb_got\<close> what was received from them, \<open>None\<close> for the nil of a closed channel.
  \<open>rb_blocked\<close> is the goroutine stopped in \<open>watch.ch <- res\<close>.  \<open>Reset\<close> closes the channels under
  the lock and replaces the map after it has released the lock, so it is two steps;
  \<open>rb_resetting\<close> holds between them.  \<open>rb_panic\<close> is a send on a closed channel or a second
  close, which ends the process.
\<close>

type_synonym chref = nat

record reply_watch =
  rw_id :: string
  rw_ch :: chref

record reply_box =
  rb_delete :: "string chan"
  rb_insert :: "rpc_response chan"
  rb_watch :: "reply_watch chan"
  rb_replies :: "string \<rightharpoonup> reply_watch"
  rb_chans :: "chref \<Rightarrow> rpc_response chan"
  rb_fresh :: chref
  rb_blocked :: "(chref \<times> rpc_response) option"
  rb_pending :: "reply_watch list"
  rb_handed :: "reply_watch list"
  rb_got :: "(chref \<times> rpc_response option) list"
  rb_resetting :: bool
  rb_panic :: bool

definition newReplyBox :: reply_box where
  "newReplyBox =
     \<lparr>rb_delete = make_chan 64, rb_insert = make_chan 64, rb_watch = make_chan 64,
      rb_replies = Map.empty, rb_chans = (\<lambda>_. make_chan 1), rb_fresh = 0, rb_blocked = None,
      rb_pending = [], rb_handed = [], rb_got = [], rb_resetting = False, rb_panic = False\<rparr>"

subsection \<open>The goroutine's cases\<close>

definition loop_delete :: "reply_box \<Rightarrow> reply_box option" where
  "loop_delete b =
     (if rb_blocked b \<noteq> None then None
      else case chan_get (rb_delete b) of
             None \<Rightarrow> None
           | Some (i, c) \<Rightarrow> Some (b\<lparr>rb_delete := c, rb_replies := (rb_replies b)(i := None)\<rparr>))"

definition handle_insert :: "rpc_response \<Rightarrow> reply_box \<Rightarrow> reply_box" where
  "handle_insert res b =
     (case rb_replies b (rsp_id res) of
        None \<Rightarrow>
          (let ch = rb_fresh b in
           b\<lparr>rb_fresh := Suc ch,
             rb_replies := (rb_replies b)(rsp_id res \<mapsto> \<lparr>rw_id = rsp_id res, rw_ch = ch\<rparr>),
             rb_chans := (rb_chans b)(ch := (make_chan 1)\<lparr>ch_buf := [res]\<rparr>)\<rparr>)
      | Some w \<Rightarrow>
          (let b1 = b\<lparr>rb_replies := (rb_replies b)(rsp_id res := None)\<rparr> in
           case chan_send res (rb_chans b1 (rw_ch w)) of
             Sent c \<Rightarrow> b1\<lparr>rb_chans := (rb_chans b1)(rw_ch w := c)\<rparr>
           | SendBlocks \<Rightarrow> b1\<lparr>rb_blocked := Some (rw_ch w, res)\<rparr>
           | SendPanics \<Rightarrow> b1\<lparr>rb_panic := True\<rparr>))"

definition loop_insert :: "reply_box \<Rightarrow> reply_box option" where
  "loop_insert b =
     (if rb_blocked b \<noteq> None then None
      else case chan_get (rb_insert b) of
             None \<Rightarrow> None
           | Some (res, c) \<Rightarrow> Some (handle_insert res (b\<lparr>rb_insert := c\<rparr>)))"

definition loop_watch :: "reply_box \<Rightarrow> reply_box option" where
  "loop_watch b =
     (if rb_blocked b \<noteq> None then None
      else case chan_get (rb_watch b) of
             None \<Rightarrow> None
           | Some (w, c) \<Rightarrow> Some (b\<lparr>rb_watch := c, rb_replies := (rb_replies b)(rw_id w \<mapsto> w)\<rparr>))"

text \<open>A blocked send completes once its channel has room.\<close>

definition loop_unblock :: "reply_box \<Rightarrow> reply_box option" where
  "loop_unblock b =
     (case rb_blocked b of
        None \<Rightarrow> None
      | Some (ch, res) \<Rightarrow>
          (case chan_send res (rb_chans b ch) of
             SendBlocks \<Rightarrow> None
           | SendPanics \<Rightarrow> Some (b\<lparr>rb_blocked := None, rb_panic := True\<rparr>)
           | Sent c \<Rightarrow> Some (b\<lparr>rb_blocked := None, rb_chans := (rb_chans b)(ch := c)\<rparr>)))"

subsection \<open>The clients' operations\<close>

definition Watch_lookup :: "string \<Rightarrow> reply_box \<Rightarrow> chref \<times> reply_box" where
  "Watch_lookup i b =
     (case rb_replies b i of
        Some w \<Rightarrow> (rw_ch w, b\<lparr>rb_handed := rb_handed b @ [\<lparr>rw_id = i, rw_ch = rw_ch w\<rparr>]\<rparr>)
      | None \<Rightarrow>
          (let ch = rb_fresh b; w = \<lparr>rw_id = i, rw_ch = ch\<rparr> in
           (ch, b\<lparr>rb_fresh := Suc ch, rb_chans := (rb_chans b)(ch := make_chan 1),
                  rb_pending := rb_pending b @ [w], rb_handed := rb_handed b @ [w]\<rparr>)))"

definition Watch_send :: "reply_watch \<Rightarrow> reply_box \<Rightarrow> reply_box option" where
  "Watch_send w b =
     (if w \<in> set (rb_pending b) then
        (case chan_put w (rb_watch b) of
           None \<Rightarrow> None
         | Some c \<Rightarrow> Some (b\<lparr>rb_watch := c, rb_pending := remove1 w (rb_pending b)\<rparr>))
      else None)"

definition Insert :: "rpc_response \<Rightarrow> reply_box \<Rightarrow> reply_box option" where
  "Insert res b =
     (case chan_put res (rb_insert b) of None \<Rightarrow> None | Some c \<Rightarrow> Some (b\<lparr>rb_insert := c\<rparr>))"

definition Delete :: "string \<Rightarrow> reply_box \<Rightarrow> reply_box option" where
  "Delete i b =
     (case chan_put i (rb_delete b) of None \<Rightarrow> None | Some c \<Rightarrow> Some (b\<lparr>rb_delete := c\<rparr>))"

text \<open>A waiter takes a response from a channel that \<open>Watch\<close> returned.\<close>

definition receive_reply :: "chref \<Rightarrow> reply_box \<Rightarrow> reply_box option" where
  "receive_reply ch b =
     (if ch \<in> rw_ch ` set (rb_handed b) then
        (case chan_recv (rb_chans b ch) of
           RecvBlocks \<Rightarrow> None
         | RecvZero \<Rightarrow> Some (b\<lparr>rb_got := rb_got b @ [(ch, None)]\<rparr>)
         | Received res c \<Rightarrow>
             Some (b\<lparr>rb_chans := (rb_chans b)(ch := c), rb_got := rb_got b @ [(ch, Some res)]\<rparr>))
      else None)"

text \<open>The two steps of \<open>Reset\<close>; closing a channel a second time panics.\<close>

definition registered :: "reply_box \<Rightarrow> chref set" where
  "registered b = rw_ch ` ran (rb_replies b)"

definition Reset_close :: "reply_box \<Rightarrow> reply_box option" where
  "Reset_close b =
     (if rb_resetting b then None
      else if \<exists>ch \<in> registered b. ch_closed (rb_chans b ch) then Some (b\<lparr>rb_panic := True\<rparr>)
      else Some (b\<lparr>rb_chans := (\<lambda>ch. if ch \<in> registered b then (rb_chans b ch)\<lparr>ch_closed := True\<rparr>
                                       else rb_chans b ch),
                   rb_resetting := True\<rparr>))"

definition Reset_clear :: "reply_box \<Rightarrow> reply_box option" where
  "Reset_clear b =
     (if rb_resetting b then Some (b\<lparr>rb_replies := Map.empty, rb_resetting := False\<rparr>) else None)"

datatype rb_event =
    EvLookup string | EvSend reply_watch | EvInsert rpc_response | EvDelete string
  | EvReceive chref | EvLoopDelete | EvLoopInsert | EvLoopWatch | EvUnblock | EvResetClose | EvResetClear

text \<open>A single action, and the actions of a process that has not panicked.\<close>

fun rb_action :: "rb_event \<Rightarrow> reply_box \<Rightarrow> reply_box option" where
  "rb_action (EvLookup i) b = Some (snd (Watch_lookup i b))"
| "rb_action (EvSend w) b = Watch_send w b"
| "rb_action (EvInsert res) b = Insert res b"
| "rb_action (EvDelete i) b = Delete i b"
| "rb_action (EvReceive ch) b = receive_reply ch b"
| "rb_action EvLoopDelete b = loop_delete b"
| "rb_action EvLoopInsert b = loop_insert b"
| "rb_action EvLoopWatch b = loop_watch b"
| "rb_action EvUnblock b = loop_unblock b"
| "rb_action EvResetClose b = Reset_close b"
| "rb_action EvResetClear b = Reset_clear b"

definition rb_step :: "rb_event \<Rightarrow> reply_box \<Rightarrow> reply_box option" where
  "rb_step e b = (if rb_panic b then None else rb_action e b)"

definition rb_reached :: "rb_event list \<Rightarrow> reply_box \<Rightarrow> bool" where
  "rb_reached es b \<longleftrightarrow> run_events rb_step es newReplyBox = Some b"

subsection \<open>The outcomes of an action\<close>

definition rb_fresh_entry :: "rpc_response \<Rightarrow> reply_box \<Rightarrow> reply_box" where
  "rb_fresh_entry r b =
     b\<lparr>rb_fresh := Suc (rb_fresh b),
       rb_replies := (rb_replies b)(rsp_id r \<mapsto> \<lparr>rw_id = rsp_id r, rw_ch = rb_fresh b\<rparr>),
       rb_chans := (rb_chans b)(rb_fresh b := (make_chan 1)\<lparr>ch_buf := [r]\<rparr>)\<rparr>"

definition rb_deposit :: "chref \<Rightarrow> rpc_response \<Rightarrow> reply_box \<Rightarrow> reply_box" where
  "rb_deposit ch r b =
     b\<lparr>rb_chans := (rb_chans b)(ch := (rb_chans b ch)\<lparr>ch_buf := ch_buf (rb_chans b ch) @ [r]\<rparr>)\<rparr>"

inductive rb_outcome :: "rb_event \<Rightarrow> reply_box \<Rightarrow> reply_box \<Rightarrow> bool" where
  Hit: "rb_replies b i = Some w \<Longrightarrow>
    rb_outcome (EvLookup i) b (b\<lparr>rb_handed := rb_handed b @ [\<lparr>rw_id = i, rw_ch = rw_ch w\<rparr>]\<rparr>)"
| Miss: "rb_replies b i = None \<Longrightarrow> w = \<lparr>rw_id = i, rw_ch = rb_fresh b\<rparr> \<Longrightarrow>
    rb_outcome (EvLookup i) b
      (b\<lparr>rb_fresh := Suc (rb_fresh b), rb_chans := (rb_chans b)(rb_fresh b := make_chan 1),
         rb_pending := rb_pending b @ [w], rb_handed := rb_handed b @ [w]\<rparr>)"
| Send: "w \<in> set (rb_pending b) \<Longrightarrow> chan_put w (rb_watch b) = Some c \<Longrightarrow>
    rb_outcome (EvSend w) b (b\<lparr>rb_watch := c, rb_pending := remove1 w (rb_pending b)\<rparr>)"
| Insert: "chan_put r (rb_insert b) = Some c \<Longrightarrow> rb_outcome (EvInsert r) b (b\<lparr>rb_insert := c\<rparr>)"
| Delete: "chan_put i (rb_delete b) = Some c \<Longrightarrow> rb_outcome (EvDelete i) b (b\<lparr>rb_delete := c\<rparr>)"
| Receive: "ch \<in> rw_ch ` set (rb_handed b) \<Longrightarrow> ch_buf (rb_chans b ch) = r # rs \<Longrightarrow>
    rb_outcome (EvReceive ch) b
      (b\<lparr>rb_chans := (rb_chans b)(ch := (rb_chans b ch)\<lparr>ch_buf := rs\<rparr>),
         rb_got := rb_got b @ [(ch, Some r)]\<rparr>)"
| Nil: "ch \<in> rw_ch ` set (rb_handed b) \<Longrightarrow> ch_buf (rb_chans b ch) = [] \<Longrightarrow>
    ch_closed (rb_chans b ch) \<Longrightarrow>
    rb_outcome (EvReceive ch) b (b\<lparr>rb_got := rb_got b @ [(ch, None)]\<rparr>)"
| Take_delete: "rb_blocked b = None \<Longrightarrow> chan_get (rb_delete b) = Some (i, c) \<Longrightarrow>
    rb_outcome EvLoopDelete b (b\<lparr>rb_delete := c, rb_replies := (rb_replies b)(i := None)\<rparr>)"
| Store: "rb_blocked b = None \<Longrightarrow> chan_get (rb_insert b) = Some (r, c) \<Longrightarrow>
    rb_replies b (rsp_id r) = None \<Longrightarrow>
    rb_outcome EvLoopInsert b (rb_fresh_entry r (b\<lparr>rb_insert := c\<rparr>))"
| Deliver: "rb_blocked b = None \<Longrightarrow> chan_get (rb_insert b) = Some (r, c) \<Longrightarrow>
    rb_replies b (rsp_id r) = Some w \<Longrightarrow> \<not> ch_closed (rb_chans b (rw_ch w)) \<Longrightarrow>
    length (ch_buf (rb_chans b (rw_ch w))) < ch_cap (rb_chans b (rw_ch w)) \<Longrightarrow>
    rb_outcome EvLoopInsert b
      (rb_deposit (rw_ch w) r
         (b\<lparr>rb_insert := c, rb_replies := (rb_replies b)(rsp_id r := None)\<rparr>))"
| Block: "rb_blocked b = None \<Longrightarrow> chan_get (rb_insert b) = Some (r, c) \<Longrightarrow>
    rb_replies b (rsp_id r) = Some w \<Longrightarrow> \<not> ch_closed (rb_chans b (rw_ch w)) \<Longrightarrow>
    ch_cap (rb_chans b (rw_ch w)) \<le> length (ch_buf (rb_chans b (rw_ch w))) \<Longrightarrow>
    rb_outcome EvLoopInsert b
      (b\<lparr>rb_insert := c, rb_replies := (rb_replies b)(rsp_id r := None),
         rb_blocked := Some (rw_ch w, r)\<rparr>)"
| Insert_panic: "rb_blocked b = None \<Longrightarrow> chan_get (rb_insert b) = Some (r, c) \<Longrightarrow>
    rb_replies b (rsp_id r) = Some w \<Longrightarrow> ch_closed (rb_chans b (rw_ch w)) \<Longrightarrow>
    rb_outcome EvLoopInsert b
      (b\<lparr>rb_insert := c, rb_replies := (rb_replies b)(rsp_id r := None), rb_panic := True\<rparr>)"
| Take_watch: "rb_blocked b = None \<Longrightarrow> chan_get (rb_watch b) = Some (w, c) \<Longrightarrow>
    rb_outcome EvLoopWatch b (b\<lparr>rb_watch := c, rb_replies := (rb_replies b)(rw_id w \<mapsto> w)\<rparr>)"
| Unblock: "rb_blocked b = Some (ch, r) \<Longrightarrow> \<not> ch_closed (rb_chans b ch) \<Longrightarrow>
    length (ch_buf (rb_chans b ch)) < ch_cap (rb_chans b ch) \<Longrightarrow>
    rb_outcome EvUnblock b (rb_deposit ch r (b\<lparr>rb_blocked := None\<rparr>))"
| Unblock_panic: "rb_blocked b = Some (ch, r) \<Longrightarrow> ch_closed (rb_chans b ch) \<Longrightarrow>
    rb_outcome EvUnblock b (b\<lparr>rb_blocked := None, rb_panic := True\<rparr>)"
| Close_panic: "ch \<in> registered b \<Longrightarrow> ch_closed (rb_chans b ch) \<Longrightarrow>
    rb_outcome EvResetClose b (b\<lparr>rb_panic := True\<rparr>)"
| Close: "\<not> rb_resetting b \<Longrightarrow>
    rb_outcome EvResetClose b
      (b\<lparr>rb_chans := (\<lambda>ch. if ch \<in> registered b then (rb_chans b ch)\<lparr>ch_closed := True\<rparr>
                          else rb_chans b ch),
         rb_resetting := True\<rparr>)"
| Clear: "rb_resetting b \<Longrightarrow> rb_outcome EvResetClear b (b\<lparr>rb_replies := Map.empty, rb_resetting := False\<rparr>)"

lemma handle_insert_outcome:
  assumes "rb_blocked b = None" and "chan_get (rb_insert b) = Some (r, c)"
  shows "rb_outcome EvLoopInsert b (handle_insert r (b\<lparr>rb_insert := c\<rparr>))"
proof (cases "rb_replies b (rsp_id r)")
  case None
  with Store [OF assms None] show ?thesis
    by (simp add: handle_insert_def rb_fresh_entry_def Let_def)
next
  case (Some w)
  with Deliver [OF assms Some] Block [OF assms Some] Insert_panic [OF assms Some] show ?thesis
    by (simp add: handle_insert_def rb_deposit_def chan_send_def Let_def)
qed

lemma loop_insert_outcome: "loop_insert b = Some t \<Longrightarrow> rb_outcome EvLoopInsert b t"
  using handle_insert_outcome [of b]
  by (cases "rb_blocked b") (auto simp: loop_insert_def split: option.splits)

lemma loop_delete_outcome: "loop_delete b = Some t \<Longrightarrow> rb_outcome EvLoopDelete b t"
  using Take_delete [of b]
  by (cases "rb_blocked b") (auto simp: loop_delete_def split: option.splits)

lemma loop_watch_outcome: "loop_watch b = Some t \<Longrightarrow> rb_outcome EvLoopWatch b t"
  using Take_watch [of b]
  by (cases "rb_blocked b") (auto simp: loop_watch_def split: option.splits)

lemma lookup_outcome: "rb_outcome (EvLookup i) b (snd (Watch_lookup i b))"
  using Hit [of b i] Miss [of b i] by (cases "rb_replies b i") (simp_all add: Watch_lookup_def Let_def)

lemma receive_outcome: "receive_reply ch b = Some t \<Longrightarrow> rb_outcome (EvReceive ch) b t"
  by (auto simp: receive_reply_def chan_recv_def intro: Receive Nil
        split: if_splits recv_result.splits list.splits)

lemma unblock_outcome: "loop_unblock b = Some t \<Longrightarrow> rb_outcome EvUnblock b t"
  using Unblock [of b] Unblock_panic [of b]
  by (auto simp: loop_unblock_def chan_send_def rb_deposit_def split: if_splits option.splits)

lemma reset_outcome: "Reset_close b = Some t \<Longrightarrow> rb_outcome EvResetClose b t"
  using Close [of b] Close_panic [of _ b] by (auto simp: Reset_close_def split: if_splits)

lemma rb_step_outcome:
  assumes "rb_step e b = Some t"
  shows "\<not> rb_panic b \<and> rb_outcome e b t"
proof (cases "rb_panic b")
  case True
  with assms show ?thesis by (simp add: rb_step_def)
next
  case False
  with assms have "rb_action e b = Some t" by (simp add: rb_step_def)
  then have "rb_outcome e b t"
    by (cases e)
       (auto simp: loop_insert_outcome receive_outcome unblock_outcome reset_outcome
          loop_delete_outcome loop_watch_outcome
          Watch_send_def Insert_def Delete_def Reset_clear_def
          intro: rb_outcome.intros lookup_outcome split: if_splits option.splits)
  with False show ?thesis by simp
qed

subsection \<open>Channels belong to one id\<close>

definition watches :: "reply_box \<Rightarrow> reply_watch set" where
  "watches b = set (rb_handed b) \<union> set (rb_pending b) \<union> set (ch_buf (rb_watch b)) \<union> ran (rb_replies b)"

definition holdings :: "reply_box \<Rightarrow> (chref \<times> rpc_response) set" where
  "holdings b =
     {(ch, r). r \<in> set (ch_buf (rb_chans b ch))} \<union> set_option (rb_blocked b)
     \<union> {(ch, r). (ch, Some r) \<in> set (rb_got b)}"

definition owned :: "(chref \<Rightarrow> string) \<Rightarrow> reply_box \<Rightarrow> bool" where
  "owned own b \<longleftrightarrow>
     (\<forall>w \<in> watches b. rw_ch w < rb_fresh b \<and> own (rw_ch w) = rw_id w)
     \<and> (\<forall>(ch, r) \<in> holdings b. ch < rb_fresh b \<and> own ch = rsp_id r)
     \<and> (\<forall>i w. rb_replies b i = Some w \<longrightarrow> rw_id w = i)"

lemma owned_watch: "owned own b \<Longrightarrow> w \<in> watches b \<Longrightarrow> rw_ch w < rb_fresh b \<and> own (rw_ch w) = rw_id w"
  by (simp add: owned_def)

lemma owned_holding: "owned own b \<Longrightarrow> (ch, r) \<in> holdings b \<Longrightarrow> ch < rb_fresh b \<and> own ch = rsp_id r"
  by (auto simp: owned_def)

lemma owned_key: "owned own b \<Longrightarrow> rb_replies b i = Some w \<Longrightarrow> rw_id w = i"
  by (simp add: owned_def)

text \<open>An action that allocates nothing keeps the owners.\<close>

lemma owned_weaken:
  assumes b: "owned own b" and fresh: "rb_fresh t = rb_fresh b"
    and w: "\<And>w. w \<in> watches t \<Longrightarrow> \<exists>v \<in> watches b. rw_ch w = rw_ch v \<and> rw_id w = rw_id v"
    and h: "\<And>ch r. (ch, r) \<in> holdings t \<Longrightarrow>
              (ch, r) \<in> holdings b \<or> (\<exists>v \<in> watches b. rw_ch v = ch \<and> rw_id v = rsp_id r)"
    and k: "\<And>i w. rb_replies t i = Some w \<Longrightarrow> rw_id w = i"
  shows "owned own t"
  unfolding owned_def
proof (intro conjI ballI allI impI)
  fix w assume "w \<in> watches t"
  with w obtain v where "v \<in> watches b" "rw_ch w = rw_ch v" "rw_id w = rw_id v" by blast
  with owned_watch [OF b] fresh show "rw_ch w < rb_fresh t" "own (rw_ch w) = rw_id w" by auto
next
  fix x assume x: "x \<in> holdings t"
  obtain ch r where [simp]: "x = (ch, r)" by (cases x)
  from h x consider "(ch, r) \<in> holdings b" | v where "v \<in> watches b" "rw_ch v = ch" "rw_id v = rsp_id r"
    by auto
  then show "case x of (ch, r) \<Rightarrow> ch < rb_fresh t \<and> own ch = rsp_id r"
    by cases (use owned_holding [OF b] owned_watch [OF b] fresh in auto)
qed (rule k)

text \<open>An action that allocates a channel for \<open>i\<close> gives the new channel to \<open>i\<close>.\<close>

lemma owned_extend:
  assumes b: "owned own b" and fresh: "rb_fresh t = Suc (rb_fresh b)"
    and w: "\<And>w. w \<in> watches t \<Longrightarrow> w \<in> watches b \<or> rw_ch w = rb_fresh b \<and> rw_id w = i"
    and h: "\<And>ch r. (ch, r) \<in> holdings t \<Longrightarrow>
              (ch, r) \<in> holdings b \<or> ch = rb_fresh b \<and> rsp_id r = i"
    and k: "\<And>j w. rb_replies t j = Some w \<Longrightarrow> rw_id w = j"
  shows "owned (own(rb_fresh b := i)) t"
  unfolding owned_def
proof (intro conjI ballI allI impI)
  fix w assume "w \<in> watches t"
  with w consider "w \<in> watches b" | "rw_ch w = rb_fresh b" "rw_id w = i" by blast
  then show "rw_ch w < rb_fresh t" "(own(rb_fresh b := i)) (rw_ch w) = rw_id w"
    by (cases; use owned_watch [OF b, of w] fresh in auto)+
next
  fix x assume x: "x \<in> holdings t"
  obtain ch r where [simp]: "x = (ch, r)" by (cases x)
  from h x consider "(ch, r) \<in> holdings b" | "ch = rb_fresh b" "rsp_id r = i" by auto
  then show "case x of (ch, r) \<Rightarrow> ch < rb_fresh t \<and> (own(rb_fresh b := i)) ch = rsp_id r"
    by cases (use owned_holding [OF b, of ch r] fresh in auto)
qed (rule k)

lemma ran_updD: "w \<in> ran (m(i := v)) \<Longrightarrow> w \<in> ran m \<or> v = Some w"
  by (auto simp: ran_def split: if_splits)

lemma registered_watches: "rb_replies b i = Some w \<Longrightarrow> w \<in> watches b"
  by (auto simp: watches_def ran_def)

lemma watch_queue_watches: "chan_get (rb_watch b) = Some (w, c) \<Longrightarrow> w \<in> watches b"
  by (auto simp: watches_def chan_simps)

lemma owned_outcome:
  assumes b: "owned own b" and o: "rb_outcome e b t"
  shows "\<exists>own'. owned own' t \<and> (\<forall>ch < rb_fresh b. own' ch = own ch)"
  using o
proof (cases rule: rb_outcome.cases)
  case (Hit i w)
  then have w: "w \<in> watches b" "rw_id w = i" using registered_watches owned_key [OF b] by blast+
  have "owned own t"
    by (rule owned_weaken [OF b]) (use Hit w owned_key [OF b] in \<open>auto simp: watches_def holdings_def\<close>)
  then show ?thesis by blast
next
  case (Miss i w)
  have "owned (own(rb_fresh b := i)) t"
    by (rule owned_extend [OF b])
       (use Miss owned_key [OF b] in \<open>auto simp: watches_def holdings_def split: if_splits\<close>)
  then show ?thesis by (intro exI [of _ "own(rb_fresh b := i)"]) simp
next
  case (Send w c)
  have "owned own t"
    by (rule owned_weaken [OF b])
       (use Send owned_key [OF b] in
          \<open>auto simp: watches_def holdings_def chan_simps dest: notin_set_remove1\<close>)
  then show ?thesis by blast
next
  case (Insert r c)
  have "owned own t"
    by (rule owned_weaken [OF b]) (use Insert owned_key [OF b] in \<open>auto simp: watches_def holdings_def\<close>)
  then show ?thesis by blast
next
  case (Delete i c)
  have "owned own t"
    by (rule owned_weaken [OF b]) (use Delete owned_key [OF b] in \<open>auto simp: watches_def holdings_def\<close>)
  then show ?thesis by blast
next
  case (Receive ch r rs)
  have "owned own t"
    by (rule owned_weaken [OF b])
       (use Receive owned_key [OF b] in \<open>auto simp: watches_def holdings_def split: if_splits\<close>)
  then show ?thesis by blast
next
  case (Nil ch)
  have "owned own t"
    by (rule owned_weaken [OF b]) (use Nil owned_key [OF b] in \<open>auto simp: watches_def holdings_def\<close>)
  then show ?thesis by blast
next
  case (Take_delete i c)
  have "owned own t"
    by (rule owned_weaken [OF b])
       (use Take_delete owned_key [OF b] in
          \<open>auto simp: watches_def holdings_def dest!: ran_updD split: if_splits\<close>)
  then show ?thesis by blast
next
  case (Store r c)
  have "owned (own(rb_fresh b := rsp_id r)) t"
    by (rule owned_extend [OF b])
       (use Store owned_key [OF b] in
          \<open>auto simp: watches_def holdings_def rb_fresh_entry_def split: if_splits dest!: ran_updD\<close>)
  then show ?thesis by (intro exI [of _ "own(rb_fresh b := rsp_id r)"]) simp
next
  case (Deliver r c w)
  then have w: "w \<in> watches b" "rw_id w = rsp_id r" using registered_watches owned_key [OF b] by blast+
  have "owned own t"
    by (rule owned_weaken [OF b])
       (use Deliver w owned_key [OF b] in
          \<open>auto simp: watches_def holdings_def rb_deposit_def split: if_splits dest!: ran_updD\<close>)
  then show ?thesis by blast
next
  case (Block r c w)
  then have w: "w \<in> watches b" "rw_id w = rsp_id r" using registered_watches owned_key [OF b] by blast+
  have "owned own t"
    by (rule owned_weaken [OF b])
       (use Block w owned_key [OF b] in
          \<open>auto simp: watches_def holdings_def split: if_splits dest!: ran_updD\<close>)
  then show ?thesis by blast
next
  case (Insert_panic r c w)
  have "owned own t"
    by (rule owned_weaken [OF b])
       (use Insert_panic owned_key [OF b] in
          \<open>auto simp: watches_def holdings_def split: if_splits dest!: ran_updD\<close>)
  then show ?thesis by blast
next
  case (Take_watch w c)
  then have w: "w \<in> watches b" using watch_queue_watches by blast
  have "owned own t"
    by (rule owned_weaken [OF b])
       (use Take_watch w owned_key [OF b] in
          \<open>auto simp: watches_def holdings_def chan_simps split: if_splits dest!: ran_updD\<close>)
  then show ?thesis by blast
next
  case (Unblock ch r)
  have "owned own t"
    by (rule owned_weaken [OF b])
       (use Unblock owned_key [OF b] in
          \<open>auto simp: watches_def holdings_def rb_deposit_def split: if_splits\<close>)
  then show ?thesis by blast
next
  case (Unblock_panic ch r)
  have "owned own t"
    by (rule owned_weaken [OF b]) (use Unblock_panic owned_key [OF b] in \<open>auto simp: watches_def holdings_def\<close>)
  then show ?thesis by blast
next
  case (Close_panic ch)
  have "owned own t"
    by (rule owned_weaken [OF b]) (use Close_panic owned_key [OF b] in \<open>auto simp: watches_def holdings_def\<close>)
  then show ?thesis by blast
next
  case Close
  have "owned own t"
    by (rule owned_weaken [OF b])
       (use Close owned_key [OF b] in \<open>auto simp: watches_def holdings_def split: if_splits\<close>)
  then show ?thesis by blast
next
  case Clear
  have "owned own t"
    by (rule owned_weaken [OF b]) (use Clear in \<open>auto simp: watches_def holdings_def\<close>)
  then show ?thesis by blast
qed

lemma reached_owned:
  assumes "rb_reached es b"
  shows "\<exists>own. owned own b"
proof (rule run_events_inv [where step = rb_step and I = "\<lambda>b. \<exists>own. owned own b"])
  show "\<exists>own. owned own newReplyBox"
    by (auto simp: owned_def watches_def holdings_def newReplyBox_def)
  show "run_events rb_step es newReplyBox = Some b" using assms by (simp add: rb_reached_def)
qed (use rb_step_outcome owned_outcome in blast)

subsection \<open>Every accepted response is in exactly one place\<close>

definition stored :: "rpc_response \<Rightarrow> reply_box \<Rightarrow> nat" where
  "stored r b = (\<Sum>ch<rb_fresh b. count_list (ch_buf (rb_chans b ch)) r)"

definition held :: "rpc_response \<Rightarrow> reply_box \<Rightarrow> nat" where
  "held r b =
     count_list (ch_buf (rb_insert b)) r + stored r b
     + (case rb_blocked b of Some (ch, q) \<Rightarrow> if q = r then 1 else 0 | None \<Rightarrow> 0)
     + count_list (map snd (rb_got b)) (Some r)"

lemma sum_upd:
  fixes f :: "'b \<Rightarrow> nat" and k n :: nat
  assumes "k < n"
  shows "(\<Sum>i<n. f ((g(k := x)) i)) + f (g k) = (\<Sum>i<n. f (g i)) + f x"
proof -
  have "(\<Sum>i \<in> {..<n} - {k}. f ((g(k := x)) i)) = (\<Sum>i \<in> {..<n} - {k}. f (g i))"
    by (rule sum.cong) auto
  moreover have "k \<in> {..<n}" using assms by simp
  note sum.remove [OF finite_lessThan this, of "\<lambda>i. f ((g(k := x)) i)"]
    sum.remove [OF finite_lessThan this, of "\<lambda>i. f (g i)"]
  ultimately show ?thesis by simp
qed

lemma stored_cong:
  "rb_fresh t = rb_fresh b \<Longrightarrow> (\<And>ch. ch_buf (rb_chans t ch) = ch_buf (rb_chans b ch)) \<Longrightarrow>
     stored r t = stored r b"
  by (simp add: stored_def)

lemma stored_upd:
  assumes "ch < rb_fresh b" and "rb_fresh t = rb_fresh b" and "rb_chans t = (rb_chans b)(ch := c)"
  shows "stored r t + count_list (ch_buf (rb_chans b ch)) r = stored r b + count_list (ch_buf c) r"
  using sum_upd [OF assms(1), of "\<lambda>c. count_list (ch_buf c) r" "rb_chans b" c] assms(2,3)
  by (simp add: stored_def)

lemma stored_new:
  assumes "rb_fresh t = Suc (rb_fresh b)" and "rb_chans t = (rb_chans b)(rb_fresh b := c)"
  shows "stored r t = stored r b + count_list (ch_buf c) r"
  using assms by (simp add: stored_def)

lemma rb_deposit_simps [simp]:
  "rb_insert (rb_deposit ch r b) = rb_insert b" "rb_blocked (rb_deposit ch r b) = rb_blocked b"
  "rb_got (rb_deposit ch r b) = rb_got b" "rb_replies (rb_deposit ch r b) = rb_replies b"
  "rb_panic (rb_deposit ch r b) = rb_panic b" "rb_fresh (rb_deposit ch r b) = rb_fresh b"
  "rb_watch (rb_deposit ch r b) = rb_watch b" "rb_delete (rb_deposit ch r b) = rb_delete b"
  "rb_pending (rb_deposit ch r b) = rb_pending b" "rb_handed (rb_deposit ch r b) = rb_handed b"
  by (simp_all add: rb_deposit_def)

lemma rb_fresh_entry_simps [simp]:
  "rb_insert (rb_fresh_entry r b) = rb_insert b" "rb_blocked (rb_fresh_entry r b) = rb_blocked b"
  "rb_got (rb_fresh_entry r b) = rb_got b" "rb_panic (rb_fresh_entry r b) = rb_panic b"
  "rb_fresh (rb_fresh_entry r b) = Suc (rb_fresh b)"
  "rb_watch (rb_fresh_entry r b) = rb_watch b" "rb_delete (rb_fresh_entry r b) = rb_delete b"
  "rb_pending (rb_fresh_entry r b) = rb_pending b" "rb_handed (rb_fresh_entry r b) = rb_handed b"
  by (simp_all add: rb_fresh_entry_def)

lemma stored_deposit:
  assumes "ch < rb_fresh b"
  shows "stored q (rb_deposit ch r b) = stored q b + (if q = r then 1 else 0)"
  using stored_upd [OF assms, of "rb_deposit ch r b"
    "(rb_chans b ch)\<lparr>ch_buf := ch_buf (rb_chans b ch) @ [r]\<rparr>" q]
  by (simp add: rb_deposit_def split: if_splits)

lemma stored_fresh_entry: "stored q (rb_fresh_entry r b) = stored q b + (if q = r then 1 else 0)"
  using stored_new [of "rb_fresh_entry r b" b _ q] by (simp add: rb_fresh_entry_def)

lemma held_cong:
  "rb_insert t = rb_insert b \<Longrightarrow> rb_fresh t = rb_fresh b \<Longrightarrow> rb_blocked t = rb_blocked b \<Longrightarrow>
   map snd (rb_got t) = map snd (rb_got b) \<Longrightarrow>
   (\<And>ch. ch_buf (rb_chans t ch) = ch_buf (rb_chans b ch)) \<Longrightarrow> held r t = held r b"
  by (simp add: held_def stored_def)

lemma stored_irrelevant [simp]:
  "stored q (b\<lparr>rb_insert := c\<rparr>) = stored q b"
  "stored q (b\<lparr>rb_insert := c, rb_replies := m\<rparr>) = stored q b"
  "stored q (b\<lparr>rb_insert := c, rb_replies := m, rb_blocked := x\<rparr>) = stored q b"
  "stored q (b\<lparr>rb_blocked := x\<rparr>) = stored q b"
  by (simp_all add: stored_def)

lemma held_outcome:
  assumes b: "owned own b" and o: "rb_outcome e b t" and "\<not> rb_panic t"
  shows "held r t = held r b + (if e = EvInsert r then 1 else 0)"
  using o
proof (cases rule: rb_outcome.cases)
  case (Hit i w)
  then show ?thesis by (auto intro: held_cong)
next
  case (Miss i w)
  then show ?thesis using stored_new [of t b "make_chan 1" r] by (simp add: held_def)
next
  case (Send w c)
  then show ?thesis by (auto intro: held_cong)
next
  case (Insert q c)
  then show ?thesis by (auto simp: held_def chan_simps)
next
  case (Delete i c)
  then show ?thesis by (auto intro: held_cong)
next
  case (Receive ch q rs)
  then have "(ch, q) \<in> holdings b" by (simp add: holdings_def)
  with owned_holding [OF b] have "ch < rb_fresh b" by blast
  with Receive show ?thesis
    using stored_upd [of ch b t "(rb_chans b ch)\<lparr>ch_buf := rs\<rparr>" r] by (auto simp: held_def split: if_splits)
next
  case (Nil ch)
  then show ?thesis by (simp add: held_def stored_def)
next
  case (Take_delete i c)
  then show ?thesis by (auto intro: held_cong)
next
  case (Store q c)
  then show ?thesis by (auto simp: held_def stored_fresh_entry chan_simps)
next
  case (Deliver q c w)
  then have "rw_ch w < rb_fresh b" using registered_watches owned_watch [OF b] by blast
  with Deliver show ?thesis by (auto simp: held_def stored_deposit chan_simps)
next
  case (Block q c w)
  then show ?thesis by (auto simp: held_def chan_simps)
next
  case (Take_watch w c)
  then show ?thesis by (auto intro: held_cong)
next
  case (Unblock ch q)
  then have "(ch, q) \<in> holdings b" by (simp add: holdings_def)
  with owned_holding [OF b] have "ch < rb_fresh b" by blast
  with Unblock show ?thesis by (auto simp: held_def stored_deposit)
next
  case Close
  then show ?thesis by (auto intro: held_cong)
next
  case Clear
  then show ?thesis by (auto intro: held_cong)
qed (use assms(3) in auto)

lemma held_run:
  "owned own b \<Longrightarrow> run_events rb_step es b = Some t \<Longrightarrow> \<not> rb_panic t \<Longrightarrow>
     held r t = held r b + count_list es (EvInsert r)"
proof (induction es arbitrary: b own)
  case Nil
  then show ?case by simp
next
  case (Cons e es)
  then obtain u where u: "rb_step e b = Some u" and run: "run_events rb_step es u = Some t"
    by (auto split: option.splits)
  have "\<not> rb_panic u" using run Cons.prems(3) by (cases es) (auto simp: rb_step_def)
  with u Cons.prems have "held r u = held r b + (if e = EvInsert r then 1 else 0)"
    using rb_step_outcome held_outcome by blast
  moreover obtain own' where "owned own' u" using rb_step_outcome owned_outcome u Cons.prems(1) by blast
  then have "held r t = held r u + count_list es (EvInsert r)" using Cons.IH run Cons.prems(3) by blast
  ultimately show ?case by simp
qed

subsection \<open>Delivery\<close>

text \<open>\<open>awaiting i ch b\<close>: \<open>ch\<close> is registered for \<open>i\<close>, nothing about \<open>i\<close> is on its way, and no reset
  is under way.  \<open>queued\<close> is the same with one response \<open>r\<close> for \<open>i\<close> in the insert queue.\<close>

definition registered_for :: "string \<Rightarrow> chref \<Rightarrow> reply_box \<Rightarrow> bool" where
  "registered_for i ch b \<longleftrightarrow>
     rb_replies b i = Some \<lparr>rw_id = i, rw_ch = ch\<rparr> \<and> rb_chans b ch = make_chan 1
     \<and> i \<notin> set (ch_buf (rb_delete b))
     \<and> (\<forall>w \<in> set (rb_pending b) \<union> set (ch_buf (rb_watch b)). rw_id w \<noteq> i)
     \<and> (\<forall>r. rb_blocked b \<noteq> Some (ch, r)) \<and> \<not> rb_resetting b"

definition awaiting :: "string \<Rightarrow> chref \<Rightarrow> reply_box \<Rightarrow> bool" where
  "awaiting i ch b \<longleftrightarrow>
     registered_for i ch b \<and> filter (\<lambda>r. rsp_id r = i) (ch_buf (rb_insert b)) = []"

definition queued :: "chref \<Rightarrow> rpc_response \<Rightarrow> reply_box \<Rightarrow> bool" where
  "queued ch r b \<longleftrightarrow>
     registered_for (rsp_id r) ch b
     \<and> filter (\<lambda>q. rsp_id q = rsp_id r) (ch_buf (rb_insert b)) = [r]"

definition arrived :: "chref \<Rightarrow> rpc_response \<Rightarrow> reply_box \<Rightarrow> bool" where
  "arrived ch r b \<longleftrightarrow> r \<in> set (ch_buf (rb_chans b ch)) \<or> (ch, Some r) \<in> set (rb_got b)"

fun quiet :: "string \<Rightarrow> rb_event \<Rightarrow> bool" where
  "quiet i (EvSend w) = (rw_id w \<noteq> i)"
| "quiet i (EvInsert r) = (rsp_id r \<noteq> i)"
| "quiet i (EvDelete j) = (j \<noteq> i)"
| "quiet i EvResetClose = False"
| "quiet i _ = True"

text \<open>A response that has arrived stays with its waiter, whatever happens.\<close>

lemma arrived_outcome:
  assumes b: "owned own b" and o: "rb_outcome e b t" and a: "arrived ch r b"
  shows "arrived ch r t"
proof -
  have "(ch, r) \<in> holdings b" using a by (auto simp: arrived_def holdings_def)
  with owned_holding [OF b] have "ch < rb_fresh b" by blast
  with o a show ?thesis
    by (cases rule: rb_outcome.cases)
       (auto simp: arrived_def rb_deposit_def rb_fresh_entry_def split: if_splits)
qed

lemma arrived_run:
  "owned own b \<Longrightarrow> arrived ch r b \<Longrightarrow> run_events rb_step es b = Some t \<Longrightarrow> arrived ch r t"
proof (induction es arbitrary: b own)
  case Nil
  then show ?case by simp
next
  case (Cons e es)
  then obtain u where u: "rb_step e b = Some u" and run: "run_events rb_step es u = Some t"
    by (auto split: option.splits)
  then have o: "rb_outcome e b u" using rb_step_outcome by blast
  with Cons.prems obtain own' where "owned own' u" using owned_outcome by blast
  moreover from o Cons.prems have "arrived ch r u" using arrived_outcome by blast
  ultimately show ?case using Cons.IH run by blast
qed

text \<open>Without an event about \<open>i\<close> the registration of \<open>i\<close> stays, until its response is taken up.\<close>

lemma registered_for_outcome:
  assumes b: "owned own b" and o: "rb_outcome e b t" and r: "registered_for i ch b"
    and q: "quiet i e" and other: "\<And>r c. e = EvLoopInsert \<Longrightarrow> chan_get (rb_insert b) = Some (r, c) \<Longrightarrow> rsp_id r \<noteq> i"
  shows "registered_for i ch t"
proof -
  have "ch < rb_fresh b" "own ch = i"
    using r owned_watch [OF b] registered_watches [of b i] by (force simp: registered_for_def)+
  have ne: "rw_ch w \<noteq> ch" if "rb_replies b j = Some w" "j \<noteq> i" for w j
    using owned_watch [OF b registered_watches [OF that(1)]] owned_key [OF b that(1)] that(2) \<open>own ch = i\<close>
    by auto
  from o show ?thesis
  proof (cases rule: rb_outcome.cases)
    case (Miss j w)
    with r have "j \<noteq> i" by (auto simp: registered_for_def)
    with Miss r \<open>ch < rb_fresh b\<close> show ?thesis by (auto simp: registered_for_def)
  next
    case (Send w c)
    with r q show ?thesis by (auto simp: registered_for_def chan_simps dest!: subsetD [OF set_remove1_subset])
  next
    case (Receive c x rs)
    with r have "c \<noteq> ch" by (auto simp: registered_for_def)
    with Receive r show ?thesis by (auto simp: registered_for_def)
  next
    case (Take_delete j c)
    with r show ?thesis by (auto simp: registered_for_def chan_simps)
  next
    case (Store x c)
    with other have "rsp_id x \<noteq> i" by blast
    with Store r \<open>ch < rb_fresh b\<close> show ?thesis by (auto simp: registered_for_def rb_fresh_entry_def)
  next
    case (Deliver x c w)
    with other have "rsp_id x \<noteq> i" by blast
    moreover from this Deliver have "rw_ch w \<noteq> ch" using ne by blast
    ultimately show ?thesis using Deliver r by (auto simp: registered_for_def rb_deposit_def)
  next
    case (Block x c w)
    with other have "rsp_id x \<noteq> i" by blast
    moreover from this Block have "rw_ch w \<noteq> ch" using ne by blast
    ultimately show ?thesis using Block r by (auto simp: registered_for_def)
  next
    case (Insert_panic x c w)
    with other have "rsp_id x \<noteq> i" by blast
    with Insert_panic r show ?thesis by (auto simp: registered_for_def)
  next
    case (Take_watch w c)
    with r show ?thesis by (auto simp: registered_for_def chan_simps)
  next
    case (Unblock c x)
    with r have "c \<noteq> ch" by (auto simp: registered_for_def)
    with Unblock r show ?thesis by (auto simp: registered_for_def rb_deposit_def)
  qed (use r q in \<open>auto simp: registered_for_def chan_simps\<close>)
qed

lemma awaiting_outcome:
  assumes "owned own b" and "rb_outcome e b t" and "awaiting i ch b" and "quiet i e"
  shows "awaiting i ch t"
proof -
  have "registered_for i ch t"
    by (rule registered_for_outcome [OF assms(1,2) _ assms(4)])
       (use assms(3) in \<open>auto simp: awaiting_def filter_empty_conv chan_simps\<close>)
  moreover have "filter (\<lambda>r. rsp_id r = i) (ch_buf (rb_insert t)) = []"
    using assms(2-4)
    by (cases rule: rb_outcome.cases) (auto simp: awaiting_def filter_empty_conv chan_simps)
  ultimately show ?thesis by (simp add: awaiting_def)
qed

lemma queued_outcome:
  assumes b: "owned own b" and o: "rb_outcome e b t" and q: "queued ch r b" and e: "quiet (rsp_id r) e"
  shows "queued ch r t \<or> arrived ch r t"
proof (cases "\<exists>c. e = EvLoopInsert \<and> chan_get (rb_insert b) = Some (r, c)")
  case True
  then obtain c where c: "e = EvLoopInsert" "chan_get (rb_insert b) = Some (r, c)" by blast
  from q have "rb_replies b (rsp_id r) = Some \<lparr>rw_id = rsp_id r, rw_ch = ch\<rparr>" "rb_chans b ch = make_chan 1"
    by (auto simp: queued_def registered_for_def)
  with o c have "arrived ch r t"
    by (cases rule: rb_outcome.cases) (auto simp: arrived_def rb_deposit_def)
  then show ?thesis ..
next
  case False
  have head: "rsp_id x \<noteq> rsp_id r" if "e = EvLoopInsert" "chan_get (rb_insert b) = Some (x, c)" for x c
  proof
    assume "rsp_id x = rsp_id r"
    with that q have "x = r" by (auto simp: queued_def chan_simps)
    with False that show False by blast
  qed
  have "registered_for (rsp_id r) ch t"
    by (rule registered_for_outcome [OF b o _ e]) (use q head in \<open>auto simp: queued_def\<close>)
  moreover have "filter (\<lambda>q. rsp_id q = rsp_id r) (ch_buf (rb_insert t)) = [r]"
    using o q e head
    by (cases rule: rb_outcome.cases) (auto simp: queued_def chan_simps)
  ultimately show ?thesis by (simp add: queued_def)
qed

lemma awaiting_run:
  "owned own b \<Longrightarrow> awaiting i ch b \<Longrightarrow> list_all (quiet i) es \<Longrightarrow> run_events rb_step es b = Some t \<Longrightarrow>
     awaiting i ch t \<and> (\<exists>own'. owned own' t)"
proof (induction es arbitrary: b own)
  case Nil
  then show ?case by auto
next
  case (Cons e es)
  then obtain u where u: "rb_step e b = Some u" and run: "run_events rb_step es u = Some t"
    by (auto split: option.splits)
  then have o: "rb_outcome e b u" using rb_step_outcome by blast
  with Cons.prems obtain own' where "owned own' u" using owned_outcome by blast
  moreover from o Cons.prems have "awaiting i ch u" using awaiting_outcome by auto
  ultimately show ?case using Cons.IH Cons.prems(3) run by auto
qed

lemma queued_run:
  "owned own b \<Longrightarrow> queued ch r b \<Longrightarrow> list_all (quiet (rsp_id r)) es \<Longrightarrow>
     run_events rb_step es b = Some t \<Longrightarrow> queued ch r t \<or> arrived ch r t"
proof (induction es arbitrary: b own)
  case Nil
  then show ?case by auto
next
  case (Cons e es)
  then obtain u where u: "rb_step e b = Some u" and run: "run_events rb_step es u = Some t"
    by (auto split: option.splits)
  then have o: "rb_outcome e b u" using rb_step_outcome by blast
  with Cons.prems obtain own' where own': "owned own' u" using owned_outcome by blast
  from Cons.prems(3) consider "queued ch r u" | "arrived ch r u"
    using queued_outcome [OF Cons.prems(1) o Cons.prems(2)] by auto
  then show ?case
  proof cases
    case 1
    from Cons.prems(3) have "list_all (quiet (rsp_id r)) es" by simp
    from Cons.IH [OF own' 1 this run] show ?thesis .
  next
    case 2
    from arrived_run [OF own' 2 run] show ?thesis ..
  qed
qed

lemma awaiting_insert:
  assumes "awaiting (rsp_id r) ch b" and "rb_step (EvInsert r) b = Some t"
  shows "queued ch r t"
  using assms
  by (auto simp: rb_step_def Insert_def awaiting_def queued_def registered_for_def chan_simps
        split: option.splits if_splits)

text \<open>Draining the insert queue.\<close>

lemma queued_nonempty: "queued ch r b \<Longrightarrow> ch_buf (rb_insert b) \<noteq> []"
  by (auto simp: queued_def)

lemma loop_insert_enabled:
  assumes "rb_blocked b = None" and "\<not> rb_panic b" and "ch_buf (rb_insert b) \<noteq> []"
  obtains t where "rb_step EvLoopInsert b = Some t"
    and "length (ch_buf (rb_insert t)) < length (ch_buf (rb_insert b))"
proof -
  from assms(3) obtain q c where c: "chan_get (rb_insert b) = Some (q, c)"
    using fifo.get_nonempty by blast
  let ?t = "handle_insert q (b\<lparr>rb_insert := c\<rparr>)"
  have "rb_insert ?t = c"
    by (simp add: handle_insert_def Let_def split: option.splits send_result.splits)
  moreover have "rb_step EvLoopInsert b = Some ?t"
    using c assms by (simp add: rb_step_def loop_insert_def)
  ultimately show ?thesis using c by (intro that [of ?t]) (auto simp: chan_simps)
qed

lemma drain:
  "owned own b \<Longrightarrow> queued ch r b \<Longrightarrow>
     \<exists>n t. run_events rb_step (replicate n EvLoopInsert) b = Some t
       \<and> (arrived ch r t \<or> rb_blocked t \<noteq> None \<or> rb_panic t)"
proof (induction "length (ch_buf (rb_insert b))" arbitrary: b own rule: less_induct)
  case less
  show ?case
  proof (cases "rb_blocked b \<noteq> None \<or> rb_panic b")
    case True
    then show ?thesis by (intro exI [of _ 0] exI [of _ b]) simp
  next
    case False
    with queued_nonempty [OF less.prems(2)] obtain u
      where u: "rb_step EvLoopInsert b = Some u"
        and len: "length (ch_buf (rb_insert u)) < length (ch_buf (rb_insert b))"
      using loop_insert_enabled by blast
    then have o: "rb_outcome EvLoopInsert b u" using rb_step_outcome by blast
    with less.prems obtain own' where own': "owned own' u" using owned_outcome by blast
    from o less.prems consider "queued ch r u" | "arrived ch r u" using queued_outcome by fastforce
    then show ?thesis
    proof cases
      case 1
      from less.hyps [OF len own' 1] obtain n t
        where "run_events rb_step (replicate n EvLoopInsert) u = Some t"
          "arrived ch r t \<or> rb_blocked t \<noteq> None \<or> rb_panic t" by blast
      with u show ?thesis by (intro exI [of _ "Suc n"] exI [of _ t]) simp
    next
      case 2
      with u show ?thesis by (intro exI [of _ "Suc 0"] exI [of _ u]) simp
    qed
  qed
qed


subsection \<open>States the box does not leave\<close>




definition loop_events :: "rb_event set" where
  "loop_events = {EvLoopDelete, EvLoopInsert, EvLoopWatch, EvUnblock}"

text \<open>The goroutine is blocked on the full channel \<open>ch\<close>, which nobody can reach.\<close>

definition wedged :: "chref \<Rightarrow> rpc_response \<Rightarrow> reply_box \<Rightarrow> bool" where
  "wedged ch r b \<longleftrightarrow>
     rb_blocked b = Some (ch, r) \<and> \<not> ch_closed (rb_chans b ch)
     \<and> ch_cap (rb_chans b ch) \<le> length (ch_buf (rb_chans b ch))
     \<and> ch < rb_fresh b \<and> (\<forall>w \<in> watches b. rw_ch w \<noteq> ch)"

lemma wedged_outcome:
  assumes o: "rb_outcome e b t" and w: "wedged ch r b"
  shows "wedged ch r t \<and> e \<notin> loop_events"
  using o
proof (cases rule: rb_outcome.cases)
  case (Hit i v)
  then have "v \<in> watches b" using registered_watches by blast
  with Hit w show ?thesis by (auto simp: wedged_def watches_def loop_events_def)
next
  case (Send v c)
  then show ?thesis using w
    by (auto simp: wedged_def watches_def chan_simps loop_events_def dest!: subsetD [OF set_remove1_subset])
next
  case Clear
  then show ?thesis using w by (auto simp: wedged_def watches_def loop_events_def)
qed (use w in \<open>auto simp: wedged_def watches_def registered_def ran_def loop_events_def\<close>)

lemma wedged_run:
  "wedged ch r b \<Longrightarrow> run_events rb_step es b = Some t \<Longrightarrow> wedged ch r t \<and> set es \<inter> loop_events = {}"
proof (induction es arbitrary: b)
  case Nil
  then show ?case by simp
next
  case (Cons e es)
  then obtain u where "rb_step e b = Some u" and run: "run_events rb_step es u = Some t"
    by (auto split: option.splits)
  then have "rb_outcome e b u" using rb_step_outcome by blast
  from wedged_outcome [OF this Cons.prems(1)] Cons.IH [OF _ run] show ?case by auto
qed

lemmas rb_eval =
  rb_step_def Watch_lookup_def Watch_send_def Insert_def Delete_def receive_reply_def loop_delete_def
  loop_insert_def handle_insert_def loop_watch_def loop_unblock_def Reset_close_def Reset_clear_def
  Let_def registered_def newReplyBox_def make_chan_def chan_put_def chan_get_def chan_send_def chan_recv_def

subsection \<open>Properties\<close>

definition response :: "string \<Rightarrow> bytes \<Rightarrow> rpc_response" where
  "response i v = \<lparr>rsp_id = i, rsp_result = v, rsp_timestamp = 0, rsp_node = [], rsp_error = False\<rparr>"

lemma response_simps [simp]: "rsp_id (response i v) = i" "response i v = response j w \<longleftrightarrow> i = j \<and> v = w"
  by (simp_all add: response_def)

text \<open>
  C4: a waiter only receives responses of the id it watches: whatever the order in which calls of
  \<open>Watch\<close>, \<open>Insert\<close>, \<open>Delete\<close>, \<open>Reset\<close> and the goroutine's cases interleave, a response taken from
  a channel that \<open>Watch\<close> returned for \<open>i\<close> has the id \<open>i\<close>.
\<close>

theorem reply_routing:
  assumes "rb_reached es b" and "(ch, Some r) \<in> set (rb_got b)"
    and "w \<in> set (rb_handed b)" and "rw_ch w = ch"
  shows "rsp_id r = rw_id w"
proof -
  obtain own where own: "owned own b" using reached_owned [OF assms(1)] ..
  from assms(2) have "(ch, r) \<in> holdings b" by (simp add: holdings_def)
  moreover from assms(3) have "w \<in> watches b" by (simp add: watches_def)
  ultimately show ?thesis using owned_holding [OF own] owned_watch [OF own] assms(4) by metis
qed

lemma reply_routing_witness:
  "\<exists>b. rb_reached [EvLookup ''a'', EvSend \<lparr>rw_id = ''a'', rw_ch = 0\<rparr>, EvLoopWatch,
          EvInsert (response ''b'' ''1''), EvInsert (response ''a'' ''2''), EvLoopInsert, EvLoopInsert,
          EvReceive 0] b
     \<and> (0, Some (response ''a'' ''2'')) \<in> set (rb_got b)
     \<and> rsp_id (response ''a'' ''2'') = rw_id \<lparr>rw_id = ''a'', rw_ch = 0\<rparr>"
proof -
  obtain b where b: "rb_reached [EvLookup ''a'', EvSend \<lparr>rw_id = ''a'', rw_ch = 0\<rparr>, EvLoopWatch,
          EvInsert (response ''b'' ''1''), EvInsert (response ''a'' ''2''), EvLoopInsert, EvLoopInsert,
          EvReceive 0] b" "(0, Some (response ''a'' ''2'')) \<in> set (rb_got b)"
        "\<lparr>rw_id = ''a'', rw_ch = 0\<rparr> \<in> set (rb_handed b)"
    by (simp add: rb_reached_def rb_eval)
  with reply_routing [OF b] show ?thesis by auto
qed

text \<open>
  C20: no response is lost or duplicated inside the box: as long as the process has not panicked,
  a response is found in the insert queue, in the channels, in the goroutine's blocked send and
  among the received ones exactly as often as it was inserted.
\<close>

theorem reply_conservation:
  assumes "rb_reached es b" and "\<not> rb_panic b"
  shows "held r b = count_list es (EvInsert r)"
proof -
  have "owned own newReplyBox" for own
    by (auto simp: owned_def watches_def holdings_def newReplyBox_def)
  moreover have "held r newReplyBox = 0" by (simp add: held_def stored_def newReplyBox_def)
  ultimately show ?thesis using held_run assms unfolding rb_reached_def by fastforce
qed

lemma reply_conservation_witness:
  "\<exists>b. rb_reached [EvInsert (response ''a'' ''1''), EvInsert (response ''a'' ''1''), EvLoopInsert] b
     \<and> held (response ''a'' ''1'') b = 2"
proof -
  obtain b where "rb_reached [EvInsert (response ''a'' ''1''), EvInsert (response ''a'' ''1''),
      EvLoopInsert] b" "\<not> rb_panic b"
    by (simp add: rb_reached_def rb_eval)
  with reply_conservation [OF this, of "response ''a'' ''1''"] show ?thesis by auto
qed

text \<open>
  C35: a response reaches the waiter: when a channel is registered for the id and nothing else about
  the id is on its way, then after \<open>Insert\<close> and any further events that do not concern the id, the
  response is still queued or it is in the waiter's channel or received from it; and from there the
  goroutine, taking inserts, brings it to the waiter unless it gets blocked on another channel or
  panics.
\<close>

theorem reply_delivered:
  assumes "rb_reached es0 b" and "awaiting (rsp_id r) ch b"
    and "list_all (quiet (rsp_id r)) es1" and "list_all (quiet (rsp_id r)) es2"
    and "run_events rb_step (es1 @ EvInsert r # es2) b = Some t"
  shows "(queued ch r t \<or> arrived ch r t)
    \<and> (\<exists>n u. run_events rb_step (replicate n EvLoopInsert) t = Some u
         \<and> (arrived ch r u \<or> rb_blocked u \<noteq> None \<or> rb_panic u))"
proof -
  obtain own where own: "owned own b" using reached_owned [OF assms(1)] ..
  from assms(5) obtain u v where u: "run_events rb_step es1 b = Some u"
    and v: "rb_step (EvInsert r) u = Some v" and t: "run_events rb_step es2 v = Some t"
    by (auto simp: run_events_append split: option.splits)
  from awaiting_run [OF own assms(2,3) u] obtain own1
    where "awaiting (rsp_id r) ch u" and own1: "owned own1 u" by blast
  then have q: "queued ch r v" using awaiting_insert v by blast
  from v own1 obtain own2 where own2: "owned own2 v" using rb_step_outcome owned_outcome by blast
  from queued_run [OF own2 q assms(4) t] have qa: "queued ch r t \<or> arrived ch r t" .
  have "rb_reached (es0 @ es1 @ EvInsert r # es2) t"
    using assms(1,5) by (simp add: rb_reached_def run_events_append)
  then obtain own3 where own3: "owned own3 t" using reached_owned by blast
  have "\<exists>n u. run_events rb_step (replicate n EvLoopInsert) t = Some u
         \<and> (arrived ch r u \<or> rb_blocked u \<noteq> None \<or> rb_panic u)"
  proof (cases "arrived ch r t")
    case True
    then show ?thesis by (intro exI [of _ 0] exI [of _ t]) simp
  next
    case False
    with qa have "queued ch r t" by blast
    from drain [OF own3 this] show ?thesis .
  qed
  with qa show ?thesis by blast
qed

lemma reply_delivered_witness:
  "\<exists>b t. rb_reached [EvLookup ''a'', EvSend \<lparr>rw_id = ''a'', rw_ch = 0\<rparr>, EvLoopWatch] b
     \<and> run_events rb_step ([EvInsert (response ''b'' ''0'')] @
         EvInsert (response ''a'' ''1'') # [EvLoopInsert]) b = Some t
     \<and> (queued 0 (response ''a'' ''1'') t \<or> arrived 0 (response ''a'' ''1'') t)"
proof -
  obtain b t where b: "rb_reached [EvLookup ''a'', EvSend \<lparr>rw_id = ''a'', rw_ch = 0\<rparr>, EvLoopWatch] b"
    "awaiting (rsp_id (response ''a'' ''1'')) 0 b"
    and t: "run_events rb_step ([EvInsert (response ''b'' ''0'')] @
         EvInsert (response ''a'' ''1'') # [EvLoopInsert]) b = Some t"
    by (simp add: rb_reached_def rb_eval awaiting_def registered_for_def)
  with reply_delivered [OF b _ _ t] show ?thesis by auto
qed



text \<open>
  two responses for an id that nobody watches yet stop the reply box for good: the second finds
  the entry the first one left, removes it, and blocks on the full channel; from then on the
  goroutine never takes another case, and every later response stays in the insert queue.
\<close>

theorem duplicate_reply_wedges:
  assumes "rsp_id q = rsp_id r"
    and "run_events rb_step ([EvInsert r, EvInsert q, EvLoopInsert, EvLoopInsert] @ es) newReplyBox = Some t"
  shows "rb_blocked t = Some (0, q) \<and> set es \<inter> loop_events = {}"
proof -
  obtain b where b: "run_events rb_step [EvInsert r, EvInsert q, EvLoopInsert, EvLoopInsert] newReplyBox = Some b"
    and w: "wedged 0 q b"
    using assms(1) by (simp add: rb_eval wedged_def watches_def)
  from b assms(2) have "run_events rb_step es b = Some t" unfolding run_events_append by simp
  from wedged_run [OF w this] show ?thesis by (simp add: wedged_def)
qed

lemma duplicate_reply_wedges_witness:
  "\<exists>t. run_events rb_step
         ([EvInsert (response ''a'' ''1''), EvInsert (response ''a'' ''2''), EvLoopInsert, EvLoopInsert]
          @ [EvLookup ''a'', EvInsert (response ''b'' ''3'')]) newReplyBox = Some t
     \<and> rb_blocked t = Some (0, response ''a'' ''2'')"
proof -
  obtain t where "run_events rb_step
         ([EvInsert (response ''a'' ''1''), EvInsert (response ''a'' ''2''), EvLoopInsert, EvLoopInsert]
          @ [EvLookup ''a'', EvInsert (response ''b'' ''3'')]) newReplyBox = Some t"
    by (simp add: rb_eval)
  with duplicate_reply_wedges [OF _ this] show ?thesis by auto
qed

text \<open>
  \<open>Reset\<close> ends every wait.  After its two steps no id is registered, and a waiter whose channel
  was registered and empty receives nil.  Between the two steps the map still holds the closed
  channels, and a response that the goroutine takes there panics.
\<close>

theorem Reset_ends_waits:
  assumes "rb_replies b i = Some w" and "ch_buf (rb_chans b (rw_ch w)) = []"
    and "w \<in> set (rb_handed b)" and "rb_step EvResetClose b = Some t" and "\<not> rb_panic t"
  shows "(\<exists>u. run_events rb_step [EvResetClear, EvReceive (rw_ch w)] t = Some u
           \<and> rb_replies u = Map.empty \<and> rb_got u = rb_got b @ [(rw_ch w, None)])
    \<and> (rb_blocked b = None \<and> ch_buf (rb_insert b) = [] \<and> ch_closed (rb_insert b) = False
        \<and> 0 < ch_cap (rb_insert b) \<longrightarrow>
       (\<forall>r. rsp_id r = i \<longrightarrow>
          (\<exists>u. run_events rb_step [EvInsert r, EvLoopInsert] t = Some u \<and> rb_panic u)))"
proof -
  have reg: "rw_ch w \<in> registered b" using assms(1) by (auto simp: registered_def ran_def)
  from assms(4,5) have t: "t = b\<lparr>rb_chans := (\<lambda>ch. if ch \<in> registered b
      then (rb_chans b ch)\<lparr>ch_closed := True\<rparr> else rb_chans b ch), rb_resetting := True\<rparr>"
    and np: "\<not> rb_panic b"
    by (auto simp: rb_step_def Reset_close_def split: if_splits)
  have "\<exists>u. run_events rb_step [EvResetClear, EvReceive (rw_ch w)] t = Some u
           \<and> rb_replies u = Map.empty \<and> rb_got u = rb_got b @ [(rw_ch w, None)]"
    using assms(2,3) reg np
    by (simp add: t rb_step_def Reset_clear_def receive_reply_def chan_recv_def)
  moreover have "\<exists>u. run_events rb_step [EvInsert r, EvLoopInsert] t = Some u \<and> rb_panic u"
    if "rb_blocked b = None" "ch_buf (rb_insert b) = []" "\<not> ch_closed (rb_insert b)"
      "0 < ch_cap (rb_insert b)" "rsp_id r = i" for r
    using that reg np assms(1)
    by (simp add: t rb_step_def Insert_def loop_insert_def handle_insert_def chan_put_def chan_get_def
          chan_send_def chan_recv_def)
  ultimately show ?thesis by blast
qed

lemma Reset_ends_waits_witness:
  "\<exists>b t u. rb_reached [EvLookup ''a'', EvSend \<lparr>rw_id = ''a'', rw_ch = 0\<rparr>, EvLoopWatch] b
     \<and> rb_step EvResetClose b = Some t
     \<and> run_events rb_step [EvInsert (response ''a'' ''1''), EvLoopInsert] t = Some u \<and> rb_panic u"
proof -
  obtain b t where b: "rb_reached [EvLookup ''a'', EvSend \<lparr>rw_id = ''a'', rw_ch = 0\<rparr>, EvLoopWatch] b"
    and t: "rb_replies b ''a'' = Some \<lparr>rw_id = ''a'', rw_ch = 0\<rparr>"
      "ch_buf (rb_chans b (rw_ch \<lparr>rw_id = ''a'', rw_ch = 0\<rparr>)) = []"
      "\<lparr>rw_id = ''a'', rw_ch = 0\<rparr> \<in> set (rb_handed b)" "rb_step EvResetClose b = Some t" "\<not> rb_panic t"
    and e: "rb_blocked b = None" "ch_buf (rb_insert b) = []" "ch_closed (rb_insert b) = False"
      "0 < ch_cap (rb_insert b)"
    by (simp add: rb_reached_def rb_eval)
  from Reset_ends_waits [OF t] e have
    "\<exists>u. run_events rb_step [EvInsert (response ''a'' ''1''), EvLoopInsert] t = Some u \<and> rb_panic u"
    by simp
  with b t show ?thesis by blast
qed

end
