(* ===== verification/Exec_Context.thy ===== *)
theory Exec_Context
  imports Go_Chan "HOL-Library.Multiset"
begin

text \<open>
  \<open>pkg/core/execution_context.go\<close>, \<open>call.go\<close> and \<open>callback.go\<close>: one Lua goroutine and
  \<open>GoCallConcurrency\<close> Go goroutines take calls from two bounded channels until each has taken a
  token from the exit channel.  The interpreter and everything the calls share is a world \<open>'w\<close>.
  The body of a call maps the world to the new world, the calls it hands to \<open>ec.Call\<close> in order,
  and its error; a body that sends is a goroutine that may block on a full channel.
\<close>

datatype 'w call =
    CallScoped "'w \<Rightarrow> 'w \<times> 'w call list \<times> string option"
  | CallLua "('w \<Rightarrow> 'w \<times> 'w call list \<times> string option) option"
  | CallLuaRecoverable "'w \<Rightarrow> 'w \<times> 'w call list \<times> string option" "string \<Rightarrow> 'w \<Rightarrow> 'w"
  | CallGo "'w \<Rightarrow> 'w \<times> 'w call list \<times> string option"

type_synonym 'w body = "'w \<Rightarrow> 'w \<times> 'w call list \<times> string option"

fun is_go :: "'w call \<Rightarrow> bool" where
  "is_go (CallGo f) = True"
| "is_go _ = False"

text \<open>\<open>call.Call\<close>; \<open>utils.CallLuaFunction\<close> does nothing when its value is not a function.\<close>

fun run_body :: "'w call \<Rightarrow> 'w body" where
  "run_body (CallScoped f) w = f w"
| "run_body (CallLua None) w = (w, [], None)"
| "run_body (CallLua (Some f)) w = f w"
| "run_body (CallLuaRecoverable f h) w = f w"
| "run_body (CallGo f) w = f w"

datatype 'w worker = NotStarted | Idle | Busy "'w call" "'w call list" "string option" | Exited

record ec_config =
  cf_lua_size :: nat
  cf_go_size :: nat
  cf_concurrency :: nat

record 'w ec =
  ec_conf :: ec_config
  ec_exit :: "unit chan"
  ec_lcalls :: "'w call chan"
  ec_gcalls :: "'w call chan"
  ec_closed :: bool
  ec_world :: 'w
  ec_lua :: "'w worker"
  ec_gos :: "'w worker list"
  ec_close_left :: "nat option"
  ec_reported :: "string list"
  ec_accepted :: "'w call list"
  ec_taken :: "'w call list"
  ec_finished :: "('w call \<times> string option) list"

text \<open>
  \<open>ec_close_left\<close> is \<open>Close\<close> under way, with the number of tokens it has yet to send;
  \<open>ec_reported\<close> is what \<open>config.OnError\<close> was given.  The last three fields are history: the calls
  the channels accepted, the calls the goroutines took, and the calls that returned.
\<close>

definition NewExecutionContext :: "'w \<Rightarrow> ec_config \<Rightarrow> 'w ec" where
  "NewExecutionContext w cf =
     \<lparr>ec_conf = cf, ec_exit = make_chan 1, ec_lcalls = make_chan (cf_lua_size cf),
      ec_gcalls = make_chan (cf_go_size cf), ec_closed = False, ec_world = w,
      ec_lua = NotStarted, ec_gos = replicate (cf_concurrency cf) NotStarted, ec_close_left = None,
      ec_reported = [], ec_accepted = [], ec_taken = [], ec_finished = []\<rparr>"

definition ec_Start :: "'w ec \<Rightarrow> 'w ec option" where
  "ec_Start s =
     (if ec_lua s = NotStarted
      then Some (s\<lparr>ec_lua := Idle, ec_gos := replicate (cf_concurrency (ec_conf s)) Idle\<rparr>)
      else None)"

text \<open>\<open>Call\<close>: \<open>None\<close> while the channel is full.\<close>

definition ec_Call :: "'w call \<Rightarrow> 'w ec \<Rightarrow> 'w ec option" where
  "ec_Call c s =
     (if is_go c
      then (case chan_put c (ec_gcalls s) of
              None \<Rightarrow> None
            | Some ch \<Rightarrow> Some (s\<lparr>ec_gcalls := ch, ec_accepted := ec_accepted s @ [c]\<rparr>))
      else (case chan_put c (ec_lcalls s) of
              None \<Rightarrow> None
            | Some ch \<Rightarrow> Some (s\<lparr>ec_lcalls := ch, ec_accepted := ec_accepted s @ [c]\<rparr>)))"

text \<open>Reporting the error of a call: its own handler when it has one, else \<open>config.OnError\<close>.\<close>

fun report :: "'w call \<Rightarrow> string option \<Rightarrow> 'w ec \<Rightarrow> 'w ec" where
  "report c None s = s"
| "report (CallLuaRecoverable f h) (Some e) s = s\<lparr>ec_world := h e (ec_world s)\<rparr>"
| "report c (Some e) s = s\<lparr>ec_reported := ec_reported s @ [e]\<rparr>"

text \<open>The worker begins a call it has taken; with \<open>closed\<close> set the call is dropped.\<close>

definition begin_call :: "'w call \<Rightarrow> 'w ec \<Rightarrow> 'w worker \<times> 'w ec" where
  "begin_call c s =
     (if ec_closed s then (Idle, s)
      else (case run_body c (ec_world s) of
              (w, cs, err) \<Rightarrow> (Busy c cs err, s\<lparr>ec_world := w\<rparr>)))"

text \<open>One step of a busy worker: the next send of the body, or its return.\<close>

definition work_step :: "'w worker \<Rightarrow> 'w ec \<Rightarrow> ('w worker \<times> 'w ec) option" where
  "work_step wk s =
     (case wk of
        Busy c (d # ds) err \<Rightarrow>
          (case ec_Call d s of None \<Rightarrow> None | Some t \<Rightarrow> Some (Busy c ds err, t))
      | Busy c [] err \<Rightarrow>
          Some (Idle, (report c err s)\<lparr>ec_finished := ec_finished s @ [(c, err)]\<rparr>)
      | _ \<Rightarrow> None)"

subsection \<open>The goroutines' cases\<close>

definition lua_exit :: "'w ec \<Rightarrow> 'w ec option" where
  "lua_exit s =
     (if ec_lua s = Idle
      then (case chan_get (ec_exit s) of
              None \<Rightarrow> None | Some (_, ch) \<Rightarrow> Some (s\<lparr>ec_exit := ch, ec_lua := Exited\<rparr>))
      else None)"

definition lua_take :: "'w ec \<Rightarrow> 'w ec option" where
  "lua_take s =
     (if ec_lua s = Idle
      then (case chan_get (ec_lcalls s) of
              None \<Rightarrow> None
            | Some (c, ch) \<Rightarrow>
                (case begin_call c (s\<lparr>ec_lcalls := ch, ec_taken := ec_taken s @ [c]\<rparr>) of
                   (wk, t) \<Rightarrow> Some (t\<lparr>ec_lua := wk\<rparr>)))
      else None)"

definition lua_work :: "'w ec \<Rightarrow> 'w ec option" where
  "lua_work s =
     (case work_step (ec_lua s) s of None \<Rightarrow> None | Some (wk, t) \<Rightarrow> Some (t\<lparr>ec_lua := wk\<rparr>))"

definition go_exit :: "nat \<Rightarrow> 'w ec \<Rightarrow> 'w ec option" where
  "go_exit k s =
     (if k < length (ec_gos s) \<and> ec_gos s ! k = Idle
      then (case chan_get (ec_exit s) of
              None \<Rightarrow> None
            | Some (_, ch) \<Rightarrow> Some (s\<lparr>ec_exit := ch, ec_gos := (ec_gos s)[k := Exited]\<rparr>))
      else None)"

definition go_take :: "nat \<Rightarrow> 'w ec \<Rightarrow> 'w ec option" where
  "go_take k s =
     (if k < length (ec_gos s) \<and> ec_gos s ! k = Idle
      then (case chan_get (ec_gcalls s) of
              None \<Rightarrow> None
            | Some (c, ch) \<Rightarrow>
                (case begin_call c (s\<lparr>ec_gcalls := ch, ec_taken := ec_taken s @ [c]\<rparr>) of
                   (wk, t) \<Rightarrow> Some (t\<lparr>ec_gos := (ec_gos t)[k := wk]\<rparr>)))
      else None)"

definition go_work :: "nat \<Rightarrow> 'w ec \<Rightarrow> 'w ec option" where
  "go_work k s =
     (if k < length (ec_gos s)
      then (case work_step (ec_gos s ! k) s of
              None \<Rightarrow> None | Some (wk, t) \<Rightarrow> Some (t\<lparr>ec_gos := (ec_gos t)[k := wk]\<rparr>))
      else None)"

text \<open>\<open>Close\<close> sends one token for the Lua goroutine and one for each Go goroutine.\<close>

definition close_begin :: "'w ec \<Rightarrow> 'w ec option" where
  "close_begin s =
     (if ec_close_left s = None
      then Some (s\<lparr>ec_close_left := Some (Suc (cf_concurrency (ec_conf s)))\<rparr>) else None)"

definition close_token :: "'w ec \<Rightarrow> 'w ec option" where
  "close_token s =
     (case ec_close_left s of
        Some (Suc n) \<Rightarrow>
          (case chan_put () (ec_exit s) of
             None \<Rightarrow> None | Some ch \<Rightarrow> Some (s\<lparr>ec_exit := ch, ec_close_left := Some n\<rparr>))
      | _ \<Rightarrow> None)"

datatype 'w ec_event =
    XStart | XCall "'w call" | XLuaTake | XLuaWork | XLuaExit
  | XGoTake nat | XGoWork nat | XGoExit nat | XCloseBegin | XCloseToken

fun ec_step :: "'w ec_event \<Rightarrow> 'w ec \<Rightarrow> 'w ec option" where
  "ec_step XStart s = ec_Start s"
| "ec_step (XCall c) s = ec_Call c s"
| "ec_step XLuaTake s = lua_take s"
| "ec_step XLuaWork s = lua_work s"
| "ec_step XLuaExit s = lua_exit s"
| "ec_step (XGoTake k) s = go_take k s"
| "ec_step (XGoWork k) s = go_work k s"
| "ec_step (XGoExit k) s = go_exit k s"
| "ec_step XCloseBegin s = close_begin s"
| "ec_step XCloseToken s = close_token s"

definition ec_reached :: "'w \<Rightarrow> ec_config \<Rightarrow> 'w ec_event list \<Rightarrow> 'w ec \<Rightarrow> bool" where
  "ec_reached w cf es s \<longleftrightarrow> run_events ec_step es (NewExecutionContext w cf) = Some s"

subsection \<open>Callbacks\<close>

datatype 'v lua_arg = ANil | AError string | AValue 'v

text \<open>\<open>GoFunctionCallback\<close> and \<open>RaiseError\<close>; a callback that is not a function is \<open>None\<close>.\<close>

definition GoFunctionCallback ::
  "('v lua_arg list \<Rightarrow> 'w body) option \<Rightarrow> ('w \<Rightarrow> 'w \<times> (string + 'v)) \<Rightarrow> 'w call" where
  "GoFunctionCallback cb fn =
     CallGo (\<lambda>w. case fn w of
        (w', Inl err) \<Rightarrow> (w', [CallLua (map_option (\<lambda>f. f [AError err]) cb)], None)
      | (w', Inr v) \<Rightarrow> (w', [CallLua (map_option (\<lambda>f. f [ANil, AValue v]) cb)], None))"

definition RaiseError :: "string \<Rightarrow> 'w call" where
  "RaiseError err = CallScoped (\<lambda>w. (w, [], Some err))"

subsection \<open>What the steps change\<close>

lemma report_frame [frame_simps]:
  "ec_conf (report c x s) = ec_conf s" "ec_exit (report c x s) = ec_exit s"
  "ec_lcalls (report c x s) = ec_lcalls s" "ec_gcalls (report c x s) = ec_gcalls s"
  "ec_closed (report c x s) = ec_closed s" "ec_lua (report c x s) = ec_lua s"
  "ec_gos (report c x s) = ec_gos s" "ec_close_left (report c x s) = ec_close_left s"
  "ec_accepted (report c x s) = ec_accepted s" "ec_taken (report c x s) = ec_taken s"
  "ec_finished (report c x s) = ec_finished s"
  by (cases "(c, x, s)" rule: report.cases; simp)+

text \<open>
  The steps in a normal form: the workers are one list with the Lua worker in front, and a step
  of a worker does not depend on which one it is.
\<close>

definition workers :: "'w ec \<Rightarrow> 'w worker list" where
  "workers s = ec_lua s # ec_gos s"

definition calls_of :: "'w worker \<Rightarrow> 'w call multiset" where
  "calls_of wk = (case wk of Busy c cs err \<Rightarrow> {#c#} | _ \<Rightarrow> {#})"

definition in_progress :: "'w ec \<Rightarrow> 'w call multiset" where
  "in_progress s = (\<Sum>wk \<in># mset (workers s). calls_of wk)"

lemma calls_of_simps [simp]:
  "calls_of NotStarted = {#}" "calls_of Idle = {#}" "calls_of Exited = {#}"
  "calls_of (Busy c cs err) = {#c#}"
  by (simp_all add: calls_of_def)

lemma sum_mset_update:
  fixes f :: "'a \<Rightarrow> 'b::comm_monoid_add"
  assumes "k < length xs"
  shows "(\<Sum>x \<in># mset (xs[k := y]). f x) + f (xs ! k) = (\<Sum>x \<in># mset xs. f x) + f y"
  using assms
proof (induction xs arbitrary: k)
  case Nil
  then show ?case by simp
next
  case (Cons x xs)
  then show ?case by (cases k) (auto simp: ac_simps)
qed

lemma in_progress_lua:
  "in_progress (s\<lparr>ec_lua := wk\<rparr>) + calls_of (ec_lua s) = in_progress s + calls_of wk"
  by (simp add: in_progress_def workers_def union_ac)

lemma in_progress_go:
  assumes "k < length (ec_gos s)"
  shows "in_progress (s\<lparr>ec_gos := (ec_gos s)[k := wk]\<rparr>) + calls_of (ec_gos s ! k)
    = in_progress s + calls_of wk"
  using sum_mset_update [OF assms, where f = calls_of and y = wk]
  by (simp add: in_progress_def workers_def union_ac)

lemma in_progress_cong: "ec_lua t = ec_lua s \<Longrightarrow> ec_gos t = ec_gos s \<Longrightarrow> in_progress t = in_progress s"
  by (simp add: in_progress_def workers_def)

text \<open>Every accepted call waits in its channel, in order, or has been taken.\<close>

definition fifo_inv :: "'w ec \<Rightarrow> bool" where
  "fifo_inv s \<longleftrightarrow>
     filter (\<lambda>c. \<not> is_go c) (ec_accepted s) = filter (\<lambda>c. \<not> is_go c) (ec_taken s) @ ch_buf (ec_lcalls s)
     \<and> filter is_go (ec_accepted s) = filter is_go (ec_taken s) @ ch_buf (ec_gcalls s)
     \<and> list_all (\<lambda>c. \<not> is_go c) (ch_buf (ec_lcalls s)) \<and> list_all is_go (ch_buf (ec_gcalls s))
     \<and> \<not> ec_closed s"

text \<open>Every taken call is in progress at one worker or has returned; errors are reported once.\<close>

fun uncaught :: "'w call \<times> string option \<Rightarrow> string list" where
  "uncaught (CallLuaRecoverable f h, Some e) = []"
| "uncaught (c, Some e) = [e]"
| "uncaught (c, None) = []"

definition account_inv :: "'w ec \<Rightarrow> bool" where
  "account_inv s \<longleftrightarrow>
     mset (ec_taken s) = in_progress s + mset (map fst (ec_finished s))
     \<and> ec_reported s = concat (map uncaught (ec_finished s)) \<and> \<not> ec_closed s"

lemma begin_call_open:
  "\<not> ec_closed s \<Longrightarrow> begin_call c s =
     (case run_body c (ec_world s) of (w, cs, err) \<Rightarrow> (Busy c cs err, s\<lparr>ec_world := w\<rparr>))"
  by (simp add: begin_call_def)

lemma ec_Call_fifo: "fifo_inv s \<Longrightarrow> ec_Call c s = Some t \<Longrightarrow> fifo_inv t"
  by (auto simp: fifo_inv_def ec_Call_def chan_simps split: if_splits option.splits)

lemma ec_Call_frame [frame_simps]:
  assumes "ec_Call c s = Some t"
  shows "ec_conf t = ec_conf s" "ec_exit t = ec_exit s" "ec_closed t = ec_closed s"
    "ec_lua t = ec_lua s" "ec_gos t = ec_gos s" "ec_close_left t = ec_close_left s"
    "ec_taken t = ec_taken s" "ec_finished t = ec_finished s" "ec_reported t = ec_reported s"
    "ec_world t = ec_world s"
  using assms by (auto simp: ec_Call_def split: if_splits option.splits)

lemma work_step_cases:
  assumes "work_step wk s = Some (wk', t)"
  obtains (Send) c d ds err where "wk = Busy c (d # ds) err" "wk' = Busy c ds err" "ec_Call d s = Some t"
    | (Return) c err where "wk = Busy c [] err" "wk' = Idle"
        "t = (report c err s)\<lparr>ec_finished := ec_finished s @ [(c, err)]\<rparr>"
  using assms by (auto simp: work_step_def split: worker.splits list.splits option.splits)

lemma work_step_fifo: "fifo_inv s \<Longrightarrow> work_step wk s = Some (wk', t) \<Longrightarrow> fifo_inv t"
  by (erule work_step_cases) (auto intro: ec_Call_fifo, simp add: fifo_inv_def frame_simps)

lemma fifo_inv_cong:
  "fifo_inv (s\<lparr>ec_lua := x\<rparr>) = fifo_inv s" "fifo_inv (s\<lparr>ec_gos := y\<rparr>) = fifo_inv s"
  "fifo_inv (s\<lparr>ec_world := w\<rparr>) = fifo_inv s"
  by (simp_all add: fifo_inv_def)

lemma step_fifo: "fifo_inv s \<Longrightarrow> ec_step e s = Some t \<Longrightarrow> fifo_inv t"
proof (cases e)
  case (XCall c)
  moreover assume "fifo_inv s" "ec_step e s = Some t"
  ultimately show ?thesis by (auto intro: ec_Call_fifo)
next
  case XLuaWork
  moreover assume "fifo_inv s" "ec_step e s = Some t"
  ultimately show ?thesis
    by (auto simp: lua_work_def fifo_inv_cong intro: work_step_fifo split: option.splits)
next
  case (XGoWork k)
  moreover assume "fifo_inv s" "ec_step e s = Some t"
  ultimately show ?thesis
    by (auto simp: go_work_def fifo_inv_cong intro: work_step_fifo split: option.splits if_splits)
qed (auto simp: ec_Start_def lua_take_def go_take_def lua_exit_def go_exit_def close_begin_def close_token_def
       fifo_inv_def begin_call_def chan_simps
     split: if_splits option.splits prod.splits nat.splits)

lemma in_progress_lua_eq:
  assumes "ec_gos t = ec_gos s" and "ec_lua t = wk"
  shows "in_progress t + calls_of (ec_lua s) = in_progress s + calls_of wk"
  using assms by (simp add: in_progress_def workers_def union_ac)

lemma in_progress_go_eq:
  assumes "k < length (ec_gos s)" and "ec_gos t = (ec_gos s)[k := wk]" and "ec_lua t = ec_lua s"
  shows "in_progress t + calls_of (ec_gos s ! k) = in_progress s + calls_of wk"
  using sum_mset_update [OF assms(1), where f = calls_of and y = wk] assms(2,3)
  by (simp add: in_progress_def workers_def union_ac)

text \<open>What a worker's step does to the account, whichever worker it is.\<close>

definition accounts ::
    "'w call multiset \<Rightarrow> 'w call list \<Rightarrow> ('w call \<times> string option) list \<Rightarrow> string list \<Rightarrow> bool" where
  "accounts p taken fin rep \<longleftrightarrow>
     mset taken = p + mset (map fst fin) \<and> rep = concat (map uncaught fin)"

lemma account_inv_accounts:
  "account_inv s \<longleftrightarrow>
     accounts (in_progress s) (ec_taken s) (ec_finished s) (ec_reported s) \<and> \<not> ec_closed s"
  by (simp add: account_inv_def accounts_def)

lemma report_reported: "ec_reported (report c x s) = ec_reported s @ uncaught (c, x)"
  by (cases "(c, x, s)" rule: report.cases) auto

lemma begin_call_accounts:
  assumes "\<not> ec_closed s" and "begin_call c s = (wk, t)"
  shows "calls_of wk = {#c#} \<and> ec_taken t = ec_taken s \<and> ec_finished t = ec_finished s
    \<and> ec_reported t = ec_reported s \<and> ec_closed t = ec_closed s \<and> ec_lua t = ec_lua s
    \<and> ec_gos t = ec_gos s"
  using assms by (auto simp: begin_call_def split: prod.splits)

lemma work_step_accounts:
  assumes "work_step wk s = Some (wk', t)" and "p + calls_of wk = q + calls_of wk'"
    and "accounts q (ec_taken s) (ec_finished s) (ec_reported s)"
  shows "accounts p (ec_taken t) (ec_finished t) (ec_reported t)"
  using assms(1)
proof (cases rule: work_step_cases)
  case (Send c d ds err)
  with assms(2) have "p = q" by simp
  with Send assms(3) show ?thesis by (simp add: frame_simps)
next
  case (Return c err)
  with assms(2) have "q = p + {#c#}" by simp
  with Return assms(3) show ?thesis by (simp add: frame_simps accounts_def report_reported)
qed

lemma work_step_frame:
  assumes "work_step wk s = Some (wk', t)"
  shows "ec_lua t = ec_lua s \<and> ec_gos t = ec_gos s \<and> ec_closed t = ec_closed s
    \<and> ec_exit t = ec_exit s \<and> ec_close_left t = ec_close_left s \<and> ec_conf t = ec_conf s"
  using assms by (cases rule: work_step_cases) (simp_all add: frame_simps)

lemma lua_work_account:
  assumes a: "account_inv s" and w: "lua_work s = Some u"
  shows "account_inv u"
proof -
  from w obtain wk t where t: "work_step (ec_lua s) s = Some (wk, t)" and u: "u = t\<lparr>ec_lua := wk\<rparr>"
    by (auto simp: lua_work_def split: option.splits)
  have "in_progress u + calls_of (ec_lua s) = in_progress s + calls_of wk"
    by (rule in_progress_lua_eq) (use work_step_frame [OF t] u in auto)
  from work_step_accounts [OF t this] a work_step_frame [OF t] show ?thesis
    by (simp add: account_inv_accounts u)
qed

lemma go_work_account:
  assumes a: "account_inv s" and w: "go_work k s = Some u"
  shows "account_inv u"
proof -
  from w obtain wk t where k: "k < length (ec_gos s)" and t: "work_step (ec_gos s ! k) s = Some (wk, t)"
    and u: "u = t\<lparr>ec_gos := (ec_gos t)[k := wk]\<rparr>"
    by (auto simp: go_work_def split: option.splits if_splits)
  have "in_progress u + calls_of (ec_gos s ! k) = in_progress s + calls_of wk"
    by (rule in_progress_go_eq [OF k]) (use work_step_frame [OF t] u in auto)
  from work_step_accounts [OF t this] a work_step_frame [OF t] show ?thesis
    by (simp add: account_inv_accounts u)
qed

lemma lua_take_account:
  assumes a: "account_inv s" and w: "lua_take s = Some u"
  shows "account_inv u"
proof -
  from w obtain c ch wk t where idle: "ec_lua s = Idle"
    and t: "begin_call c (s\<lparr>ec_lcalls := ch, ec_taken := ec_taken s @ [c]\<rparr>) = (wk, t)"
    and u: "u = t\<lparr>ec_lua := wk\<rparr>"
    by (auto simp: lua_take_def split: option.splits if_splits prod.splits)
  have f: "calls_of wk = {#c#} \<and> ec_taken t = ec_taken s @ [c] \<and> ec_finished t = ec_finished s
    \<and> ec_reported t = ec_reported s \<and> ec_closed t = ec_closed s \<and> ec_lua t = ec_lua s
    \<and> ec_gos t = ec_gos s"
    using begin_call_accounts [OF _ t] a by (simp add: account_inv_def)
  have "in_progress u + calls_of (ec_lua s) = in_progress s + calls_of wk"
    by (rule in_progress_lua_eq) (use f u in auto)
  with f idle have "in_progress u = add_mset c (in_progress s)" by simp
  with a f show ?thesis by (simp add: account_inv_accounts accounts_def u)
qed

lemma go_take_account:
  assumes a: "account_inv s" and w: "go_take k s = Some u"
  shows "account_inv u"
proof -
  from w obtain c ch wk t where k: "k < length (ec_gos s)" and idle: "ec_gos s ! k = Idle"
    and t: "begin_call c (s\<lparr>ec_gcalls := ch, ec_taken := ec_taken s @ [c]\<rparr>) = (wk, t)"
    and u: "u = t\<lparr>ec_gos := (ec_gos t)[k := wk]\<rparr>"
    by (auto simp: go_take_def split: option.splits if_splits prod.splits)
  have f: "calls_of wk = {#c#} \<and> ec_taken t = ec_taken s @ [c] \<and> ec_finished t = ec_finished s
    \<and> ec_reported t = ec_reported s \<and> ec_closed t = ec_closed s \<and> ec_lua t = ec_lua s
    \<and> ec_gos t = ec_gos s"
    using begin_call_accounts [OF _ t] a by (simp add: account_inv_def)
  have "in_progress u + calls_of (ec_gos s ! k) = in_progress s + calls_of wk"
    by (rule in_progress_go_eq [OF k]) (use f u in auto)
  with f idle have "in_progress u = add_mset c (in_progress s)" by simp
  with a f show ?thesis by (simp add: account_inv_accounts accounts_def u)
qed

lemma account_inv_same:
  assumes "account_inv s" and "in_progress t = in_progress s" and "ec_taken t = ec_taken s"
    and "ec_finished t = ec_finished s" and "ec_reported t = ec_reported s" and "ec_closed t = ec_closed s"
  shows "account_inv t"
  using assms by (simp add: account_inv_def)

definition started_inv :: "'w ec \<Rightarrow> bool" where
  "started_inv s \<longleftrightarrow> length (ec_gos s) = cf_concurrency (ec_conf s)
     \<and> (ec_lua s = NotStarted \<longrightarrow> set (ec_gos s) \<subseteq> {NotStarted})
     \<and> (ec_lua s \<noteq> NotStarted \<longrightarrow> NotStarted \<notin> set (ec_gos s))"

text \<open>Tokens: those \<open>Close\<close> has yet to send, those in the channel and the goroutines that left.\<close>

definition gone :: "'w worker \<Rightarrow> nat" where
  "gone wk = (if wk = Exited then 1 else 0)"

definition exited :: "'w ec \<Rightarrow> nat" where
  "exited s = (\<Sum>wk \<in># mset (workers s). gone wk)"

definition token_inv :: "'w ec \<Rightarrow> bool" where
  "token_inv s \<longleftrightarrow> ch_cap (ec_exit s) = 1 \<and> length (ch_buf (ec_exit s)) \<le> 1 \<and>
     (case ec_close_left s of
        None \<Rightarrow> exited s = 0 \<and> ch_buf (ec_exit s) = []
      | Some n \<Rightarrow> n + exited s + length (ch_buf (ec_exit s)) = Suc (cf_concurrency (ec_conf s)))"

lemma gone_simps [simp]:
  "gone NotStarted = 0" "gone Idle = 0" "gone (Busy c cs err) = 0" "gone Exited = 1"
  by (simp_all add: gone_def)

lemma exited_lua_eq:
  "ec_gos t = ec_gos s \<Longrightarrow> ec_lua t = wk \<Longrightarrow> exited t + gone (ec_lua s) = exited s + gone wk"
  by (simp add: exited_def workers_def)

lemma exited_go_eq:
  assumes "k < length (ec_gos s)" and "ec_gos t = (ec_gos s)[k := wk]" and "ec_lua t = ec_lua s"
  shows "exited t + gone (ec_gos s ! k) = exited s + gone wk"
  using sum_mset_update [OF assms(1), where f = gone and y = wk] assms(2,3)
  by (simp add: exited_def workers_def)

definition exec_inv :: "'w ec \<Rightarrow> bool" where
  "exec_inv s \<longleftrightarrow> fifo_inv s \<and> account_inv s \<and> started_inv s \<and> token_inv s"

lemma work_step_gone: "work_step wk s = Some (wk', t) \<Longrightarrow> gone wk' = gone wk \<and> wk' \<noteq> NotStarted \<and> wk \<noteq> NotStarted"
  by (erule work_step_cases) auto

lemma begin_call_gone: "begin_call c s = (wk, t) \<Longrightarrow> gone wk = 0 \<and> wk \<noteq> NotStarted"
  by (auto simp: begin_call_def split: if_splits prod.splits)

lemma begin_call_frame:
  "begin_call c s = (wk, t) \<Longrightarrow> ec_lua t = ec_lua s \<and> ec_gos t = ec_gos s \<and> ec_exit t = ec_exit s
     \<and> ec_close_left t = ec_close_left s \<and> ec_conf t = ec_conf s"
  by (auto simp: begin_call_def split: if_splits prod.splits)

lemma started_inv_lua:
  "started_inv s \<Longrightarrow> ec_lua s \<noteq> NotStarted \<Longrightarrow> wk \<noteq> NotStarted \<Longrightarrow> ec_gos t = ec_gos s \<Longrightarrow> ec_lua t = wk \<Longrightarrow>
     ec_conf t = ec_conf s \<Longrightarrow> started_inv t"
  by (simp add: started_inv_def)

lemma started_inv_go:
  assumes "started_inv s" and "k < length (ec_gos s)" and "ec_gos s ! k \<noteq> NotStarted" and "wk \<noteq> NotStarted"
    and "ec_gos t = (ec_gos s)[k := wk]" and "ec_lua t = ec_lua s" and "ec_conf t = ec_conf s"
  shows "started_inv t"
proof -
  have "ec_lua s \<noteq> NotStarted"
    using assms(1,3) nth_mem [OF assms(2)] unfolding started_inv_def by blast
  moreover from this assms(1) have "NotStarted \<notin> set (ec_gos s)" by (simp add: started_inv_def)
  then have "NotStarted \<notin> set ((ec_gos s)[k := wk])"
    using assms(4) set_update_subset_insert [of "ec_gos s" k wk] by auto
  ultimately show ?thesis using assms(1,5-7) by (simp add: started_inv_def)
qed

lemma token_inv_lua:
  "token_inv s \<Longrightarrow> gone wk = gone (ec_lua s) \<Longrightarrow> ec_gos t = ec_gos s \<Longrightarrow> ec_lua t = wk \<Longrightarrow>
     ec_exit t = ec_exit s \<Longrightarrow> ec_close_left t = ec_close_left s \<Longrightarrow> ec_conf t = ec_conf s \<Longrightarrow> token_inv t"
  using exited_lua_eq [of t s wk] by (simp add: token_inv_def split: option.splits)

lemma token_inv_go:
  "token_inv s \<Longrightarrow> k < length (ec_gos s) \<Longrightarrow> gone wk = gone (ec_gos s ! k) \<Longrightarrow>
     ec_gos t = (ec_gos s)[k := wk] \<Longrightarrow> ec_lua t = ec_lua s \<Longrightarrow>
     ec_exit t = ec_exit s \<Longrightarrow> ec_close_left t = ec_close_left s \<Longrightarrow> ec_conf t = ec_conf s \<Longrightarrow> token_inv t"
  using exited_go_eq [of k s t wk] by (simp add: token_inv_def split: option.splits)

lemma exec_inv_lua_work:
  assumes "exec_inv s" and "lua_work s = Some u"
  shows "exec_inv u"
proof -
  from assms(2) obtain wk t where t: "work_step (ec_lua s) s = Some (wk, t)" and u: "u = t\<lparr>ec_lua := wk\<rparr>"
    by (auto simp: lua_work_def split: option.splits)
  note f = work_step_frame [OF t] and g = work_step_gone [OF t]
  have "started_inv u" by (rule started_inv_lua [of s wk]) (use assms(1) f g u in \<open>auto simp: exec_inv_def\<close>)
  moreover have "token_inv u" by (rule token_inv_lua [of s wk]) (use assms(1) f g u in \<open>auto simp: exec_inv_def\<close>)
  moreover have "fifo_inv u" using step_fifo [of s XLuaWork u] assms by (simp add: exec_inv_def)
  moreover have "account_inv u" using lua_work_account assms by (auto simp: exec_inv_def)
  ultimately show ?thesis by (simp add: exec_inv_def)
qed

lemma exec_inv_go_work:
  assumes "exec_inv s" and "go_work k s = Some u"
  shows "exec_inv u"
proof -
  from assms(2) obtain wk t where k: "k < length (ec_gos s)" and t: "work_step (ec_gos s ! k) s = Some (wk, t)"
    and u: "u = t\<lparr>ec_gos := (ec_gos t)[k := wk]\<rparr>"
    by (auto simp: go_work_def split: option.splits if_splits)
  note f = work_step_frame [OF t] and g = work_step_gone [OF t]
  have "started_inv u" by (rule started_inv_go [of s k wk]) (use assms(1) k f g u in \<open>auto simp: exec_inv_def\<close>)
  moreover have "token_inv u" by (rule token_inv_go [of s k wk]) (use assms(1) k f g u in \<open>auto simp: exec_inv_def\<close>)
  moreover have "fifo_inv u" using step_fifo [of s "XGoWork k" u] assms by (simp add: exec_inv_def)
  moreover have "account_inv u" using go_work_account assms by (auto simp: exec_inv_def)
  ultimately show ?thesis by (simp add: exec_inv_def)
qed

lemma exec_inv_lua_take:
  assumes "exec_inv s" and "lua_take s = Some u"
  shows "exec_inv u"
proof -
  from assms(2) obtain c ch wk t where idle: "ec_lua s = Idle"
    and t: "begin_call c (s\<lparr>ec_lcalls := ch, ec_taken := ec_taken s @ [c]\<rparr>) = (wk, t)"
    and u: "u = t\<lparr>ec_lua := wk\<rparr>"
    by (auto simp: lua_take_def split: option.splits if_splits prod.splits)
  note f = begin_call_frame [OF t] and g = begin_call_gone [OF t]
  have "started_inv u" by (rule started_inv_lua [of s wk]) (use assms(1) idle f g u in \<open>auto simp: exec_inv_def\<close>)
  moreover have "token_inv u" by (rule token_inv_lua [of s wk]) (use assms(1) idle f g u in \<open>auto simp: exec_inv_def\<close>)
  moreover have "fifo_inv u" using step_fifo [of s XLuaTake u] assms by (simp add: exec_inv_def)
  moreover have "account_inv u" using lua_take_account assms by (auto simp: exec_inv_def)
  ultimately show ?thesis by (simp add: exec_inv_def)
qed

lemma exec_inv_go_take:
  assumes "exec_inv s" and "go_take k s = Some u"
  shows "exec_inv u"
proof -
  from assms(2) obtain c ch wk t where k: "k < length (ec_gos s)" and idle: "ec_gos s ! k = Idle"
    and t: "begin_call c (s\<lparr>ec_gcalls := ch, ec_taken := ec_taken s @ [c]\<rparr>) = (wk, t)"
    and u: "u = t\<lparr>ec_gos := (ec_gos t)[k := wk]\<rparr>"
    by (auto simp: go_take_def split: option.splits if_splits prod.splits)
  note f = begin_call_frame [OF t] and g = begin_call_gone [OF t]
  have "started_inv u" by (rule started_inv_go [of s k wk]) (use assms(1) idle k f g u in \<open>auto simp: exec_inv_def\<close>)
  moreover have "token_inv u" by (rule token_inv_go [of s k wk]) (use assms(1) idle k f g u in \<open>auto simp: exec_inv_def\<close>)
  moreover have "fifo_inv u" using step_fifo [of s "XGoTake k" u] assms by (simp add: exec_inv_def)
  moreover have "account_inv u" using go_take_account assms by (auto simp: exec_inv_def)
  ultimately show ?thesis by (simp add: exec_inv_def)
qed

lemma exec_inv_lua_exit:
  assumes "exec_inv s" and "lua_exit s = Some u"
  shows "exec_inv u"
proof -
  from assms(2) obtain ch where idle: "ec_lua s = Idle" and ch: "chan_get (ec_exit s) = Some ((), ch)"
    and u: "u = s\<lparr>ec_exit := ch, ec_lua := Exited\<rparr>"
    by (auto simp: lua_exit_def split: option.splits if_splits prod.splits)
  have "exited u + gone (ec_lua s) = exited s + gone (Exited :: 'a worker)"
    by (rule exited_lua_eq) (use u in auto)
  then have "exited u = Suc (exited s)" using idle by simp
  then have "token_inv u"
    using assms(1) ch u by (auto simp: exec_inv_def token_inv_def chan_simps split: option.splits)
  moreover have "started_inv u"
    by (rule started_inv_lua [of s Exited]) (use assms(1) idle u in \<open>auto simp: exec_inv_def\<close>)
  moreover have "fifo_inv u" using step_fifo [of s XLuaExit u] assms by (simp add: exec_inv_def)
  moreover have "account_inv u"
    by (rule account_inv_same [of s])
       (use assms(1) idle u in \<open>auto simp: exec_inv_def in_progress_def workers_def\<close>)
  ultimately show ?thesis by (simp add: exec_inv_def)
qed

lemma exec_inv_go_exit:
  assumes "exec_inv s" and "go_exit k s = Some u"
  shows "exec_inv u"
proof -
  from assms(2) obtain ch where k: "k < length (ec_gos s)" and idle: "ec_gos s ! k = Idle"
    and ch: "chan_get (ec_exit s) = Some ((), ch)"
    and u: "u = s\<lparr>ec_exit := ch, ec_gos := (ec_gos s)[k := Exited]\<rparr>"
    by (auto simp: go_exit_def split: option.splits if_splits prod.splits)
  have "exited u + gone (ec_gos s ! k) = exited s + gone (Exited :: 'a worker)"
    by (rule exited_go_eq [OF k]) (use u in auto)
  then have "exited u = Suc (exited s)" using idle by simp
  then have "token_inv u"
    using assms(1) ch u by (auto simp: exec_inv_def token_inv_def chan_simps split: option.splits)
  moreover have "started_inv u"
    by (rule started_inv_go [of s k Exited]) (use assms(1) idle k u in \<open>auto simp: exec_inv_def\<close>)
  moreover have "fifo_inv u" using step_fifo [of s "XGoExit k" u] assms by (simp add: exec_inv_def)
  moreover have "in_progress u + calls_of (ec_gos s ! k) = in_progress s + calls_of (Exited :: 'a worker)"
    by (rule in_progress_go_eq [OF k]) (use u in auto)
  then have "account_inv u"
    using account_inv_same [of s u] assms(1) idle u by (simp add: exec_inv_def)
  ultimately show ?thesis by (simp add: exec_inv_def)
qed

lemma set_NotStarted_replicate: "set xs \<subseteq> {a} \<Longrightarrow> xs = replicate (length xs) a"
  by (induction xs) auto

lemma sum_mset_replicate_zero:
  fixes f :: "'a \<Rightarrow> 'b::comm_monoid_add"
  shows "f x = 0 \<Longrightarrow> (\<Sum>y \<in># mset (replicate n x). f y) = 0"
  by (induction n) auto

lemma token_inv_same:
  "token_inv s \<Longrightarrow> exited t = exited s \<Longrightarrow> ec_exit t = ec_exit s \<Longrightarrow> ec_close_left t = ec_close_left s \<Longrightarrow>
     ec_conf t = ec_conf s \<Longrightarrow> token_inv t"
  by (simp add: token_inv_def split: option.splits)

lemma exec_inv_Start:
  assumes "exec_inv s" and "ec_Start s = Some u"
  shows "exec_inv u"
proof -
  from assms(2) have ns: "ec_lua s = NotStarted"
    and u: "u = s\<lparr>ec_lua := Idle, ec_gos := replicate (cf_concurrency (ec_conf s)) Idle\<rparr>"
    by (auto simp: ec_Start_def split: if_splits)
  then have "set (ec_gos s) \<subseteq> {NotStarted}" "length (ec_gos s) = cf_concurrency (ec_conf s)"
    using assms(1) by (simp_all add: exec_inv_def started_inv_def)
  then have gos: "ec_gos s = replicate (cf_concurrency (ec_conf s)) NotStarted"
    using set_NotStarted_replicate by metis
  have "in_progress u = in_progress s" "exited u = exited s"
    by (simp_all add: in_progress_def exited_def workers_def u ns gos sum_mset_replicate_zero)
  moreover have "started_inv u" by (simp add: started_inv_def u)
  moreover have "fifo_inv u" using step_fifo [of s XStart u] assms by (simp add: exec_inv_def)
  ultimately show ?thesis
    using assms(1) account_inv_same [of s u] token_inv_same [of s u] by (simp add: exec_inv_def u)
qed

lemma started_inv_same:
  "started_inv s \<Longrightarrow> ec_gos t = ec_gos s \<Longrightarrow> ec_lua t = ec_lua s \<Longrightarrow> ec_conf t = ec_conf s \<Longrightarrow> started_inv t"
  by (simp add: started_inv_def)

lemma exec_inv_Call: "exec_inv s \<Longrightarrow> ec_Call c s = Some u \<Longrightarrow> exec_inv u"
proof -
  assume a: "exec_inv s" and u: "ec_Call c s = Some u"
  have "in_progress u = in_progress s" "exited u = exited s"
    by (simp_all add: in_progress_def exited_def workers_def ec_Call_frame [OF u])
  then have "account_inv u" "token_inv u" "started_inv u"
    using a account_inv_same [of s u] token_inv_same [of s u] started_inv_same [of s u]
    by (simp_all add: exec_inv_def ec_Call_frame [OF u])
  with step_fifo [of s "XCall c" u] a u show ?thesis by (simp add: exec_inv_def)
qed

lemma exec_inv_close:
  assumes "exec_inv s" and "close_begin s = Some u \<or> close_token s = Some u"
  shows "exec_inv u"
proof -
  have same: "ec_lua u = ec_lua s" "ec_gos u = ec_gos s" "ec_conf u = ec_conf s"
      "ec_taken u = ec_taken s" "ec_finished u = ec_finished s" "ec_reported u = ec_reported s"
      "ec_closed u = ec_closed s"
    using assms(2) by (auto simp: close_begin_def close_token_def split: if_splits option.splits nat.splits)
  then have p: "in_progress u = in_progress s" and x: "exited u = exited s"
    by (simp_all add: in_progress_def exited_def workers_def)
  have "fifo_inv u"
    using step_fifo [of s XCloseBegin u] step_fifo [of s XCloseToken u] assms by (auto simp: exec_inv_def)
  moreover have "account_inv u" "started_inv u"
    using assms(1) p same account_inv_same [of s u] started_inv_same [of s u] by (simp_all add: exec_inv_def)
  moreover have "token_inv u"
    using assms x same(3)
    by (auto simp: exec_inv_def token_inv_def close_begin_def close_token_def chan_simps
          split: if_splits option.splits nat.splits)
  ultimately show ?thesis by (simp add: exec_inv_def)
qed

lemma exec_inv_step: "exec_inv s \<Longrightarrow> ec_step e s = Some u \<Longrightarrow> exec_inv u"
  by (cases e)
     (auto intro: exec_inv_Start exec_inv_Call exec_inv_lua_take exec_inv_lua_work exec_inv_lua_exit
        exec_inv_go_take exec_inv_go_work exec_inv_go_exit exec_inv_close)

lemma exec_inv_new: "exec_inv (NewExecutionContext w cf)"
  by (auto simp: exec_inv_def fifo_inv_def account_inv_def started_inv_def token_inv_def in_progress_def
        exited_def workers_def NewExecutionContext_def sum_mset_replicate_zero)

lemma reached_exec_inv: "ec_reached w cf es s \<Longrightarrow> exec_inv s"
  unfolding ec_reached_def
  by (rule run_events_inv [where step = ec_step and I = exec_inv]) (auto intro: exec_inv_step exec_inv_new)

subsection \<open>Waiting for ever\<close>

definition full_for :: "'w call \<Rightarrow> 'w ec \<Rightarrow> bool" where
  "full_for d s \<longleftrightarrow>
     (if is_go d then ch_cap (ec_gcalls s) \<le> length (ch_buf (ec_gcalls s))
      else ch_cap (ec_lcalls s) \<le> length (ch_buf (ec_lcalls s)))"

definition blocked :: "'w worker \<Rightarrow> 'w ec \<Rightarrow> bool" where
  "blocked wk s \<longleftrightarrow> (\<exists>c d ds err. wk = Busy c (d # ds) err \<and> full_for d s)"

lemma full_for_Call: "full_for d s \<Longrightarrow> ec_Call d s = None"
  by (auto simp: full_for_def ec_Call_def chan_simps split: option.splits if_splits)

lemma full_for_mono:
  "full_for d s \<Longrightarrow> ec_Call c s = Some t \<Longrightarrow> full_for d t"
  by (auto simp: full_for_def ec_Call_def chan_simps split: if_splits option.splits)

lemma blocked_work: "blocked wk s \<Longrightarrow> work_step wk s = None"
  by (auto simp: blocked_def work_step_def full_for_Call)

lemma blocked_not_idle: "blocked wk s \<Longrightarrow> wk \<noteq> Idle \<and> wk \<noteq> NotStarted"
  by (auto simp: blocked_def)

definition all_blocked :: "'w ec \<Rightarrow> bool" where
  "all_blocked s \<longleftrightarrow> (\<forall>wk \<in> set (workers s). blocked wk s)"

lemma all_blocked_nth: "all_blocked s \<Longrightarrow> k < length (ec_gos s) \<Longrightarrow> blocked (ec_gos s ! k) s"
  by (simp add: all_blocked_def workers_def)

lemma all_blocked_cong:
  "all_blocked s \<Longrightarrow> workers t = workers s \<Longrightarrow> ec_lcalls t = ec_lcalls s \<Longrightarrow> ec_gcalls t = ec_gcalls s \<Longrightarrow>
     all_blocked t"
  by (simp only: all_blocked_def blocked_def full_for_def)

text \<open>With every worker blocked only callers and \<open>Close\<close> can take a step.\<close>

lemma all_blocked_None:
  assumes a: "all_blocked s"
  shows "ec_Start s = None" "lua_take s = None" "lua_work s = None" "lua_exit s = None"
    "go_take k s = None" "go_work k s = None" "go_exit k s = None"
proof -
  from a have l: "blocked (ec_lua s) s" by (simp add: all_blocked_def workers_def)
  show "ec_Start s = None" "lua_take s = None" "lua_work s = None" "lua_exit s = None"
    using blocked_not_idle [OF l] blocked_work [OF l]
    by (simp_all add: ec_Start_def lua_take_def lua_work_def lua_exit_def)
  show "go_take k s = None" "go_work k s = None" "go_exit k s = None"
    using blocked_not_idle [OF all_blocked_nth [OF a]] blocked_work [OF all_blocked_nth [OF a]]
    by (auto simp: go_take_def go_work_def go_exit_def)
qed

lemma close_frame:
  "close_begin s = Some t \<or> close_token s = Some t \<Longrightarrow>
     workers t = workers s \<and> ec_lcalls t = ec_lcalls s \<and> ec_gcalls t = ec_gcalls s \<and> ec_taken t = ec_taken s"
  by (auto simp: close_begin_def close_token_def workers_def split: if_splits option.splits nat.splits)

lemma all_blocked_step:
  assumes a: "all_blocked s" and e: "ec_step e s = Some t"
  shows "all_blocked t \<and> workers t = workers s \<and> ec_taken t = ec_taken s"
proof -
  from e all_blocked_None [OF a] consider c where "ec_Call c s = Some t"
    | "close_begin s = Some t \<or> close_token s = Some t"
    by (cases e) auto
  then show ?thesis
  proof cases
    case (1 c)
    then have w: "workers t = workers s" by (simp add: workers_def ec_Call_frame)
    moreover from w a have "all_blocked t"
      unfolding all_blocked_def blocked_def using full_for_mono [OF _ 1] by metis
    ultimately show ?thesis by (simp add: ec_Call_frame [OF 1])
  next
    case 2
    with close_frame [OF 2] all_blocked_cong [OF a] show ?thesis by auto
  qed
qed

lemma all_blocked_run:
  "all_blocked s \<Longrightarrow> run_events ec_step es s = Some t \<Longrightarrow> workers t = workers s \<and> ec_taken t = ec_taken s"
proof (induction es arbitrary: s)
  case Nil
  then show ?case by simp
next
  case (Cons e es)
  then obtain u where u: "ec_step e s = Some u" "run_events ec_step es u = Some t"
    by (auto split: option.splits)
  from all_blocked_step [OF Cons.prems(1) u(1)] Cons.IH [OF _ u(2)] show ?case by auto
qed

text \<open>The Lua goroutine waiting for room in the channel that only it empties.\<close>

definition lua_stuck :: "'w ec \<Rightarrow> bool" where
  "lua_stuck s \<longleftrightarrow> (\<exists>c d ds err. ec_lua s = Busy c (d # ds) err \<and> \<not> is_go d)
     \<and> ch_cap (ec_lcalls s) \<le> length (ch_buf (ec_lcalls s))"

lemma lua_stuck_blocked: "lua_stuck s \<Longrightarrow> blocked (ec_lua s) s"
  by (auto simp: lua_stuck_def blocked_def full_for_def)

lemma go_frame:
  "go_take k s = Some t \<Longrightarrow> ec_lua t = ec_lua s \<and> ec_lcalls t = ec_lcalls s"
  "go_exit k s = Some t \<Longrightarrow> ec_lua t = ec_lua s \<and> ec_lcalls t = ec_lcalls s"
  by (auto simp: go_take_def go_exit_def begin_call_def split: if_splits option.splits prod.splits)

lemma ec_Call_full:
  "ec_Call c s = Some t \<Longrightarrow> ch_cap (ec_lcalls s) \<le> length (ch_buf (ec_lcalls s)) \<Longrightarrow>
     ec_lcalls t = ec_lcalls s"
  by (auto simp: ec_Call_def chan_simps split: if_splits option.splits)

lemma go_work_full:
  assumes "go_work k s = Some t" and "ch_cap (ec_lcalls s) \<le> length (ch_buf (ec_lcalls s))"
  shows "ec_lua t = ec_lua s \<and> ec_lcalls t = ec_lcalls s"
proof -
  from assms(1) obtain wk u where u: "work_step (ec_gos s ! k) s = Some (wk, u)"
    and t: "t = u\<lparr>ec_gos := (ec_gos u)[k := wk]\<rparr>"
    by (auto simp: go_work_def split: if_splits option.splits)
  from u have "ec_lua u = ec_lua s \<and> ec_lcalls u = ec_lcalls s"
    by (cases rule: work_step_cases)
       (simp_all add: frame_simps ec_Call_frame(4) ec_Call_full [OF _ assms(2)])
  with t show ?thesis by simp
qed

lemma lua_stuck_step:
  assumes a: "lua_stuck s" and e: "ec_step e s = Some t"
  shows "lua_stuck t \<and> ec_lua t = ec_lua s \<and> ec_lcalls t = ec_lcalls s"
proof -
  note l = lua_stuck_blocked [OF a]
  have none: "ec_Start s = None" "lua_take s = None" "lua_work s = None" "lua_exit s = None"
    using blocked_not_idle [OF l] blocked_work [OF l]
    by (simp_all add: ec_Start_def lua_take_def lua_work_def lua_exit_def)
  from a have full: "ch_cap (ec_lcalls s) \<le> length (ch_buf (ec_lcalls s))" by (simp add: lua_stuck_def)
  have "ec_lua t = ec_lua s \<and> ec_lcalls t = ec_lcalls s"
  proof (cases e)
    case (XCall c)
    with e have c: "ec_Call c s = Some t" by simp
    from ec_Call_full [OF c full] ec_Call_frame(4) [OF c] show ?thesis by simp
  next
    case XCloseBegin
    with e show ?thesis using close_frame [of s t] by (simp add: workers_def)
  next
    case XCloseToken
    with e show ?thesis using close_frame [of s t] by (simp add: workers_def)
  next
    case (XGoTake k)
    with e show ?thesis using go_frame(1) [of k s t] by simp
  next
    case (XGoWork k)
    with e show ?thesis using go_work_full [OF _ full, of k t] by simp
  next
    case (XGoExit k)
    with e show ?thesis using go_frame(2) [of k s t] by simp
  qed (use e none in simp_all)
  with a show ?thesis by (simp add: lua_stuck_def)
qed

lemma lua_stuck_run:
  "lua_stuck s \<Longrightarrow> run_events ec_step es s = Some t \<Longrightarrow> ec_lua t = ec_lua s \<and> ec_lcalls t = ec_lcalls s"
proof (induction es arbitrary: s)
  case Nil
  then show ?case by simp
next
  case (Cons e es)
  then obtain u where u: "ec_step e s = Some u" "run_events ec_step es u = Some t"
    by (auto split: option.splits)
  from lua_stuck_step [OF Cons.prems(1) u(1)] Cons.IH [OF _ u(2)] show ?case by auto
qed

text \<open>Before \<open>Start\<close> nothing is taken from the channels.\<close>

definition unstarted :: "ec_config \<Rightarrow> 'w ec \<Rightarrow> bool" where
  "unstarted cf s \<longleftrightarrow> ec_lua s = NotStarted \<and> set (ec_gos s) \<subseteq> {NotStarted} \<and> ec_taken s = []
     \<and> ch_cap (ec_lcalls s) = cf_lua_size cf \<and> ch_cap (ec_gcalls s) = cf_go_size cf
     \<and> chan_ok (ec_lcalls s) \<and> chan_ok (ec_gcalls s)"

lemma unstarted_nth: "unstarted cf s \<Longrightarrow> k < length (ec_gos s) \<Longrightarrow> ec_gos s ! k = NotStarted"
  using nth_mem by (fastforce simp: unstarted_def)

lemma unstarted_step:
  assumes a: "unstarted cf s" and e: "ec_step e s = Some t" and "e \<noteq> XStart"
  shows "unstarted cf t"
proof -
  have l: "ec_lua s = NotStarted" using a by (simp add: unstarted_def)
  have none: "lua_take s = None" "lua_work s = None" "lua_exit s = None"
    "go_take k s = None" "go_work k s = None" "go_exit k s = None" for k
    using l unstarted_nth [OF a]
    by (auto simp: lua_take_def lua_work_def lua_exit_def go_take_def go_work_def go_exit_def work_step_def)
  from e none assms(3) consider (1) c where "ec_Call c s = Some t"
    | "close_begin s = Some t \<or> close_token s = Some t"
    by (cases e) auto
  then show ?thesis
  proof cases
    case (1 c)
    have "ch_cap (ec_lcalls t) = ch_cap (ec_lcalls s) \<and> ch_cap (ec_gcalls t) = ch_cap (ec_gcalls s)
      \<and> (chan_ok (ec_lcalls s) \<longrightarrow> chan_ok (ec_lcalls t)) \<and> (chan_ok (ec_gcalls s) \<longrightarrow> chan_ok (ec_gcalls t))"
      using 1 by (auto simp: ec_Call_def chan_simps chan_ok_def split: if_splits option.splits)
    with a show ?thesis by (simp add: unstarted_def ec_Call_frame [OF 1])
  next
    case 2
    with close_frame [OF 2] a show ?thesis by (simp add: unstarted_def workers_def)
  qed
qed

lemma unstarted_run:
  "unstarted cf s \<Longrightarrow> XStart \<notin> set es \<Longrightarrow> run_events ec_step es s = Some t \<Longrightarrow> unstarted cf t"
proof (induction es arbitrary: s)
  case Nil
  then show ?case by simp
next
  case (Cons e es)
  then obtain u where u: "ec_step e s = Some u" "run_events ec_step es u = Some t"
    by (auto split: option.splits)
  from Cons.prems(2) have e: "e \<noteq> XStart" by auto
  from unstarted_step [OF Cons.prems(1) u(1) e] Cons.IH [OF _ _ u(2)] Cons.prems(2) show ?case by auto
qed

lemma gone_count: "(\<Sum>wk \<in># mset xs. gone wk) + length (filter (\<lambda>wk. wk \<noteq> Exited) xs) = length xs"
  by (induction xs) (auto simp: gone_def)

subsection \<open>Properties\<close>

text \<open>
  C8: the calls of each kind run in the order in which \<open>Call\<close> accepted them, none is lost and none
  runs twice: what was accepted is what the goroutines have taken followed by what the channel
  holds; every taken call is in progress at one goroutine or has returned; and what
  \<open>config.OnError\<close> was told are the errors of the returned calls that have no handler of their own,
  each once, in the order of their return.
\<close>

theorem calls_accounted:
  assumes "ec_reached w cf es s"
  shows "filter (\<lambda>c. \<not> is_go c) (ec_accepted s)
      = filter (\<lambda>c. \<not> is_go c) (ec_taken s) @ ch_buf (ec_lcalls s)
    \<and> filter is_go (ec_accepted s) = filter is_go (ec_taken s) @ ch_buf (ec_gcalls s)
    \<and> mset (ec_taken s) = in_progress s + mset (map fst (ec_finished s))
    \<and> ec_reported s = concat (map uncaught (ec_finished s))"
  using reached_exec_inv [OF assms] by (simp add: exec_inv_def fifo_inv_def account_inv_def)

lemma calls_accounted_witness:
  "\<exists>s. ec_reached (0::nat) \<lparr>cf_lua_size = 2, cf_go_size = 2, cf_concurrency = 1\<rparr>
         [XStart, XCall (RaiseError ''e''), XLuaTake, XLuaWork] s
     \<and> ec_reported s = concat (map uncaught (ec_finished s)) \<and> ec_reported s = [''e'']"
proof -
  obtain s where r: "ec_reached (0::nat) \<lparr>cf_lua_size = 2, cf_go_size = 2, cf_concurrency = 1\<rparr>
         [XStart, XCall (RaiseError ''e''), XLuaTake, XLuaWork] s" and e: "ec_reported s = [''e'']"
    by (simp add: ec_reached_def NewExecutionContext_def ec_Start_def ec_Call_def RaiseError_def
          make_chan_def chan_put_def chan_send_def chan_get_def chan_recv_def lua_take_def begin_call_def
          lua_work_def work_step_def)
  from calls_accounted [OF r] r e show ?thesis by blast
qed

text \<open>
  C32: when \<open>Close\<close> has sent its last token, at most one goroutine is still there, and none once the
  token channel is empty: every goroutine takes exactly one token.
\<close>

theorem close_stops_workers:
  assumes "ec_reached w cf es s" and "ec_close_left s = Some 0"
  shows "length (filter (\<lambda>wk. wk \<noteq> Exited) (workers s)) = length (ch_buf (ec_exit s))
    \<and> length (ch_buf (ec_exit s)) \<le> 1"
proof -
  have i: "started_inv s" "token_inv s" using reached_exec_inv [OF assms(1)] by (simp_all add: exec_inv_def)
  then have "exited s + length (ch_buf (ec_exit s)) = length (workers s)"
    using assms(2) by (simp add: token_inv_def started_inv_def workers_def)
  moreover have "exited s + length (filter (\<lambda>wk. wk \<noteq> Exited) (workers s)) = length (workers s)"
    unfolding exited_def by (rule gone_count)
  ultimately show ?thesis using i(2) by (simp add: token_inv_def)
qed

lemma close_stops_workers_witness:
  "\<exists>s. ec_reached (0::nat) \<lparr>cf_lua_size = 2, cf_go_size = 2, cf_concurrency = 1\<rparr>
         [XStart, XCloseBegin, XCloseToken, XGoExit 0, XCloseToken, XLuaExit] s
     \<and> length (filter (\<lambda>wk. wk \<noteq> Exited) (workers s)) = 0"
proof -
  obtain s where r: "ec_reached (0::nat) \<lparr>cf_lua_size = 2, cf_go_size = 2, cf_concurrency = 1\<rparr>
         [XStart, XCloseBegin, XCloseToken, XGoExit 0, XCloseToken, XLuaExit] s"
    and e: "ec_close_left s = Some 0" "ch_buf (ec_exit s) = []"
    by (simp add: ec_reached_def NewExecutionContext_def ec_Start_def close_begin_def close_token_def
          make_chan_def chan_put_def chan_send_def chan_get_def chan_recv_def go_exit_def lua_exit_def)
  from close_stops_workers [OF r e(1)] r e(2) show ?thesis by auto
qed

text \<open>
  \<open>Close\<close> does not wait for the Lua goroutine.  The last token goes into the channel's buffer, and
  a goroutine that finds both a token and a call may take the call: \<open>Close\<close> has then sent all its
  tokens, and goes on to release the resources, while a Lua call begins to run.
\<close>

theorem close_returns_early:
  assumes "ec_close_left s = Some 1" and "ch_buf (ec_exit s) = []" and "\<not> ch_closed (ec_exit s)"
    and "0 < ch_cap (ec_exit s)" and "ec_lua s = Idle" and "ch_buf (ec_lcalls s) = c # cs" and "\<not> ec_closed s"
  shows "\<exists>t ds err. run_events ec_step [XCloseToken, XLuaTake] s = Some t
    \<and> ec_close_left t = Some 0 \<and> ec_lua t = Busy c ds err"
proof -
  obtain t1 where t1: "close_token s = Some t1" "ec_close_left t1 = Some 0" "ec_lua t1 = Idle"
    "ch_buf (ec_lcalls t1) = c # cs" "\<not> ec_closed t1"
    using assms by (simp add: close_token_def chan_put_def chan_send_def)
  obtain v ds err where b: "run_body c (ec_world t1) = (v, ds, err)" by (cases "run_body c (ec_world t1)")
  have "\<exists>t. lua_take t1 = Some t \<and> ec_close_left t = Some 0 \<and> ec_lua t = Busy c ds err"
    using t1 b by (simp add: lua_take_def chan_get_def chan_recv_def begin_call_def)
  with t1(1) show ?thesis by auto
qed

lemma close_returns_early_witness:
  "\<exists>s t ds err. ec_reached (0::nat) \<lparr>cf_lua_size = 2, cf_go_size = 2, cf_concurrency = 1\<rparr>
         [XStart, XCall (RaiseError ''e''), XCloseBegin, XCloseToken, XGoExit 0] s
     \<and> run_events ec_step [XCloseToken, XLuaTake] s = Some t
     \<and> ec_close_left t = Some 0 \<and> ec_lua t = Busy (RaiseError ''e'') ds err"
proof -
  obtain s where r: "ec_reached (0::nat) \<lparr>cf_lua_size = 2, cf_go_size = 2, cf_concurrency = 1\<rparr>
         [XStart, XCall (RaiseError ''e''), XCloseBegin, XCloseToken, XGoExit 0] s"
    and e: "ec_close_left s = Some 1" "ch_buf (ec_exit s) = []" "\<not> ch_closed (ec_exit s)"
      "0 < ch_cap (ec_exit s)" "ec_lua s = Idle" "ch_buf (ec_lcalls s) = RaiseError ''e'' # []" "\<not> ec_closed s"
    by (simp add: ec_reached_def NewExecutionContext_def ec_Start_def close_begin_def close_token_def
          make_chan_def chan_put_def chan_send_def chan_get_def chan_recv_def go_exit_def ec_Call_def
          RaiseError_def)
  from close_returns_early [OF e] r show ?thesis by blast
qed

text \<open>
  a Lua call that hands another Lua call to \<open>Call\<close> while the Lua channel is full stops the Lua
  goroutine for good: nobody else empties that channel, so in every continuation the goroutine
  stays where it is and the channel keeps its contents.
\<close>

theorem lua_self_deadlock:
  assumes "ec_lua s = Busy c (d # ds) err" and "\<not> is_go d"
    and "ch_cap (ec_lcalls s) \<le> length (ch_buf (ec_lcalls s))"
    and "run_events ec_step es s = Some t"
  shows "ec_lua t = Busy c (d # ds) err \<and> ec_lcalls t = ec_lcalls s"
  using lua_stuck_run [of s es t] assms by (auto simp: lua_stuck_def)

lemma lua_self_deadlock_witness:
  "\<exists>s t. ec_reached (0::nat) \<lparr>cf_lua_size = 1, cf_go_size = 1, cf_concurrency = 1\<rparr>
         [XStart, XCall (CallScoped (\<lambda>w. (w, [RaiseError ''e''], None))), XLuaTake, XCall (RaiseError ''f'')] s
     \<and> run_events ec_step [XCloseBegin, XCloseToken, XGoExit 0] s = Some t
     \<and> ec_lua t = Busy (CallScoped (\<lambda>w. (w, [RaiseError ''e''], None))) [RaiseError ''e''] None"
proof -
  obtain s t where r: "ec_reached (0::nat) \<lparr>cf_lua_size = 1, cf_go_size = 1, cf_concurrency = 1\<rparr>
         [XStart, XCall (CallScoped (\<lambda>w. (w, [RaiseError ''e''], None))), XLuaTake, XCall (RaiseError ''f'')] s"
    and e: "ec_lua s = Busy (CallScoped (\<lambda>w. (w, [RaiseError ''e''], None))) (RaiseError ''e'' # []) None"
      "\<not> is_go (RaiseError ''e'' :: nat call)" "ch_cap (ec_lcalls s) \<le> length (ch_buf (ec_lcalls s))"
      "run_events ec_step [XCloseBegin, XCloseToken, XGoExit 0] s = Some t"
    by (simp add: ec_reached_def NewExecutionContext_def ec_Start_def close_begin_def close_token_def
          make_chan_def chan_put_def chan_send_def chan_get_def chan_recv_def go_exit_def ec_Call_def
          RaiseError_def lua_take_def begin_call_def)
  from lua_self_deadlock [OF e] r e(4) show ?thesis by blast
qed

text \<open>
  when the Lua goroutine waits for room for a Go call and every Go goroutine waits for room for
  its callback, nothing is ever taken from either channel again.
\<close>

theorem circular_deadlock:
  assumes "list_all (\<lambda>wk. \<exists>c d ds err. wk = Busy c (d # ds) err \<and> full_for d s) (workers s)"
    and "run_events ec_step es s = Some t"
  shows "workers t = workers s \<and> ec_taken t = ec_taken s"
  using all_blocked_run [of s es t] assms by (simp add: all_blocked_def blocked_def list_all_iff)

lemma circular_deadlock_witness:
  "\<exists>s t. ec_reached (0::nat) \<lparr>cf_lua_size = 1, cf_go_size = 1, cf_concurrency = 1\<rparr>
         [XStart, XCall (CallGo (\<lambda>w. (w, [RaiseError ''e''], None))), XGoTake 0,
          XCall (CallScoped (\<lambda>w. (w, [CallGo (\<lambda>w. (w, [], None))], None))), XLuaTake,
          XCall (RaiseError ''f''), XCall (CallGo (\<lambda>w. (w, [], None)))] s
     \<and> run_events ec_step [XCloseBegin, XCloseToken] s = Some t
     \<and> ec_taken t = ec_taken s"
proof -
  obtain s t where r: "ec_reached (0::nat) \<lparr>cf_lua_size = 1, cf_go_size = 1, cf_concurrency = 1\<rparr>
         [XStart, XCall (CallGo (\<lambda>w. (w, [RaiseError ''e''], None))), XGoTake 0,
          XCall (CallScoped (\<lambda>w. (w, [CallGo (\<lambda>w. (w, [], None))], None))), XLuaTake,
          XCall (RaiseError ''f''), XCall (CallGo (\<lambda>w. (w, [], None)))] s"
    and e: "list_all (\<lambda>wk. \<exists>c d ds err. wk = Busy c (d # ds) err \<and> full_for d s) (workers s)"
      "run_events ec_step [XCloseBegin, XCloseToken] s = Some t"
    by (simp add: ec_reached_def NewExecutionContext_def ec_Start_def close_begin_def close_token_def
          make_chan_def chan_put_def chan_send_def chan_get_def chan_recv_def go_take_def ec_Call_def
          RaiseError_def lua_take_def begin_call_def workers_def full_for_def)
  from circular_deadlock [OF e] r e(2) show ?thesis by blast
qed

text \<open>
  a script that runs before \<open>Start\<close> can hand over no more calls than the channels hold: until then
  the accepted calls of each kind are at most the configured sizes, so the next \<open>Call\<close> blocks the
  script, and with it the \<open>Start\<close> that would let it go on.
\<close>

theorem calls_before_start:
  assumes "ec_reached w cf es s" and "XStart \<notin> set es"
  shows "length (filter (\<lambda>c. \<not> is_go c) (ec_accepted s)) \<le> cf_lua_size cf
    \<and> length (filter is_go (ec_accepted s)) \<le> cf_go_size cf
    \<and> (is_go c \<and> length (filter is_go (ec_accepted s)) = cf_go_size cf \<longrightarrow> ec_Call c s = None)"
proof -
  have "unstarted cf (NewExecutionContext w cf)"
    by (auto simp: unstarted_def NewExecutionContext_def chan_ok_def)
  with assms have u: "unstarted cf s" unfolding ec_reached_def by (blast intro: unstarted_run)
  have f: "fifo_inv s" using reached_exec_inv [OF assms(1)] by (simp add: exec_inv_def)
  from u f show ?thesis
    by (auto simp: unstarted_def fifo_inv_def chan_ok_def ec_Call_def chan_simps split: option.splits)
qed

lemma calls_before_start_witness:
  "\<exists>s. ec_reached (0::nat) \<lparr>cf_lua_size = 1, cf_go_size = 1, cf_concurrency = 1\<rparr>
         [XCall (CallGo (\<lambda>w. (w, [], None)))] s
     \<and> ec_Call (CallGo (\<lambda>w. (w, [], None))) s = None"
proof -
  obtain s where r: "ec_reached (0::nat) \<lparr>cf_lua_size = 1, cf_go_size = 1, cf_concurrency = 1\<rparr>
         [XCall (CallGo (\<lambda>w. (w, [], None)))] s" and e: "length (filter is_go (ec_accepted s)) = 1"
    by (simp add: ec_reached_def NewExecutionContext_def make_chan_def chan_put_def chan_send_def ec_Call_def)
  from calls_before_start [OF r, of "CallGo (\<lambda>w. (w, [], None))"] r e show ?thesis by auto
qed

text \<open>
  C17: \<open>GoFunctionCallback\<close> calls back exactly once: the Go goroutine that takes it runs the function
  once, hands over one Lua call of the callback, with the error or with nil and the result, and
  returns without reporting an error.
\<close>

theorem callback_exactly_once:
  assumes "k < length (ec_gos s)" and "ec_gos s ! k = Idle" and "\<not> ec_closed s"
    and "chan_get (ec_gcalls s) = Some (GoFunctionCallback cb fn, ch)"
    and "chan_put cbcall (ec_lcalls s) = Some lch"
    and "cbcall = CallLua (map_option (\<lambda>f. f (case snd (fn (ec_world s)) of
                                               Inl err \<Rightarrow> [AError err] | Inr v \<Rightarrow> [ANil, AValue v])) cb)"
  shows "\<exists>t. run_events ec_step [XGoTake k, XGoWork k, XGoWork k] s = Some t
    \<and> ec_world t = fst (fn (ec_world s)) \<and> ec_gos t = ec_gos s
    \<and> ec_lcalls t = lch \<and> ch_buf (ec_lcalls t) = ch_buf (ec_lcalls s) @ [cbcall]
    \<and> ec_gcalls t = ch \<and> ec_reported t = ec_reported s"
proof -
  obtain w r where fn: "fn (ec_world s) = (w, r)" by (cases "fn (ec_world s)")
  have body: "run_body (GoFunctionCallback cb fn) (ec_world s) = (w, [cbcall], None)"
    using fn assms(6) by (cases r) (simp_all add: GoFunctionCallback_def)
  have ng: "\<not> is_go cbcall" using assms(6) by simp
  have "list_update (ec_gos s) k Idle = ec_gos s" using assms(2) list_update_id [of "ec_gos s" k] by simp
  then show ?thesis
    using assms(1-5) fn body ng
    by (simp add: go_take_def begin_call_def go_work_def work_step_def ec_Call_def)
       (simp add: chan_simps)
qed

lemma callback_exactly_once_witness:
  "\<exists>s t. ec_reached (0::nat) \<lparr>cf_lua_size = 1, cf_go_size = 1, cf_concurrency = 1\<rparr>
         [XStart, XCall (GoFunctionCallback None (\<lambda>w. (w + 1, Inr True)))] s
     \<and> run_events ec_step [XGoTake 0, XGoWork 0, XGoWork 0] s = Some t
     \<and> ec_world t = 1 \<and> ch_buf (ec_lcalls t) = [CallLua None]"
proof -
  let ?c = "GoFunctionCallback (None :: (bool lua_arg list \<Rightarrow> nat body) option) (\<lambda>w. (w + 1, Inr True))"
  obtain s ch lch where r: "ec_reached (0::nat) \<lparr>cf_lua_size = 1, cf_go_size = 1, cf_concurrency = 1\<rparr>
         [XStart, XCall ?c] s"
    and e: "0 < length (ec_gos s)" "ec_gos s ! 0 = Idle" "\<not> ec_closed s"
      "chan_get (ec_gcalls s) = Some (?c, ch)" "chan_put (CallLua None) (ec_lcalls s) = Some lch"
      "ec_world s = 0" "ch_buf (ec_lcalls s) = []"
    by (simp add: ec_reached_def NewExecutionContext_def ec_Start_def make_chan_def chan_put_def
          chan_send_def chan_get_def chan_recv_def ec_Call_def GoFunctionCallback_def)
  from callback_exactly_once [OF e(1-5)] e(6,7) r show ?thesis by auto
qed

end
