(* ===== verification/Lua_Heap.thy ===== *)
theory Lua_Heap
  imports Complex_Main "HOL-Library.List_Lexorder" "HOL-Library.Char_ord" "HOL-Library.AList" Prelude
begin

text \<open>
  Lua values and the interface of the interpreter's tables.  The interpreter is not part of the
  repository, so the operations on its tables and user data are a record of functions
  over a heap type \<open>'h\<close> of its own, and what the program relies on is the locale \<open>lua_heap\<close>: raw
  access agrees with iteration, a new table is fresh and empty, a write changes one key of one
  table, and a table filled by \<open>Append\<close>, or at the indices 1, 2, ... one after the other, iterates over its
  values in order.

  A finite float64 is a rational number; the program's own arithmetic on numbers stays in the
  range where float64 is exact.
\<close>

datatype lua_number = Fin rat | PosInf | NegInf | NaN

type_synonym addr = nat

datatype lval =
    LNil | LBool bool | LNumber lua_number | LString string | LFunction addr
  | LUserData addr | LThread addr | LTable addr | LChannel addr

datatype lua_type =
    LTNil | LTBool | LTNumber | LTString | LTFunction | LTUserData | LTThread | LTTable | LTChannel

fun ltype :: "lval \<Rightarrow> lua_type" where
  "ltype LNil = LTNil"
| "ltype (LBool b) = LTBool"
| "ltype (LNumber x) = LTNumber"
| "ltype (LString s) = LTString"
| "ltype (LFunction a) = LTFunction"
| "ltype (LUserData a) = LTUserData"
| "ltype (LThread a) = LTThread"
| "ltype (LTable a) = LTTable"
| "ltype (LChannel a) = LTChannel"

record ('h, 'u) lua_api =
  la_ok :: "'h \<Rightarrow> bool"
  la_live :: "'h \<Rightarrow> addr set"
  la_new_table :: "'h \<Rightarrow> addr \<times> 'h"
  la_entries :: "'h \<Rightarrow> addr \<Rightarrow> (lval \<times> lval) list"
  la_get :: "'h \<Rightarrow> addr \<Rightarrow> lval \<Rightarrow> lval"
  la_len :: "'h \<Rightarrow> addr \<Rightarrow> nat"
  la_set :: "addr \<Rightarrow> lval \<Rightarrow> lval \<Rightarrow> 'h \<Rightarrow> 'h"
  la_append :: "addr \<Rightarrow> lval \<Rightarrow> 'h \<Rightarrow> 'h"
  la_new_udata :: "'u \<Rightarrow> 'h \<Rightarrow> addr \<times> 'h"
  la_udata :: "'h \<Rightarrow> addr \<Rightarrow> 'u"
  la_tostring :: "lval \<Rightarrow> string"

text \<open>A Lua list: the keys are 1, 2, ..., in this order.\<close>

definition index_key :: "nat \<Rightarrow> lval" where
  "index_key i = LNumber (Fin (of_nat i))"

fun seq_from :: "nat \<Rightarrow> lval list \<Rightarrow> (lval \<times> lval) list" where
  "seq_from i [] = []"
| "seq_from i (v # vs) = (index_key i, v) # seq_from (Suc i) vs"

definition lua_seq :: "lval list \<Rightarrow> (lval \<times> lval) list" where
  "lua_seq vs = seq_from 1 vs"

lemma seq_from_append: "seq_from i (vs @ ws) = seq_from i vs @ seq_from (i + length vs) ws"
  by (induction vs arbitrary: i) auto

lemma lua_seq_snoc: "lua_seq (vs @ [v]) = lua_seq vs @ [(index_key (Suc (length vs)), v)]"
  by (simp add: lua_seq_def seq_from_append)

lemma map_snd_seq_from [simp]: "map snd (seq_from i vs) = vs"
  by (induction vs arbitrary: i) auto

lemma index_key_inject [simp]: "index_key i = index_key j \<longleftrightarrow> i = j"
  by (simp add: index_key_def)

lemma fst_seq_from: "(k, v) \<in> set (seq_from i vs) \<Longrightarrow> \<exists>j. k = index_key j \<and> i \<le> j \<and> j < i + length vs"
  by (induction vs arbitrary: i) fastforce+

text \<open>A value does not refer to a table that does not exist.\<close>

definition lval_live :: "('h, 'u) lua_api \<Rightarrow> 'h \<Rightarrow> lval \<Rightarrow> bool" where
  "lval_live api h v = (case v of LTable b \<Rightarrow> b \<in> la_live api h | _ \<Rightarrow> True)"

definition key_ok :: "lval \<Rightarrow> bool" where
  "key_ok k \<longleftrightarrow> k \<noteq> LNil \<and> k \<noteq> LNumber NaN"

text \<open>\<open>la_ok\<close> is the interpreter's own invariant of its heap.\<close>

locale lua_heap =
  fixes api :: "('h, 'u) lua_api"
  assumes live_finite: "la_ok api h \<Longrightarrow> finite (la_live api h)"
    and entries_distinct: "la_ok api h \<Longrightarrow> distinct (map fst (la_entries api h a))"
    and entries_ok: "la_ok api h \<Longrightarrow> (k, v) \<in> set (la_entries api h a) \<Longrightarrow>
      key_ok k \<and> v \<noteq> LNil \<and> lval_live api h k \<and> lval_live api h v"
    and get_entries: "la_ok api h \<Longrightarrow>
      la_get api h a k = (case map_of (la_entries api h a) k of None \<Rightarrow> LNil | Some v \<Rightarrow> v)"
    and new_table: "la_ok api h \<Longrightarrow> la_new_table api h = (a, h') \<Longrightarrow>
      la_ok api h' \<and> a \<notin> la_live api h \<and> la_live api h' = insert a (la_live api h)
      \<and> la_entries api h' a = [] \<and> (\<forall>b. b \<noteq> a \<longrightarrow> la_entries api h' b = la_entries api h b)"
    and set_ok: "la_ok api h \<Longrightarrow> a \<in> la_live api h \<Longrightarrow> key_ok k \<Longrightarrow> lval_live api h k \<Longrightarrow>
      lval_live api h v \<Longrightarrow> la_ok api (la_set api a k v h)"
    and set_entries: "la_ok api h \<Longrightarrow> a \<in> la_live api h \<Longrightarrow> key_ok k \<Longrightarrow> v \<noteq> LNil \<Longrightarrow>
      map_of (la_entries api (la_set api a k v h) a) = (map_of (la_entries api h a))(k \<mapsto> v)"
    and set_nil: "la_ok api h \<Longrightarrow> a \<in> la_live api h \<Longrightarrow> key_ok k \<Longrightarrow>
      map_of (la_entries api (la_set api a k LNil h) a) = (map_of (la_entries api h a))(k := None)"
    and set_other: "b \<noteq> a \<Longrightarrow> la_entries api (la_set api a k v h) b = la_entries api h b"
    and set_live: "la_live api (la_set api a k v h) = la_live api h"
    and append_ok: "la_ok api h \<Longrightarrow> a \<in> la_live api h \<Longrightarrow> lval_live api h v \<Longrightarrow>
      la_ok api (la_append api a v h)"
    and append_entries: "la_ok api h \<Longrightarrow> a \<in> la_live api h \<Longrightarrow> la_entries api h a = lua_seq vs \<Longrightarrow>
      v \<noteq> LNil \<Longrightarrow> la_entries api (la_append api a v h) a = lua_seq (vs @ [v])"
    and append_nil: "la_append api a LNil h = h"
    and append_other: "b \<noteq> a \<Longrightarrow> la_entries api (la_append api a v h) b = la_entries api h b"
    and append_live: "la_live api (la_append api a v h) = la_live api h"
    and len_seq: "la_ok api h \<Longrightarrow> la_entries api h a = lua_seq vs \<Longrightarrow> la_len api h a = length vs"
    and new_udata: "la_ok api h \<Longrightarrow> la_new_udata api u h = (a, h') \<Longrightarrow>
      la_ok api h' \<and> la_udata api h' a = u \<and> la_live api h' = la_live api h
      \<and> la_entries api h' = la_entries api h \<and> (\<forall>b. b \<noteq> a \<longrightarrow> la_udata api h' b = la_udata api h b)"
    and tostring_string: "la_tostring api (LString s) = s"
    and set_next: "la_ok api h \<Longrightarrow> a \<in> la_live api h \<Longrightarrow> la_entries api h a = lua_seq vs \<Longrightarrow> v \<noteq> LNil \<Longrightarrow>
      la_entries api (la_set api a (index_key (Suc (length vs))) v h) a = lua_seq (vs @ [v])"
    and len_border: "la_ok api h \<Longrightarrow> 0 < la_len api h a \<Longrightarrow> la_get api h a (index_key (la_len api h a)) \<noteq> LNil"
begin

lemma get_seq_gen:
  "j < length vs \<Longrightarrow> map_of (seq_from i vs) (index_key (i + j)) = Some (vs ! j)"
proof (induction vs arbitrary: i j)
  case Nil
  then show ?case by simp
next
  case (Cons v vs)
  from Cons.IH [of "j - 1" "Suc i"] Cons.prems show ?case by (cases j) auto
qed

text \<open>Reading a list back by index.\<close>

lemma get_seq: "la_ok api h \<Longrightarrow> la_entries api h a = lua_seq vs \<Longrightarrow> j < length vs \<Longrightarrow>
    la_get api h a (index_key (Suc j)) = vs ! j"
  using get_seq_gen [of j vs 1] by (simp add: get_entries lua_seq_def)

lemma set_get: "la_ok api h \<Longrightarrow> a \<in> la_live api h \<Longrightarrow> key_ok k \<Longrightarrow> lval_live api h k \<Longrightarrow>
    lval_live api h v \<Longrightarrow> v \<noteq> LNil \<Longrightarrow>
    la_get api (la_set api a k v h) a k' = (if k' = k then v else la_get api h a k')"
  by (simp add: get_entries set_entries set_ok)

lemma live_cong: "la_live api h' = la_live api h \<Longrightarrow> lval_live api h' v = lval_live api h v"
  by (simp add: lval_live_def split: lval.splits)

text \<open>Filling a table with \<open>Append\<close>; nil is skipped.\<close>

lemma append_all:
  assumes "la_ok api h" and "a \<in> la_live api h" and "list_all (lval_live api h) ws"
    and "la_entries api h a = lua_seq vs"
  shows "la_entries api (fold (la_append api a) ws h) a = lua_seq (vs @ filter (\<lambda>v. v \<noteq> LNil) ws)
    \<and> (\<forall>b. b \<noteq> a \<longrightarrow> la_entries api (fold (la_append api a) ws h) b = la_entries api h b)
    \<and> la_live api (fold (la_append api a) ws h) = la_live api h
    \<and> la_ok api (fold (la_append api a) ws h)"
  using assms
proof (induction ws arbitrary: h vs)
  case Nil
  then show ?case by simp
next
  case (Cons w ws)
  let ?h = "la_append api a w h"
  have ok: "la_ok api ?h" and live: "la_live api ?h = la_live api h"
    using Cons.prems by (simp_all add: append_ok append_live)
  have lv: "list_all (lval_live api ?h) ws"
    using Cons.prems(3) by (simp add: list_all_iff live_cong [OF live])
  show ?case
  proof (cases "w = LNil")
    case True
    with Cons show ?thesis by (simp add: append_nil)
  next
    case False
    then have "la_entries api ?h a = lua_seq (vs @ [w])"
      using Cons.prems by (simp add: append_entries)
    from Cons.IH [OF ok _ lv this] False Cons.prems(2) live show ?thesis by (simp add: append_other)
  qed
qed

end

subsection \<open>A heap that satisfies the laws\<close>

text \<open>Tables as association lists with distinct keys, in a heap of consecutive addresses.\<close>

record 'u alist_heap =
  ah_next :: addr
  ah_tables :: "addr \<Rightarrow> (lval \<times> lval) list"
  ah_udata :: "addr \<Rightarrow> 'u"
  ah_unext :: addr

fun border :: "nat \<Rightarrow> nat \<Rightarrow> lval list \<Rightarrow> nat" where
  "border 0 i ks = i"
| "border (Suc n) i ks = (if index_key (Suc i) \<in> set ks then border n (Suc i) ks else i)"

definition assoc_set :: "lval \<Rightarrow> lval \<Rightarrow> (lval \<times> lval) list \<Rightarrow> (lval \<times> lval) list" where
  "assoc_set k v es = (if v = LNil then filter (\<lambda>e. fst e \<noteq> k) es else AList.update k v es)"

definition assoc_len :: "(lval \<times> lval) list \<Rightarrow> nat" where
  "assoc_len es = border (length es) 0 (map fst es)"

definition below :: "addr \<Rightarrow> lval \<Rightarrow> bool" where
  "below n v = (case v of LTable b \<Rightarrow> b < n | _ \<Rightarrow> True)"

definition alist_ok :: "'u alist_heap \<Rightarrow> bool" where
  "alist_ok h \<longleftrightarrow>
     (\<forall>a. distinct (map fst (ah_tables h a))
        \<and> list_all (\<lambda>(k, v). key_ok k \<and> v \<noteq> LNil \<and> below (ah_next h) k \<and> below (ah_next h) v) (ah_tables h a)
        \<and> (ah_next h \<le> a \<longrightarrow> ah_tables h a = []))"

definition alist_api :: "(lval \<Rightarrow> string) \<Rightarrow> ('u alist_heap, 'u) lua_api" where
  "alist_api str =
     \<lparr>la_ok = alist_ok,
      la_live = (\<lambda>h. {..<ah_next h}),
      la_new_table = (\<lambda>h. (ah_next h, h\<lparr>ah_next := Suc (ah_next h), ah_tables := (ah_tables h)(ah_next h := [])\<rparr>)),
      la_entries = ah_tables,
      la_get = (\<lambda>h a k. case map_of (ah_tables h a) k of None \<Rightarrow> LNil | Some v \<Rightarrow> v),
      la_len = (\<lambda>h a. assoc_len (ah_tables h a)),
      la_set = (\<lambda>a k v h. h\<lparr>ah_tables := (ah_tables h)(a := assoc_set k v (ah_tables h a))\<rparr>),
      la_append = (\<lambda>a v h. if v = LNil then h else
        h\<lparr>ah_tables := (ah_tables h)(a := assoc_set (index_key (Suc (assoc_len (ah_tables h a)))) v (ah_tables h a))\<rparr>),
      la_new_udata = (\<lambda>u h. (ah_unext h, h\<lparr>ah_unext := Suc (ah_unext h),
        ah_udata := (ah_udata h)(ah_unext h := u)\<rparr>)),
      la_udata = ah_udata,
      la_tostring = (\<lambda>v. case v of LString s \<Rightarrow> s | _ \<Rightarrow> str v)\<rparr>"

lemma fst_seq_from_upt: "map fst (seq_from i vs) = map index_key [i..<i + length vs]"
  by (induction vs arbitrary: i) (auto simp: upt_rec)

lemma border_upt: "i + n = m \<Longrightarrow> border n i (map index_key [1..<Suc m]) = m"
  by (induction n arbitrary: i) (auto simp: image_iff)

lemma length_seq_from [simp]: "length (seq_from i vs) = length vs"
  by (induction vs arbitrary: i) auto

lemma assoc_len_seq: "assoc_len (lua_seq vs) = length vs"
  using border_upt [of 0 "length vs" "length vs"]
  by (simp add: assoc_len_def lua_seq_def fst_seq_from_upt)

lemma key_ok_index [simp]: "key_ok (index_key i)"
  by (simp add: key_ok_def index_key_def)

lemma assoc_set_distinct: "distinct (map fst es) \<Longrightarrow> distinct (map fst (assoc_set k v es))"
  by (auto simp: assoc_set_def distinct_update distinct_map_filter)

lemma assoc_set_mem: "(k', v') \<in> set (assoc_set k v es) \<Longrightarrow> (k', v') \<in> set es \<or> k' = k \<and> v' = v \<and> v \<noteq> LNil"
proof (induction es)
  case Nil
  then show ?case by (auto simp: assoc_set_def split: if_splits)
next
  case (Cons e es)
  then show ?case by (cases e) (auto simp: assoc_set_def split: if_splits)
qed

lemma assoc_set_seq:
  "v \<noteq> LNil \<Longrightarrow> assoc_set (index_key (Suc (length vs))) v (lua_seq vs) = lua_seq (vs @ [v])"
proof -
  have "i + length vs = n \<Longrightarrow> AList.update (index_key n) v (seq_from i vs) = seq_from i vs @ [(index_key n, v)]" for i n
    by (induction vs arbitrary: i) auto
  from this [of 1 "Suc (length vs)"] show "v \<noteq> LNil \<Longrightarrow> ?thesis"
    by (simp add: assoc_set_def lua_seq_snoc) (simp add: lua_seq_def)
qed

lemma map_of_filter_key: "map_of (filter (\<lambda>e. fst e \<noteq> k) es) = (map_of es)(k := None)"
  by (induction es) auto

lemma below_mono: "below n v \<Longrightarrow> below (Suc n) v"
  by (auto simp: below_def split: lval.splits)

lemma alist_ok_new:
  "alist_ok h \<Longrightarrow> alist_ok (h\<lparr>ah_next := Suc (ah_next h), ah_tables := (ah_tables h)(ah_next h := [])\<rparr>)"
  by (auto simp: alist_ok_def list_all_iff) (blast intro: below_mono)+

lemma alist_ok_set:
  assumes "alist_ok h" and "a < ah_next h" and "key_ok k" and "below (ah_next h) k" and "below (ah_next h) v"
  shows "alist_ok (h\<lparr>ah_tables := (ah_tables h)(a := assoc_set k v (ah_tables h a))\<rparr>)"
  using assms by (auto simp: alist_ok_def list_all_iff assoc_set_distinct dest!: assoc_set_mem)

lemma alist_api_simps:
  "la_ok (alist_api str) = alist_ok" "la_live (alist_api str) h = {..<ah_next h}"
  "la_entries (alist_api str) = ah_tables"
  "la_get (alist_api str) h a k = (case map_of (ah_tables h a) k of None \<Rightarrow> LNil | Some v \<Rightarrow> v)"
  "la_len (alist_api str) h a = assoc_len (ah_tables h a)"
  "la_new_table (alist_api str) h =
     (ah_next h, h\<lparr>ah_next := Suc (ah_next h), ah_tables := (ah_tables h)(ah_next h := [])\<rparr>)"
  "la_set (alist_api str) a k v h = h\<lparr>ah_tables := (ah_tables h)(a := assoc_set k v (ah_tables h a))\<rparr>"
  "la_append (alist_api str) a v h = (if v = LNil then h else
     la_set (alist_api str) a (index_key (Suc (assoc_len (ah_tables h a)))) v h)"
  "la_new_udata (alist_api str) u h =
     (ah_unext h, h\<lparr>ah_unext := Suc (ah_unext h), ah_udata := (ah_udata h)(ah_unext h := u)\<rparr>)"
  "la_udata (alist_api str) = ah_udata"
  "la_tostring (alist_api str) (LString s) = s"
  by (simp_all add: alist_api_def)

lemma alist_live: "lval_live (alist_api str) h v = below (ah_next h) v"
  by (simp add: lval_live_def below_def alist_api_simps split: lval.splits)

lemma below_index [simp]: "below n (index_key i)"
  by (simp add: below_def index_key_def)

lemma border_mem: "border n i ks = i \<or> index_key (border n i ks) \<in> set ks"
proof (induction n i ks rule: border.induct)
  case (2 n i ks)
  then show ?case by (cases "index_key (Suc i) \<in> set ks") auto
qed simp

lemma assoc_len_border: "0 < assoc_len es \<Longrightarrow> index_key (assoc_len es) \<in> fst ` set es"
  using border_mem [of "length es" 0 "map fst es"] by (auto simp: assoc_len_def)

interpretation alist: lua_heap "alist_api str" for str :: "lval \<Rightarrow> string"
proof (unfold_locales, goal_cases)
  case (3 h k v a)
  then show ?case by (auto simp: alist_api_simps alist_live alist_ok_def list_all_iff)
next
  case (5 h a h')
  then show ?case by (auto simp: alist_api_simps alist_ok_new)
next
  case (6 h a k v)
  then show ?case by (simp add: alist_api_simps alist_live alist_ok_set)
next
  case (7 h a k v)
  then show ?case by (simp add: alist_api_simps assoc_set_def update_conv')
next
  case (8 h a k)
  then show ?case by (auto simp: alist_api_simps assoc_set_def map_of_filter_key)
next
  case (11 h a v)
  then show ?case by (simp add: alist_api_simps alist_live alist_ok_set)
next
  case (12 h a vs v)
  then show ?case by (simp add: alist_api_simps assoc_len_seq assoc_set_seq)
next
  case (17 h u a h')
  then show ?case by (auto simp: alist_api_simps alist_ok_def)
next
  case (20 h a)
  from assoc_len_border [of "ah_tables h a"] 20(2) obtain v where
    "(index_key (assoc_len (ah_tables h a)), v) \<in> set (ah_tables h a)" by (auto simp: alist_api_simps)
  with 20(1) show ?case by (fastforce simp: alist_api_simps alist_ok_def list_all_iff)
qed (auto simp: alist_api_simps assoc_len_seq assoc_set_seq alist_ok_def)

end
