(* ===== verification/Json.thy ===== *)
theory Json
  imports Lua_Heap "HOL-Library.Multiset"
begin

text \<open>
  \<open>pkg/core/json/json.go\<close>: conversion between Lua values and JSON.  A JSON text is modelled by
  its tree, the value Go's \<open>encoding/json\<close> reads from it or writes for it; \<open>lit s\<close> is the outcome of
  that library for the raw text \<open>s\<close> between two quotes.  \<open>visited\<close> is one Go map shared by the whole
  traversal, so it is threaded through as a state.
\<close>

datatype json =
    JNull | JBool bool | JNum lua_number | JStr string | JArr "json list" | JObj "(string \<times> json) list"

datatype enc_error =
    ErrNested | ErrSparseArray | ErrInvalidKeys | InvalidType lua_type | UnsupportedValue | Foreign string

datatype udata_json = UD_Stringer string | UD_Marshaler "enc_error + json" | UD_Other

type_synonym enc_state = "(enc_error + json) \<times> addr list"

subsection \<open>Encoding\<close>

fun scan_array :: "nat \<Rightarrow> (lval \<times> lval) list \<Rightarrow> enc_error + lval list" where
  "scan_array i [] = Inr []"
| "scan_array i ((k, v) # es) =
     (if ltype k \<noteq> LTNumber then Inl ErrInvalidKeys
      else if k \<noteq> index_key i then Inl ErrSparseArray
      else (case scan_array (Suc i) es of Inl e \<Rightarrow> Inl e | Inr vs \<Rightarrow> Inr (v # vs)))"

fun scan_object :: "(lval \<times> lval) list \<Rightarrow> enc_error + (string \<times> lval) list" where
  "scan_object [] = Inr []"
| "scan_object ((k, v) # es) =
     (case k of
        LString s \<Rightarrow> (case scan_object es of Inl e \<Rightarrow> Inl e | Inr kvs \<Rightarrow> Inr ((s, v) # kvs))
      | _ \<Rightarrow> Inl ErrInvalidKeys)"

text \<open>\<open>json.Marshal\<close> of a slice: element after element, up to the first error.\<close>

fun marshal_all :: "(lval \<Rightarrow> addr list \<Rightarrow> enc_state option) \<Rightarrow> lval list \<Rightarrow> addr list \<Rightarrow>
    ((enc_error + json list) \<times> addr list) option" where
  "marshal_all f [] vis = Some (Inr [], vis)"
| "marshal_all f (v # vs) vis =
     (case f v vis of
        None \<Rightarrow> None
      | Some (Inl e, vis1) \<Rightarrow> Some (Inl e, vis1)
      | Some (Inr j, vis1) \<Rightarrow>
          (case marshal_all f vs vis1 of
             None \<Rightarrow> None
           | Some (Inl e, vis2) \<Rightarrow> Some (Inl e, vis2)
           | Some (Inr js, vis2) \<Rightarrow> Some (Inr (j # js), vis2)))"

definition marshal_table ::
    "('h, 'u) lua_api \<Rightarrow> 'h \<Rightarrow> (lval \<Rightarrow> addr list \<Rightarrow> enc_state option) \<Rightarrow> addr \<Rightarrow> addr list \<Rightarrow> enc_state option" where
  "marshal_table api h f a vis =
     (case la_entries api h a of
        [] \<Rightarrow> Some (Inr (JArr []), vis)
      | (k, v) # es \<Rightarrow>
          (case ltype k of
             LTNumber \<Rightarrow>
               (case scan_array 1 (la_entries api h a) of
                  Inl e \<Rightarrow> Some (Inl e, vis)
                | Inr vs \<Rightarrow> map_option (map_prod (map_sum id JArr) id) (marshal_all f vs vis))
           | LTString \<Rightarrow>
               (case scan_object (la_entries api h a) of
                  Inl e \<Rightarrow> Some (Inl e, vis)
                | Inr kvs \<Rightarrow>
                    (let s = sort_key fst kvs in
                     map_option (map_prod (map_sum id (\<lambda>js. JObj (zip (map fst s) js))) id)
                       (marshal_all f (map snd s) vis)))
           | _ \<Rightarrow> Some (Inl ErrInvalidKeys, vis)))"

text \<open>\<open>Value.MarshalJSON\<close>; the first argument after the parameters bounds the depth.\<close>

primrec MarshalJSON ::
    "('h, 'u) lua_api \<Rightarrow> ('u \<Rightarrow> udata_json) \<Rightarrow> (string \<Rightarrow> enc_error + json) \<Rightarrow> 'h \<Rightarrow>
     nat \<Rightarrow> lval \<Rightarrow> addr list \<Rightarrow> enc_state option" where
  "MarshalJSON api uj lit h 0 v vis = None"
| "MarshalJSON api uj lit h (Suc n) v vis =
     (case v of
        LBool b \<Rightarrow> Some (Inr (JBool b), vis)
      | LNumber x \<Rightarrow> Some (case x of Fin q \<Rightarrow> Inr (JNum x) | _ \<Rightarrow> Inl UnsupportedValue, vis)
      | LNil \<Rightarrow> Some (Inr JNull, vis)
      | LString s \<Rightarrow> Some (Inr (JStr s), vis)
      | LUserData a \<Rightarrow>
          Some (case uj (la_udata api h a) of
                  UD_Stringer s \<Rightarrow> lit s
                | UD_Marshaler r \<Rightarrow> r
                | UD_Other \<Rightarrow> Inr (JStr ''*USERDATA*''), vis)
      | LTable a \<Rightarrow>
          if a \<in> set vis then Some (Inl ErrNested, vis)
          else marshal_table api h (MarshalJSON api uj lit h n) a (a # vis)
      | _ \<Rightarrow> Some (Inl (InvalidType (ltype v)), vis))"

text \<open>\<open>Encode\<close>: nil gives no bytes at all.\<close>

definition Encode ::
    "('h, 'u) lua_api \<Rightarrow> ('u \<Rightarrow> udata_json) \<Rightarrow> (string \<Rightarrow> enc_error + json) \<Rightarrow> 'h \<Rightarrow> lval \<Rightarrow>
     (enc_error + json option) option" where
  "Encode api uj lit h v =
     (if v = LNil then Some (Inr None)
      else map_option (map_sum id Some \<circ> fst)
             (MarshalJSON api uj lit h (Suc (Suc (card (la_live api h)))) v []))"

subsection \<open>Decoding\<close>

text \<open>\<open>DecodeValue\<close>; the pairs of an object are in the order in which Go iterates over the map.\<close>

fun DecodeValue :: "('h, 'u) lua_api \<Rightarrow> json \<Rightarrow> 'h \<Rightarrow> lval \<times> 'h"
  and decode_items :: "('h, 'u) lua_api \<Rightarrow> addr \<Rightarrow> json list \<Rightarrow> 'h \<Rightarrow> 'h"
  and decode_pairs :: "('h, 'u) lua_api \<Rightarrow> addr \<Rightarrow> (string \<times> json) list \<Rightarrow> 'h \<Rightarrow> 'h" where
  "DecodeValue api JNull h = (LNil, h)"
| "DecodeValue api (JBool b) h = (LBool b, h)"
| "DecodeValue api (JNum x) h = (LNumber x, h)"
| "DecodeValue api (JStr s) h = (LString s, h)"
| "DecodeValue api (JArr js) h =
     (case la_new_table api h of (a, h1) \<Rightarrow> (LTable a, decode_items api a js h1))"
| "DecodeValue api (JObj kvs) h =
     (case la_new_table api h of (a, h1) \<Rightarrow> (LTable a, decode_pairs api a kvs h1))"
| "decode_items api a [] h = h"
| "decode_items api a (j # js) h =
     (case DecodeValue api j h of (v, h1) \<Rightarrow> decode_items api a js (la_append api a v h1))"
| "decode_pairs api a [] h = h"
| "decode_pairs api a ((k, j) # kvs) h =
     (case DecodeValue api j h of (v, h1) \<Rightarrow> decode_pairs api a kvs (la_set api a (LString k) v h1))"

text \<open>\<open>Decode\<close>: the text is read by the library, \<open>parse\<close>, first.\<close>

definition Decode :: "('h, 'u) lua_api \<Rightarrow> (string \<Rightarrow> string + json) \<Rightarrow> string \<Rightarrow> 'h \<Rightarrow> string + (lval \<times> 'h)" where
  "Decode api parse data h =
     (case parse data of Inl e \<Rightarrow> Inl e | Inr j \<Rightarrow> Inr (DecodeValue api j h))"

text \<open>The two Lua functions; the error of \<open>ArgError\<close> is a string.\<close>

definition lJSONDecode ::
    "('h, 'u) lua_api \<Rightarrow> (string \<Rightarrow> string + json) \<Rightarrow> lval list \<Rightarrow> 'h \<Rightarrow> string + (lval list \<times> 'h)" where
  "lJSONDecode api parse args h =
     (case args of
        [v] \<Rightarrow> (case Decode api parse (la_tostring api v) h of Inl e \<Rightarrow> Inl e | Inr (w, h1) \<Rightarrow> Inr ([w], h1))
      | _ \<Rightarrow> Inl ''json.decode(string): takes one argument'')"

definition lJSONEncode ::
    "('h, 'u) lua_api \<Rightarrow> ('u \<Rightarrow> udata_json) \<Rightarrow> (string \<Rightarrow> enc_error + json) \<Rightarrow> (json \<Rightarrow> string) \<Rightarrow>
     (enc_error \<Rightarrow> string) \<Rightarrow> lval list \<Rightarrow> 'h \<Rightarrow> (string + lval list) option" where
  "lJSONEncode api uj lit print msg args h =
     (case args of
        [v] \<Rightarrow> map_option (\<lambda>r. case r of
                   Inl e \<Rightarrow> Inl (msg e)
                 | Inr None \<Rightarrow> Inr [LString []]
                 | Inr (Some j) \<Rightarrow> Inr [LString (print j)]) (Encode api uj lit h v)
      | _ \<Rightarrow> Some (Inl ''json.encode(table): takes one argument''))"

subsection \<open>The traversal ends\<close>

text \<open>One step of the traversal that succeeds and only adds to \<open>visited\<close>.\<close>

definition steps_ok :: "(lval \<Rightarrow> addr list \<Rightarrow> enc_state option) \<Rightarrow> addr set \<Rightarrow> nat \<Rightarrow> (lval \<Rightarrow> bool) \<Rightarrow> bool" where
  "steps_ok f L n P \<longleftrightarrow>
     (\<forall>v vis. P v \<and> card (L - set vis) < n \<longrightarrow> (\<exists>r w. f v vis = Some (r, w) \<and> set vis \<subseteq> set w))"

lemma steps_okD:
  "steps_ok f L n P \<Longrightarrow> P v \<Longrightarrow> card (L - set vis) < n \<Longrightarrow> \<exists>r w. f v vis = Some (r, w) \<and> set vis \<subseteq> set w"
  by (simp add: steps_ok_def)

lemma marshal_all_ends:
  assumes f: "steps_ok f L n P" and "finite L"
  shows "list_all P vs \<Longrightarrow> card (L - set vis) < n \<Longrightarrow>
    \<exists>r w. marshal_all f vs vis = Some (r, w) \<and> set vis \<subseteq> set w"
proof (induction vs arbitrary: vis)
  case Nil
  then show ?case by auto
next
  case (Cons v vs)
  then have pv: "P v" "list_all P vs" by simp_all
  with Cons.prems(2) obtain r w where r: "f v vis = Some (r, w)" "set vis \<subseteq> set w"
    using steps_okD [OF f] by blast
  from r(2) have "card (L - set w) \<le> card (L - set vis)"
    by (intro card_mono) (use assms(2) in auto)
  then have "card (L - set w) < n" using Cons.prems(2) by simp
  with Cons.IH [OF pv(2)] obtain q x where q: "marshal_all f vs w = Some (q, x)" "set w \<subseteq> set x"
    by blast
  with r show ?case by (cases r; cases q) auto
qed

lemma scan_array_values: "scan_array i es = Inr vs \<Longrightarrow> vs = map snd es"
  by (induction i es arbitrary: vs rule: scan_array.induct) (auto split: if_splits sum.splits)

lemma scan_object_values: "scan_object es = Inr kvs \<Longrightarrow> map snd kvs = map snd es"
  by (induction es arbitrary: kvs rule: scan_object.induct) (auto split: lval.splits sum.splits)

context lua_heap
begin

lemma entries_values_live: "la_ok api h \<Longrightarrow> list_all (lval_live api h) (map snd (la_entries api h a))"
  using entries_ok by (force simp: list_all_iff)

lemma marshal_table_ends:
  assumes "la_ok api h" and "steps_ok f (la_live api h) n (lval_live api h)"
    and "card (la_live api h - set vis) < n"
  shows "\<exists>r w. marshal_table api h f a vis = Some (r, w) \<and> set vis \<subseteq> set w"
proof -
  note ends = marshal_all_ends [OF assms(2) live_finite [OF assms(1)] _ assms(3)]
  have arr: "\<exists>r w. marshal_all f vs vis = Some (r, w) \<and> set vis \<subseteq> set w"
    if "scan_array 1 (la_entries api h a) = Inr vs" for vs
    using ends entries_values_live [OF assms(1)] scan_array_values [OF that] by metis
  have obj: "\<exists>r w. marshal_all f (map snd (sort_key fst kvs)) vis = Some (r, w) \<and> set vis \<subseteq> set w"
    if "scan_object (la_entries api h a) = Inr kvs" for kvs
  proof (rule ends)
    have "list_all (lval_live api h) (map snd kvs)"
      using entries_values_live [OF assms(1), of a] scan_object_values [OF that] by simp
    then show "list_all (lval_live api h) (map snd (sort_key fst kvs))" by (simp add: list_all_iff)
  qed
  show ?thesis
  proof (cases "la_entries api h a")
    case Nil
    then show ?thesis by (simp add: marshal_table_def)
  next
    case (Cons e es)
    obtain k v where [simp]: "e = (k, v)" by (cases e)
    show ?thesis
    proof (cases "ltype k")
      case LTNumber
      then show ?thesis
        using Cons arr by (cases "scan_array 1 (la_entries api h a)") (auto simp: marshal_table_def)
    next
      case LTString
      then show ?thesis
        using Cons obj by (cases "scan_object (la_entries api h a)") (auto simp: marshal_table_def Let_def)
    qed (use Cons in \<open>auto simp: marshal_table_def\<close>)
  qed
qed

lemma MarshalJSON_ends:
  assumes "la_ok api h"
  shows "steps_ok (MarshalJSON api uj lit h n) (la_live api h) n (lval_live api h)"
proof (induction n)
  case 0
  then show ?case by (simp add: steps_ok_def)
next
  case (Suc n)
  show ?case
    unfolding steps_ok_def
  proof (intro allI impI)
    fix v vis assume a: "lval_live api h v \<and> card (la_live api h - set vis) < Suc n"
    show "\<exists>r w. MarshalJSON api uj lit h (Suc n) v vis = Some (r, w) \<and> set vis \<subseteq> set w"
    proof (cases v)
      case (LTable b)
      show ?thesis
      proof (cases "b \<in> set vis")
        case True
        with LTable show ?thesis by auto
      next
        case False
        have "b \<in> la_live api h" using a LTable by (simp add: lval_live_def)
        then have "card (la_live api h - set (b # vis)) < card (la_live api h - set vis)"
          using False live_finite [OF assms] by (intro psubset_card_mono) auto
        with a have "card (la_live api h - set (b # vis)) < n" by linarith
        from marshal_table_ends [OF assms Suc.IH this] obtain r w
          where "marshal_table api h (MarshalJSON api uj lit h n) b (b # vis) = Some (r, w)"
            and "set (b # vis) \<subseteq> set w" by blast
        with False LTable show ?thesis by auto
      qed
    qed auto
  qed
qed

lemma Encode_total:
  assumes "la_ok api h" and "lval_live api h v"
  shows "\<exists>r. Encode api uj lit h v = Some r"
proof -
  have "card (la_live api h - set []) < Suc (Suc (card (la_live api h)))" by simp
  from steps_okD [OF MarshalJSON_ends [OF assms(1)] assms(2) this, of uj lit]
  show ?thesis unfolding Encode_def by auto
qed

end

text \<open>More depth does not change a result.\<close>

lemma marshal_all_mono:
  assumes "\<And>v vis r. f v vis = Some r \<Longrightarrow> g v vis = Some r"
  shows "marshal_all f vs vis = Some r \<Longrightarrow> marshal_all g vs vis = Some r"
proof (induction vs arbitrary: vis r)
  case Nil
  then show ?case by simp
next
  case (Cons v vs)
  then show ?case using assms by (auto split: option.splits sum.splits prod.splits; fastforce)
qed

lemma marshal_table_mono:
  assumes "\<And>v vis r. f v vis = Some r \<Longrightarrow> g v vis = Some r"
    and "marshal_table api h f a vis = Some r"
  shows "marshal_table api h g a vis = Some r"
  using assms(2) marshal_all_mono [of f g, OF assms(1)]
  by (auto simp: marshal_table_def Let_def split: list.splits lua_type.splits sum.splits)

lemma MarshalJSON_mono:
  "MarshalJSON api uj lit h n v vis = Some r \<Longrightarrow> n \<le> m \<Longrightarrow> MarshalJSON api uj lit h m v vis = Some r"
proof (induction n arbitrary: m v vis r)
  case 0
  then show ?case by simp
next
  case (Suc n)
  then obtain k where m: "m = Suc k" "n \<le> k" by (cases m) auto
  have "\<And>v vis r. MarshalJSON api uj lit h n v vis = Some r \<Longrightarrow> MarshalJSON api uj lit h k v vis = Some r"
    using Suc.IH m(2) by blast
  note mono = marshal_table_mono [where f = "MarshalJSON api uj lit h n" and g = "MarshalJSON api uj lit h k", OF this]
  from Suc.prems(1) m(1) show ?case
    by (auto split: lval.splits if_splits intro: mono)
qed

subsection \<open>What a decoded value looks like\<close>

text \<open>
  \<open>rep api h j v L\<close>: in the heap \<open>h\<close> the Lua value \<open>v\<close> holds the JSON value \<open>j\<close>, and \<open>L\<close> lists the
  tables it consists of, once per occurrence.  A null is absent from its table.
\<close>

inductive rep :: "('h, 'u) lua_api \<Rightarrow> 'h \<Rightarrow> json \<Rightarrow> lval \<Rightarrow> addr list \<Rightarrow> bool"
  and rep_list :: "('h, 'u) lua_api \<Rightarrow> 'h \<Rightarrow> json list \<Rightarrow> lval list \<Rightarrow> addr list \<Rightarrow> bool"
  for api h where
  rep_null: "rep api h JNull LNil []"
| rep_bool: "rep api h (JBool b) (LBool b) []"
| rep_num: "rep api h (JNum x) (LNumber x) []"
| rep_str: "rep api h (JStr s) (LString s) []"
| rep_arr: "rep_list api h js vs L \<Longrightarrow> la_entries api h a = lua_seq (filter (\<lambda>v. v \<noteq> LNil) vs) \<Longrightarrow>
    rep api h (JArr js) (LTable a) (a # L)"
| rep_obj: "rep_list api h (map snd kvs) vs L \<Longrightarrow>
    map_of (la_entries api h a)
      = map_of (filter (\<lambda>e. snd e \<noteq> LNil) (zip (map (\<lambda>kv. LString (fst kv)) kvs) vs)) \<Longrightarrow>
    rep api h (JObj kvs) (LTable a) (a # L)"
| rep_nil: "rep_list api h [] [] []"
| rep_cons: "rep api h j v L \<Longrightarrow> rep_list api h js vs M \<Longrightarrow> rep_list api h (j # js) (v # vs) (L @ M)"

inductive_cases rep_list_ConsE: "rep_list api h (j # js) vs L"
inductive_cases rep_list_NilE: "rep_list api h [] vs L"

lemma rep_length: "rep_list api h js vs L \<Longrightarrow> length js = length vs"
  by (induction js arbitrary: vs L) (auto elim: rep_list_ConsE rep_list_NilE)

lemma rep_nil_iff: "rep api h j v L \<Longrightarrow> v = LNil \<longleftrightarrow> j = JNull"
  by (cases rule: rep.cases) auto

text \<open>Only the listed tables matter.\<close>

lemma rep_frame:
  "rep api h j v L \<Longrightarrow> (\<forall>a \<in> set L. la_entries api h' a = la_entries api h a) \<Longrightarrow> rep api h' j v L"
  "rep_list api h js vs L \<Longrightarrow> (\<forall>a \<in> set L. la_entries api h' a = la_entries api h a) \<Longrightarrow> rep_list api h' js vs L"
  by (induction rule: rep_rep_list.inducts) (auto intro: rep_rep_list.intros)

lemma rep_list_snoc:
  "rep_list api h js vs L \<Longrightarrow> rep api h j v M \<Longrightarrow> rep_list api h (js @ [j]) (vs @ [v]) (L @ M)"
proof (induction js arbitrary: vs L)
  case Nil
  then show ?case using rep_cons [OF Nil(2) rep_nil] by (auto elim!: rep_list_NilE)
next
  case (Cons i js)
  from Cons.prems(1) obtain w ws L1 L2 where "vs = w # ws" "L = L1 @ L2"
    "rep api h i w L1" "rep_list api h js ws L2" by (auto elim: rep_list_ConsE)
  with Cons.IH Cons.prems(2) show ?case by (auto intro: rep_cons)
qed

fun good_json :: "json \<Rightarrow> bool" where
  "good_json (JNum x) = (case x of Fin q \<Rightarrow> True | _ \<Rightarrow> False)"
| "good_json (JArr js) = list_all good_json js"
| "good_json (JObj kvs) = (distinct (map fst kvs) \<and> list_all (\<lambda>kv. good_json (snd kv)) kvs)"
| "good_json _ = True"

fun canon :: "json \<Rightarrow> json" where
  "canon (JArr js) = JArr (map canon (filter (\<lambda>j. j \<noteq> JNull) js))"
| "canon (JObj kvs) =
     (let ps = map (\<lambda>kv. (fst kv, canon (snd kv))) (filter (\<lambda>kv. snd kv \<noteq> JNull) kvs) in
      if ps = [] then JArr [] else JObj (sort_key fst ps))"
| "canon j = j"

text \<open>What decoding leaves behind: the value, its tables all new, and the rest of the heap as it was.\<close>

definition grows :: "('h, 'u) lua_api \<Rightarrow> 'h \<Rightarrow> 'h \<Rightarrow> bool" where
  "grows api h h' \<longleftrightarrow> la_ok api h' \<and> la_live api h \<subseteq> la_live api h'
     \<and> (\<forall>b \<in> la_live api h. la_entries api h' b = la_entries api h b)"

definition decoded :: "('h, 'u) lua_api \<Rightarrow> 'h \<Rightarrow> json \<Rightarrow> lval \<Rightarrow> 'h \<Rightarrow> addr list \<Rightarrow> bool" where
  "decoded api h j v h' L \<longleftrightarrow> rep api h' j v L \<and> distinct L \<and> set L \<inter> la_live api h = {}
     \<and> set L \<subseteq> la_live api h' \<and> grows api h h' \<and> lval_live api h' v"

lemma grows_trans: "grows api h h1 \<Longrightarrow> grows api h1 h2 \<Longrightarrow> grows api h h2"
  unfolding grows_def by (metis subset_iff)

lemma grows_refl: "la_ok api h \<Longrightarrow> grows api h h"
  by (simp add: grows_def)

lemma key_ok_string [simp]: "key_ok (LString s)"
  by (simp add: key_ok_def)

lemma live_string [simp]: "lval_live api h (LString s)"
  by (simp add: lval_live_def)

text \<open>A table \<open>a\<close> under construction: everything else that existed is untouched.\<close>

definition grows_but :: "('h, 'u) lua_api \<Rightarrow> addr \<Rightarrow> 'h \<Rightarrow> 'h \<Rightarrow> bool" where
  "grows_but api a h h' \<longleftrightarrow> la_ok api h' \<and> la_live api h \<subseteq> la_live api h'
     \<and> (\<forall>b \<in> la_live api h. b \<noteq> a \<longrightarrow> la_entries api h' b = la_entries api h b)"

lemma grows_but_trans: "grows_but api a h h1 \<Longrightarrow> grows_but api a h1 h2 \<Longrightarrow> grows_but api a h h2"
  unfolding grows_but_def by (metis subset_iff)

lemma grows_grows_but: "grows api h h' \<Longrightarrow> grows_but api a h h'"
  by (simp add: grows_def grows_but_def)

text \<open>The children of the table under construction: their values so far.\<close>

definition children :: "('h, 'u) lua_api \<Rightarrow> 'h \<Rightarrow> addr \<Rightarrow> json list \<Rightarrow> lval list \<Rightarrow> addr list \<Rightarrow> bool" where
  "children api h a js vs L \<longleftrightarrow> rep_list api h js vs L \<and> distinct L \<and> a \<notin> set L
     \<and> set L \<subseteq> la_live api h \<and> a \<in> la_live api h \<and> la_ok api h"

text \<open>Decoding one more child.\<close>

lemma children_snoc:
  assumes c: "children api h a js vs L" and d: "decoded api h j v h1 M"
  shows "children api h1 a (js @ [j]) (vs @ [v]) (L @ M)"
proof -
  from c d have sub: "set L \<subseteq> la_live api h" and g: "grows api h h1"
    by (simp_all add: children_def decoded_def)
  then have "\<forall>a \<in> set L. la_entries api h1 a = la_entries api h a" unfolding grows_def by blast
  with c have "rep_list api h1 js vs L" using rep_frame(2) by (auto simp: children_def)
  with c d g show ?thesis
    by (auto simp: children_def decoded_def grows_def intro: rep_list_snoc)
qed

text \<open>A write to the table under construction leaves the children alone.\<close>

lemma children_frame:
  assumes c: "children api h a js vs L" and "la_ok api h'" and "la_live api h' = la_live api h"
    and "\<And>b. b \<noteq> a \<Longrightarrow> la_entries api h' b = la_entries api h b"
  shows "children api h' a js vs L"
proof -
  have "\<forall>b \<in> set L. la_entries api h' b = la_entries api h b"
    using c assms(4) unfolding children_def by metis
  with c have "rep_list api h' js vs L" using rep_frame(2) by (auto simp: children_def)
  with c assms(2,3) show ?thesis by (simp add: children_def)
qed

definition obj_entries :: "(string \<times> json) list \<Rightarrow> lval list \<Rightarrow> (lval \<times> lval) list" where
  "obj_entries kvs vs = filter (\<lambda>e. snd e \<noteq> LNil) (zip (map (\<lambda>kv. LString (fst kv)) kvs) vs)"

lemma obj_entries_snoc:
  "length kvs = length vs \<Longrightarrow>
     obj_entries (kvs @ [(k, j)]) (vs @ [v]) = obj_entries kvs vs @ (if v = LNil then [] else [(LString k, v)])"
  by (simp add: obj_entries_def)

lemma obj_entries_fresh:
  assumes "k \<notin> fst ` set kvs"
  shows "map_of (obj_entries kvs vs) (LString k) = None"
  using assms unfolding map_of_eq_None_iff
  by (fastforce simp: obj_entries_def dest: set_zip_leftD)

lemma map_of_snoc_fresh:
  "map_of es k = None \<Longrightarrow> map_of (es @ [(k, v)]) = (map_of es)(k \<mapsto> v)"
  by (auto simp: map_add_def split: option.splits)

lemma decoded_leaf:
  "la_ok api h \<Longrightarrow> rep api h j v [] \<Longrightarrow> ltype v \<noteq> LTTable \<Longrightarrow> \<exists>L. decoded api h j v h L"
  by (intro exI [of _ "[]"]) (auto simp: decoded_def lval_live_def grows_refl split: lval.splits)

lemma decode_all:
  "lua_heap api \<Longrightarrow> la_ok api h \<Longrightarrow> good_json j \<Longrightarrow> DecodeValue api j h = (v, h') \<Longrightarrow>
     \<exists>L. decoded api h j v h' L"
  "lua_heap api \<Longrightarrow> children api h a js0 vs0 L0 \<Longrightarrow>
     la_entries api h a = lua_seq (filter (\<lambda>v. v \<noteq> LNil) vs0) \<Longrightarrow>
     list_all good_json js \<Longrightarrow> decode_items api a js h = h' \<Longrightarrow>
     \<exists>vs L. children api h' a (js0 @ js) vs (L0 @ L) \<and> set L \<inter> la_live api h = {}
       \<and> la_entries api h' a = lua_seq (filter (\<lambda>v. v \<noteq> LNil) vs) \<and> grows_but api a h h'"
  "lua_heap api \<Longrightarrow> children api h a (map snd kvs0) vs0 L0 \<Longrightarrow>
     map_of (la_entries api h a) = map_of (obj_entries kvs0 vs0) \<Longrightarrow>
     distinct (map fst (kvs0 @ kvs)) \<Longrightarrow> list_all (\<lambda>kv. good_json (snd kv)) kvs \<Longrightarrow>
     decode_pairs api a kvs h = h' \<Longrightarrow>
     \<exists>vs L. children api h' a (map snd (kvs0 @ kvs)) vs (L0 @ L) \<and> set L \<inter> la_live api h = {}
       \<and> map_of (la_entries api h' a) = map_of (obj_entries (kvs0 @ kvs) vs) \<and> grows_but api a h h'"
proof (induction api j h and api a js h and api a kvs h
    arbitrary: v h' and h' js0 vs0 L0 and h' kvs0 vs0 L0
    rule: DecodeValue_decode_items_decode_pairs.induct)
  case (5 api js h)
  obtain a h1 where n: "la_new_table api h = (a, h1)" by (cases "la_new_table api h")
  note new = lua_heap.new_table [OF 5(2,3) n]
  have "children api h1 a [] [] []" using new by (simp add: children_def rep_nil)
  moreover have "la_entries api h1 a = lua_seq (filter (\<lambda>v. v \<noteq> LNil) [])" using new by (simp add: lua_seq_def)
  ultimately obtain vs L where L: "children api h' a js vs L" "set L \<inter> la_live api h1 = {}"
    "la_entries api h' a = lua_seq (filter (\<lambda>v. v \<noteq> LNil) vs)" "grows_but api a h1 h'" and v: "v = LTable a"
    using 5(1) [OF n [symmetric] 5(2), of "[]" "[]" "[]" h'] 5(4,5) n by auto
  then have "rep api h' (JArr js) v (a # L)" using rep_arr by (auto simp: children_def)
  then have "decoded api h (JArr js) v h' (a # L)"
    using L new v by (auto simp: decoded_def children_def grows_def grows_but_def lval_live_def)
  then show ?case ..
next
  case (6 api kvs h)
  obtain a h1 where n: "la_new_table api h = (a, h1)" by (cases "la_new_table api h")
  note new = lua_heap.new_table [OF 6(2,3) n]
  have "children api h1 a (map snd []) [] []" using new by (simp add: children_def rep_nil)
  moreover have "map_of (la_entries api h1 a) = map_of (obj_entries [] [])" using new by (simp add: obj_entries_def)
  ultimately obtain vs L where L: "children api h' a (map snd kvs) vs L" "set L \<inter> la_live api h1 = {}"
    "map_of (la_entries api h' a) = map_of (obj_entries kvs vs)" "grows_but api a h1 h'" and v: "v = LTable a"
    using 6(1) [OF n [symmetric] 6(2), of "[]" "[]" "[]" h'] 6(4,5) n by auto
  then have "rep api h' (JObj kvs) v (a # L)" using rep_obj by (auto simp: children_def obj_entries_def)
  then have "decoded api h (JObj kvs) v h' (a # L)"
    using L new v by (auto simp: decoded_def children_def grows_def grows_but_def lval_live_def)
  then show ?case ..
next
  case (7 api a h)
  then show ?case by (intro exI [of _ vs0] exI [of _ "[]"]) (auto simp: children_def grows_but_def)
next
  case (8 api a j js h)
  obtain v h1 where d: "DecodeValue api j h = (v, h1)" by (cases "DecodeValue api j h")
  have ok: "la_ok api h" using 8(4) by (simp add: children_def)
  obtain M where M: "decoded api h j v h1 M" using 8(1) [OF 8(3) ok _ d] 8(6) by auto
  let ?h = "la_append api a v h1"
  have c1: "children api h1 a (js0 @ [j]) (vs0 @ [v]) (L0 @ M)" using children_snoc [OF 8(4) M] .
  have live: "la_live api ?h = la_live api h1" using lua_heap.append_live [OF 8(3)] .
  have e1: "la_entries api h1 a = lua_seq (filter (\<lambda>v. v \<noteq> LNil) vs0)"
    using M 8(4,5) by (auto simp: decoded_def grows_def children_def)
  have c2: "children api ?h a (js0 @ [j]) (vs0 @ [v]) (L0 @ M)"
    by (rule children_frame [OF c1 _ live])
       (use c1 M lua_heap.append_ok [OF 8(3)] lua_heap.append_other [OF 8(3)] in
         \<open>auto simp: children_def decoded_def\<close>)
  have e2: "la_entries api ?h a = lua_seq (filter (\<lambda>v. v \<noteq> LNil) (vs0 @ [v]))"
    using lua_heap.append_entries [OF 8(3) _ _ e1, of v] lua_heap.append_nil [OF 8(3)] e1 c1
    by (cases "v = LNil") (auto simp: children_def)
  obtain vs L where L: "children api h' a ((js0 @ [j]) @ js) vs ((L0 @ M) @ L)" "set L \<inter> la_live api ?h = {}"
    "la_entries api h' a = lua_seq (filter (\<lambda>v. v \<noteq> LNil) vs)" "grows_but api a ?h h'"
    using 8(2) [OF d [symmetric] 8(3) c2 e2, of h'] 8(6,7) d by auto
  have "grows_but api a h1 ?h"
    using c2 live lua_heap.append_other [OF 8(3)] by (simp add: grows_but_def children_def)
  moreover have "grows_but api a h h1" using M by (auto simp: decoded_def intro: grows_grows_but)
  ultimately have "grows_but api a h ?h" using grows_but_trans [of api a h h1 ?h] by simp
  then have "grows_but api a h h'" using L(4) grows_but_trans [of api a h ?h h'] by simp
  moreover have "set (M @ L) \<inter> la_live api h = {}"
    using L(2) M live by (auto simp: decoded_def grows_def)
  ultimately show ?case using L by (intro exI [of _ vs] exI [of _ "M @ L"]) simp
next
  case (9 api a h)
  then show ?case by (intro exI [of _ vs0] exI [of _ "[]"]) (auto simp: children_def grows_but_def)
next
  case (10 api a k j kvs h)
  obtain v h1 where d: "DecodeValue api j h = (v, h1)" by (cases "DecodeValue api j h")
  have ok: "la_ok api h" using 10(4) by (simp add: children_def)
  obtain M where M: "decoded api h j v h1 M" using 10(1) [OF 10(3) ok _ d] 10(7) by auto
  let ?h = "la_set api a (LString k) v h1"
  have "children api h1 a (map snd kvs0 @ [j]) (vs0 @ [v]) (L0 @ M)" using children_snoc [OF 10(4) M] .
  then have c1: "children api h1 a (map snd (kvs0 @ [(k, j)])) (vs0 @ [v]) (L0 @ M)" by simp
  then have a1: "la_ok api h1" "a \<in> la_live api h1" by (simp_all add: children_def)
  have len: "length kvs0 = length vs0" using 10(4) rep_length by (fastforce simp: children_def)
  have live: "la_live api ?h = la_live api h1" using lua_heap.set_live [OF 10(3)] .
  have e1: "map_of (la_entries api h1 a) = map_of (obj_entries kvs0 vs0)"
    using M 10(4,5) by (auto simp: decoded_def grows_def children_def)
  have fresh: "map_of (obj_entries kvs0 vs0) (LString k) = None"
    using 10(6) by (intro obj_entries_fresh) auto
  have c2: "children api ?h a (map snd (kvs0 @ [(k, j)])) (vs0 @ [v]) (L0 @ M)"
    by (rule children_frame [OF c1 _ live])
       (use a1 M lua_heap.set_ok [OF 10(3)] lua_heap.set_other [OF 10(3)] in \<open>auto simp: decoded_def\<close>)
  have e2: "map_of (la_entries api ?h a) = map_of (obj_entries (kvs0 @ [(k, j)]) (vs0 @ [v]))"
  proof (cases "v = LNil")
    case True
    then show ?thesis
      using lua_heap.set_nil [OF 10(3) a1 key_ok_string] e1 fresh len
      by (auto simp: obj_entries_snoc)
  next
    case False
    then show ?thesis
      using lua_heap.set_entries [OF 10(3) a1 key_ok_string False] e1 fresh len
      by (simp add: obj_entries_snoc map_of_snoc_fresh del: map_of_append)
  qed
  have dist: "distinct (map fst ((kvs0 @ [(k, j)]) @ kvs))" using 10(6) by simp
  obtain vs L where L: "children api h' a (map snd ((kvs0 @ [(k, j)]) @ kvs)) vs ((L0 @ M) @ L)"
    "set L \<inter> la_live api ?h = {}"
    "map_of (la_entries api h' a) = map_of (obj_entries ((kvs0 @ [(k, j)]) @ kvs) vs)" "grows_but api a ?h h'"
    using 10(2) [OF d [symmetric] 10(3) c2 e2 dist, of h'] 10(7,8) d by auto
  have "grows_but api a h1 ?h"
    using c2 live lua_heap.set_other [OF 10(3)] by (simp add: grows_but_def children_def)
  moreover have "grows_but api a h h1" using M by (auto simp: decoded_def intro: grows_grows_but)
  ultimately have "grows_but api a h ?h" using grows_but_trans [of api a h h1 ?h] by simp
  then have "grows_but api a h h'" using L(4) grows_but_trans [of api a h ?h h'] by simp
  moreover have "set (M @ L) \<inter> la_live api h = {}"
    using L(2) M live by (auto simp: decoded_def grows_def)
  ultimately show ?case using L by (intro exI [of _ vs] exI [of _ "M @ L"]) simp
qed (auto intro!: decoded_leaf intro: rep_rep_list.intros)

subsection \<open>Encoding a decoded value\<close>

type_synonym node = "json \<times> lval \<times> addr list"

text \<open>Encoding the value of a node succeeds, from some depth on, and visits the node's tables.\<close>

definition encodes :: "('h, 'u) lua_api \<Rightarrow> ('u \<Rightarrow> udata_json) \<Rightarrow> (string \<Rightarrow> enc_error + json) \<Rightarrow> 'h \<Rightarrow> node \<Rightarrow> bool" where
  "encodes api uj lit h t \<longleftrightarrow>
     (case t of (j, v, M) \<Rightarrow>
        (v = LNil \<longleftrightarrow> j = JNull) \<and> (v = LNil \<longrightarrow> M = []) \<and>
        (\<forall>vis. distinct M \<longrightarrow> set M \<inter> set vis = {} \<longrightarrow>
           (\<exists>N. \<forall>n \<ge> N. \<exists>w. MarshalJSON api uj lit h n v vis = Some (Inr (canon j), w)
                            \<and> set w = set vis \<union> set M)))"

lemma encodesD:
  "encodes api uj lit h (j, v, M) \<Longrightarrow> distinct M \<Longrightarrow> set M \<inter> set vis = {} \<Longrightarrow>
     \<exists>N. \<forall>n \<ge> N. \<exists>w. MarshalJSON api uj lit h n v vis = Some (Inr (canon j), w) \<and> set w = set vis \<union> set M"
  by (simp add: encodes_def)

definition foot :: "node list \<Rightarrow> addr list" where
  "foot ts = concat (map (\<lambda>t. snd (snd t)) ts)"

lemma encodes_all:
  assumes "list_all (encodes api uj lit h) ts" and "distinct (foot ts)" and "set (foot ts) \<inter> set vis = {}"
  shows "\<exists>N. \<forall>n \<ge> N. \<exists>w. marshal_all (MarshalJSON api uj lit h n) (map (\<lambda>t. fst (snd t)) ts) vis
      = Some (Inr (map (\<lambda>t. canon (fst t)) ts), w) \<and> set w = set vis \<union> set (foot ts)"
  using assms
proof (induction ts arbitrary: vis)
  case Nil
  then show ?case by (auto simp: foot_def)
next
  case (Cons t ts)
  obtain j v M where t: "t = (j, v, M)" by (cases t)
  have f: "foot (t # ts) = M @ foot ts" by (simp add: foot_def t)
  with Cons.prems t obtain N1 where N1: "\<forall>n \<ge> N1. \<exists>w. MarshalJSON api uj lit h n v vis
      = Some (Inr (canon j), w) \<and> set w = set vis \<union> set M"
    using encodesD [of api uj lit h j v M vis] by auto
  then obtain w1 where w1: "MarshalJSON api uj lit h N1 v vis = Some (Inr (canon j), w1)"
    "set w1 = set vis \<union> set M" by blast
  have "set (foot ts) \<inter> set w1 = {}" using Cons.prems(2,3) f w1(2) by auto
  moreover have "list_all (encodes api uj lit h) ts" "distinct (foot ts)" using Cons.prems f by auto
  ultimately obtain N2 where N2: "\<forall>n \<ge> N2. \<exists>w. marshal_all (MarshalJSON api uj lit h n) (map (\<lambda>t. fst (snd t)) ts) w1
      = Some (Inr (map (\<lambda>t. canon (fst t)) ts), w) \<and> set w = set w1 \<union> set (foot ts)"
    using Cons.IH by blast
  show ?case
  proof (rule exI [of _ "max N1 N2"], intro allI impI)
    fix n assume n: "max N1 N2 \<le> n"
    have a: "MarshalJSON api uj lit h n v vis = Some (Inr (canon j), w1)"
      using MarshalJSON_mono [OF w1(1)] n by simp
    obtain w where w: "marshal_all (MarshalJSON api uj lit h n) (map (\<lambda>t. fst (snd t)) ts) w1
      = Some (Inr (map (\<lambda>t. canon (fst t)) ts), w)" "set w = set w1 \<union> set (foot ts)"
      using N2 n by auto
    show "\<exists>w. marshal_all (MarshalJSON api uj lit h n) (map (\<lambda>t. fst (snd t)) (t # ts)) vis
      = Some (Inr (map (\<lambda>t. canon (fst t)) (t # ts)), w) \<and> set w = set vis \<union> set (foot (t # ts))"
      using a w w1(2) f t by (intro exI [of _ w]) auto
  qed
qed

lemma foot_filter:
  "list_all (encodes api uj lit h) ts \<Longrightarrow> foot (filter (\<lambda>t. fst (snd t) \<noteq> LNil) ts) = foot ts"
  by (induction ts) (auto simp: foot_def encodes_def)

lemma foot_perm:
  assumes "mset ts = mset us"
  shows "mset (foot ts) = mset (foot us)"
proof -
  have "mset (foot xs) = (\<Sum>t \<in># mset xs. mset (snd (snd t)))" for xs
    by (induction xs) (auto simp: foot_def)
  with assms show ?thesis by simp
qed

lemma scan_array_seq: "scan_array i (seq_from i vs) = Inr vs"
  by (induction vs arbitrary: i) (auto simp: index_key_def)

lemma scan_object_strings:
  "scan_object (map (\<lambda>(k, v). (LString k, v)) kvs) = Inr kvs"
  by (induction kvs) auto

lemma table_once:
  "a \<notin> set vis \<Longrightarrow> MarshalJSON api uj lit h (Suc n) (LTable a) vis
     = marshal_table api h (MarshalJSON api uj lit h n) a (a # vis)"
  by simp

lemma encodes_arr:
  assumes ts: "list_all (encodes api uj lit h) ts"
    and e: "la_entries api h a = lua_seq (filter (\<lambda>v. v \<noteq> LNil) (map (\<lambda>t. fst (snd t)) ts))"
  shows "encodes api uj lit h (JArr (map fst ts), LTable a, a # foot ts)"
proof -
  let ?us = "filter (\<lambda>t. fst (snd t) \<noteq> LNil) ts"
  have us: "list_all (encodes api uj lit h) ?us" using ts by (auto simp: list_all_iff)
  have vals: "filter (\<lambda>v. v \<noteq> LNil) (map (\<lambda>t. fst (snd t)) ts) = map (\<lambda>t. fst (snd t)) ?us"
    by (simp add: filter_map o_def)
  have js: "map canon (filter (\<lambda>j. j \<noteq> JNull) (map fst ts)) = map (\<lambda>t. canon (fst t)) ?us"
    using ts by (induction ts) (auto simp: encodes_def)
  have foot: "foot ?us = foot ts" using foot_filter [OF ts] .
  have "\<exists>N. \<forall>n \<ge> N. \<exists>w. MarshalJSON api uj lit h n (LTable a) vis = Some (Inr (canon (JArr (map fst ts))), w)
      \<and> set w = set vis \<union> set (a # foot ts)"
    if d: "distinct (a # foot ts)" "set (a # foot ts) \<inter> set vis = {}" for vis
  proof -
    have "distinct (foot ?us)" "set (foot ?us) \<inter> set (a # vis) = {}" using d foot by auto
    from encodes_all [OF us this] obtain N where
      N: "\<forall>n \<ge> N. \<exists>w. marshal_all (MarshalJSON api uj lit h n) (map (\<lambda>t. fst (snd t)) ?us) (a # vis)
        = Some (Inr (map (\<lambda>t. canon (fst t)) ?us), w) \<and> set w = set (a # vis) \<union> set (foot ?us)" by blast
    show ?thesis
    proof (rule exI [of _ "Suc N"], intro allI impI)
      fix n assume "Suc N \<le> n"
      then obtain m where n: "n = Suc m" "N \<le> m" by (cases n) auto
      with N obtain w where w: "marshal_all (MarshalJSON api uj lit h m) (map (\<lambda>t. fst (snd t)) ?us) (a # vis)
        = Some (Inr (map (\<lambda>t. canon (fst t)) ?us), w)" "set w = set (a # vis) \<union> set (foot ts)"
        using foot by auto
      have "marshal_table api h (MarshalJSON api uj lit h m) a (a # vis)
          = Some (Inr (JArr (map (\<lambda>t. canon (fst t)) ?us)), w)"
      proof (cases ?us)
        case Nil
        then have "la_entries api h a = []" using e vals by (simp add: lua_seq_def)
        moreover from Nil w(1) have "w = a # vis" by simp
        ultimately show ?thesis using Nil by (simp add: marshal_table_def)
      next
        case (Cons u us')
        then have "la_entries api h a = (index_key 1, fst (snd u)) # seq_from 2 (map (\<lambda>t. fst (snd t)) us')"
          using e vals by (simp add: lua_seq_def numeral_2_eq_2)
        moreover have "scan_array 1 (la_entries api h a) = Inr (map (\<lambda>t. fst (snd t)) ?us)"
          using e vals scan_array_seq by (simp add: lua_seq_def)
        ultimately show ?thesis using w(1) by (simp add: marshal_table_def index_key_def)
      qed
      with w(2) d(2) js n show "\<exists>w. MarshalJSON api uj lit h n (LTable a) vis
          = Some (Inr (canon (JArr (map fst ts))), w) \<and> set w = set vis \<union> set (a # foot ts)"
        by (intro exI [of _ w]) auto
    qed
  qed
  then show ?thesis by (simp add: encodes_def)
qed

text \<open>The entries of an object's table, in whatever order, sorted by key.\<close>

type_synonym member = "string \<times> node"

definition live_members :: "member list \<Rightarrow> member list" where
  "live_members ms = filter (\<lambda>m. fst (snd (snd m)) \<noteq> LNil) ms"

definition member_value :: "member \<Rightarrow> string \<times> lval" where
  "member_value m = (fst m, fst (snd (snd m)))"

lemma map_sort_key:
  fixes key :: "'b \<Rightarrow> 'c::linorder"
  shows "(\<And>x. key (f x) = k x) \<Longrightarrow> map f (sort_key k xs) = sort_key key (map f xs)"
proof (induction xs)
  case Nil
  then show ?case by simp
next
  case (Cons x xs)
  have "map f (insort_key k x ys) = insort_key key (f x) (map f ys)" for ys
    using Cons.prems by (induction ys) auto
  with Cons show ?case by simp
qed

lemma sort_members:
  assumes "distinct (map fst ms)" and "mset kvs = mset (map member_value ms)"
  shows "sort_key fst kvs = map member_value (sort_key fst ms)"
proof -
  have "map member_value (sort_key fst ms) = sort_key fst (map member_value ms)"
    by (rule map_sort_key) (simp add: member_value_def)
  moreover have "sort_key fst kvs = sort_key fst (map member_value ms)"
  proof (rule sort_key_inj_key_eq)
    have "map fst (map member_value ms) = map fst ms" by (simp add: member_value_def)
    then have "distinct (map fst (map member_value ms))" using assms(1) by (simp only:)
    then have "inj_on fst (set (map member_value ms))" by (simp add: distinct_map inj_on_imageI)
    then show "inj_on fst (set kvs)" using assms(2) mset_eq_setD by metis
    show "mset kvs = mset (sort_key fst (map member_value ms))" using assms(2) by simp
  qed simp
  ultimately show ?thesis by simp
qed

lemma map_of_same_mset:
  "distinct (map fst xs) \<Longrightarrow> distinct (map fst ys) \<Longrightarrow> map_of xs = map_of ys \<Longrightarrow> mset xs = mset ys"
  using map_of_inject_set [of xs ys] set_eq_iff_mset_eq_distinct [of xs ys] by (auto simp: distinct_map)

lemma scan_object_perm:
  fixes es :: "(lval \<times> lval) list"
  assumes "mset es = mset (map (\<lambda>(k, v). (LString k, v)) kvs)"
  obtains kvs' where "es = map (\<lambda>(k, v). (LString k, v)) kvs'" and "mset kvs' = mset kvs"
proof -
  let ?f = "\<lambda>(k, v). (LString k, v :: lval)"
  let ?g = "\<lambda>(k, v). (case k of LString s \<Rightarrow> s | _ \<Rightarrow> [], v :: lval)"
  have "\<forall>e \<in> set es. ?f (?g e) = e" using mset_eq_setD [OF assms] by auto
  then have "es = map ?f (map ?g es)" by (simp add: map_idI)
  moreover have "image_mset ?g (mset es) = image_mset ?g (mset (map ?f kvs))" using assms by simp
  then have "mset (map ?g es) = mset (map (?g \<circ> ?f) kvs)" by (simp add: image_mset.compositionality)
  then have "mset (map ?g es) = mset kvs" by (simp add: o_def case_prod_unfold)
  ultimately show ?thesis using that by blast
qed

lemma encodes_obj:
  assumes ms: "list_all (encodes api uj lit h) (map snd ms)" and dist: "distinct (map fst ms)"
    and e: "mset (la_entries api h a) = mset (map (\<lambda>(k, v). (LString k, v)) (map member_value (live_members ms)))"
  shows "encodes api uj lit h
    (JObj (map (\<lambda>m. (fst m, fst (snd m))) ms), LTable a, a # foot (map snd ms))"
proof -
  let ?j = "JObj (map (\<lambda>m. (fst m, fst (snd m))) ms)"
  let ?us = "live_members ms"
  let ?ss = "sort_key fst ?us"
  from e obtain kvs where ent: "la_entries api h a = map (\<lambda>(k, v). (LString k, v)) kvs"
    and kvs: "mset kvs = mset (map member_value ?us)" by (rule scan_object_perm)
  have dus: "distinct (map fst ?us)" using dist by (simp add: live_members_def distinct_map_filter)
  have sorted: "sort_key fst kvs = map member_value ?ss" using sort_members [OF dus kvs] .
  have enc: "list_all (encodes api uj lit h) (map snd ?ss)"
    using ms by (auto simp: list_all_iff live_members_def)
  have "foot (map snd ?us) = foot (map snd ms)"
    using foot_filter [OF ms] by (simp add: live_members_def filter_map o_def)
  moreover have "mset (foot (map snd ?ss)) = mset (foot (map snd ?us))" by (rule foot_perm) simp
  ultimately have foot: "mset (foot (map snd ?ss)) = mset (foot (map snd ms))" by simp
  have fset: "set (foot (map snd ?ss)) = set (foot (map snd ms))" using mset_eq_setD [OF foot] .
  let ?out = "map (\<lambda>m. (fst m, canon (fst (snd m)))) ?ss"
  have "map (\<lambda>kv. (fst kv, canon (snd kv)))
      (filter (\<lambda>kv. snd kv \<noteq> JNull) (map (\<lambda>m. (fst m, fst (snd m))) ms))
    = map (\<lambda>m. (fst m, canon (fst (snd m)))) ?us"
    using ms by (induction ms) (auto simp: live_members_def encodes_def)
  moreover have "sort_key fst (map (\<lambda>m. (fst m, canon (fst (snd m)))) ?us) = ?out"
    by (rule map_sort_key [symmetric]) simp
  ultimately have canon_j: "canon ?j = (if ?us = [] then JArr [] else JObj ?out)" by simp
  have "\<exists>N. \<forall>n \<ge> N. \<exists>w. MarshalJSON api uj lit h n (LTable a) vis = Some (Inr (canon ?j), w)
      \<and> set w = set vis \<union> set (a # foot (map snd ms))"
    if d: "distinct (a # foot (map snd ms))" "set (a # foot (map snd ms)) \<inter> set vis = {}" for vis
  proof -
    have "distinct (foot (map snd ?ss))" using d(1) mset_eq_imp_distinct_iff [OF foot] by simp
    moreover have "set (foot (map snd ?ss)) \<inter> set (a # vis) = {}" using d fset by auto
    ultimately obtain N where
      N: "\<forall>n \<ge> N. \<exists>w. marshal_all (MarshalJSON api uj lit h n) (map (\<lambda>t. fst (snd t)) (map snd ?ss)) (a # vis)
        = Some (Inr (map (\<lambda>t. canon (fst t)) (map snd ?ss)), w) \<and> set w = set (a # vis) \<union> set (foot (map snd ?ss))"
      using encodes_all [OF enc] by blast
    show ?thesis
    proof (rule exI [of _ "Suc N"], intro allI impI)
      fix n assume "Suc N \<le> n"
      then obtain m where n: "n = Suc m" "N \<le> m" by (cases n) auto
      with N obtain w where w: "marshal_all (MarshalJSON api uj lit h m) (map (\<lambda>t. fst (snd t)) (map snd ?ss)) (a # vis)
        = Some (Inr (map (\<lambda>t. canon (fst t)) (map snd ?ss)), w)" "set w = set (a # vis) \<union> set (foot (map snd ms))"
        using fset by auto
      have "marshal_table api h (MarshalJSON api uj lit h m) a (a # vis) = Some (Inr (canon ?j), w)"
      proof (cases ?us)
        case Nil
        then have "kvs = []" using kvs by simp
        moreover from Nil w(1) have "w = a # vis" by simp
        ultimately show ?thesis using Nil ent canon_j by (simp add: marshal_table_def)
      next
        case (Cons u us')
        then have "kvs \<noteq> []" using kvs by auto
        then obtain k v kvs' where k: "kvs = (k, v) # kvs'" by (cases kvs) auto
        have vals: "map snd (map member_value ?ss) = map (\<lambda>t. fst (snd t)) (map snd ?ss)"
          by (simp add: member_value_def)
        have keys: "zip (map fst (map member_value ?ss)) (map (\<lambda>t. canon (fst t)) (map snd ?ss)) = ?out"
          by (simp add: member_value_def zip_map_map zip_same_conv_map)
        have "marshal_table api h (MarshalJSON api uj lit h m) a (a # vis)
            = map_option (map_prod (map_sum id (\<lambda>js. JObj (zip (map fst (sort_key fst kvs)) js))) id)
                (marshal_all (MarshalJSON api uj lit h m) (map snd (sort_key fst kvs)) (a # vis))"
          using k by (simp add: marshal_table_def ent scan_object_strings Let_def del: sort_key_simps)
        also have "\<dots> = Some (Inr (JObj ?out), w)"
          unfolding sorted vals w(1) using keys by simp
        finally show ?thesis using Cons canon_j by simp
      qed
      with w(2) d(2) n show "\<exists>w. MarshalJSON api uj lit h n (LTable a) vis
          = Some (Inr (canon ?j), w) \<and> set w = set vis \<union> set (a # foot (map snd ms))"
        by (intro exI [of _ w]) auto
    qed
  qed
  then show ?thesis by (simp add: encodes_def)
qed

lemma obj_entries_members:
  assumes "length kvs = length ts" and "map snd kvs = map fst ts"
  shows "obj_entries kvs (map (\<lambda>t. fst (snd t)) ts)
    = map (\<lambda>(k, v). (LString k, v)) (map member_value (live_members (zip (map fst kvs) ts)))"
  using assms
  by (induction kvs ts rule: list_induct2) (auto simp: obj_entries_def live_members_def member_value_def)

lemma zip_members:
  assumes "length kvs = length ts" and "map snd kvs = map fst ts"
  shows "map (\<lambda>m. (fst m, fst (snd m))) (zip (map fst kvs) ts) = kvs"
  using assms by (induction kvs ts rule: list_induct2) auto

lemma distinct_obj_entries:
  "distinct (map fst kvs) \<Longrightarrow> length kvs = length vs \<Longrightarrow> distinct (map fst (obj_entries kvs vs))"
proof -
  assume a: "distinct (map fst kvs)" "length kvs = length vs"
  have "map fst (zip (map (\<lambda>kv. LString (fst kv)) kvs) vs) = map LString (map fst kvs)" using a(2) by simp
  moreover have "distinct (map LString (map fst kvs))" using a(1) by (auto simp: distinct_map inj_on_def)
  ultimately have "distinct (map fst (zip (map (\<lambda>kv. LString (fst kv)) kvs) vs))" by metis
  then show ?thesis unfolding obj_entries_def by (rule distinct_map_filter)
qed

lemma encodes_leaf:
  assumes "\<And>n vis. MarshalJSON api uj lit h (Suc n) v vis = Some (Inr (canon j), vis)" and "v = LNil \<longleftrightarrow> j = JNull"
  shows "encodes api uj lit h (j, v, [])"
proof -
  have "\<forall>n \<ge> 1. \<exists>w. MarshalJSON api uj lit h n v vis = Some (Inr (canon j), w) \<and> set w = set vis" for vis
    using assms(1) by (metis Suc_le_D One_nat_def)
  with assms(2) show ?thesis unfolding encodes_def by auto
qed

lemma rep_encodes:
  assumes "lua_heap api" and "la_ok api h"
  shows "rep api h j v L \<Longrightarrow> good_json j \<Longrightarrow> encodes api uj lit h (j, v, L)"
    and "rep_list api h js vs L \<Longrightarrow> list_all good_json js \<Longrightarrow>
      \<exists>ts. js = map fst ts \<and> vs = map (\<lambda>t. fst (snd t)) ts \<and> L = foot ts
        \<and> list_all (encodes api uj lit h) ts"
proof (induction rule: rep_rep_list.inducts)
  case rep_null
  then show ?case by (intro encodes_leaf) auto
next
  case (rep_bool b)
  then show ?case by (intro encodes_leaf) auto
next
  case (rep_num x)
  then show ?case by (intro encodes_leaf) (auto split: lua_number.splits)
next
  case (rep_str s)
  then show ?case by (intro encodes_leaf) auto
next
  case (rep_arr js vs L a)
  then obtain ts where ts: "js = map fst ts" "vs = map (\<lambda>t. fst (snd t)) ts" "L = foot ts"
    "list_all (encodes api uj lit h) ts" by auto
  moreover have "la_entries api h a = lua_seq (filter (\<lambda>v. v \<noteq> LNil) vs)" using rep_arr by simp
  ultimately show ?case using encodes_arr [OF ts(4)] by simp
next
  case (rep_obj kvs vs L a)
  then have "list_all good_json (map snd kvs)" by (simp add: list_all_iff)
  with rep_obj obtain ts where ts: "map snd kvs = map fst ts" "vs = map (\<lambda>t. fst (snd t)) ts" "L = foot ts"
    "list_all (encodes api uj lit h) ts" by auto
  have len: "length kvs = length ts" using ts(1) by (metis length_map)
  let ?ms = "zip (map fst kvs) ts"
  have snds: "map snd ?ms = ts" using len by simp
  have d: "distinct (map fst kvs)" using rep_obj by simp
  have ent: "map_of (la_entries api h a) = map_of (obj_entries kvs vs)"
    using rep_obj by (simp add: obj_entries_def)
  have "mset (la_entries api h a) = mset (obj_entries kvs vs)"
  proof (rule map_of_same_mset)
    show "distinct (map fst (la_entries api h a))" by (rule lua_heap.entries_distinct [OF assms])
    show "distinct (map fst (obj_entries kvs vs))" using d len ts(2) by (intro distinct_obj_entries) auto
  qed (rule ent)
  then have "mset (la_entries api h a)
      = mset (map (\<lambda>(k, v). (LString k, v)) (map member_value (live_members ?ms)))"
    using obj_entries_members [OF len ts(1)] ts(2) by simp
  moreover have "list_all (encodes api uj lit h) (map snd ?ms)" using ts(4) snds by simp
  moreover have "distinct (map fst ?ms)" using d len by simp
  ultimately have "encodes api uj lit h
    (JObj (map (\<lambda>m. (fst m, fst (snd m))) ?ms), LTable a, a # foot (map snd ?ms))"
    by (intro encodes_obj)
  then show ?case using zip_members [OF len ts(1)] snds ts(3) by simp
next
  case rep_nil
  then show ?case by (intro exI [of _ "[]"]) (simp add: foot_def)
next
  case (rep_cons j v L js vs M)
  then obtain ts where "js = map fst ts" "vs = map (\<lambda>t. fst (snd t)) ts" "M = foot ts"
    "list_all (encodes api uj lit h) ts" by auto
  with rep_cons show ?case by (intro exI [of _ "(j, v, L) # ts"]) (auto simp: foot_def)
qed

lemma MarshalJSON_total:
  assumes "lua_heap api" and "la_ok api h" and "lval_live api h v" and "card (la_live api h) < n"
  obtains r w where "\<And>m. n \<le> m \<Longrightarrow> MarshalJSON api uj lit h m v [] = Some (r, w)"
proof -
  have "card (la_live api h - set []) < n" using assms(4) by simp
  from steps_okD [OF lua_heap.MarshalJSON_ends [OF assms(1,2)] assms(3) this, of uj lit]
  obtain r w where "MarshalJSON api uj lit h n v [] = Some (r, w)" by blast
  from that [of r w] MarshalJSON_mono [OF this] show ?thesis by blast
qed

subsection \<open>Properties\<close>


definition empty_heap :: "unit alist_heap" where
  "empty_heap = \<lparr>ah_next = 0, ah_tables = (\<lambda>_. []), ah_udata = (\<lambda>_. ()), ah_unext = 0\<rparr>"

lemma empty_heap_ok: "alist_ok empty_heap"
  by (simp add: alist_ok_def empty_heap_def)



lemma Encode_decoded:
  assumes "lua_heap api" and "la_ok api h" and "good_json j" and "DecodeValue api j h = (v, h')"
  shows "Encode api uj lit h' v = Some (Inr (if j = JNull then None else Some (canon j)))"
proof -
  from decode_all(1) [OF assms] obtain L where d: "decoded api h j v h' L" ..
  then have ok: "la_ok api h'" and live: "lval_live api h' v" and L: "distinct L"
    and r: "rep api h' j v L" by (simp_all add: decoded_def grows_def)
  have nil: "v = LNil \<longleftrightarrow> j = JNull" using rep_nil_iff [OF r] .
  show ?thesis
  proof (cases "v = LNil")
    case True
    with nil show ?thesis by (simp add: Encode_def)
  next
    case False
    let ?n = "Suc (Suc (card (la_live api h')))"
    have "encodes api uj lit h' (j, v, L)" by (rule rep_encodes(1) [OF assms(1) ok r assms(3)])
    from encodesD [OF this L, of "[]"] obtain N
      where "\<forall>n \<ge> N. \<exists>w. MarshalJSON api uj lit h' n v [] = Some (Inr (canon j), w) \<and> set w = set [] \<union> set L"
      by auto
    then obtain w where w: "MarshalJSON api uj lit h' (max N ?n) v [] = Some (Inr (canon j), w)"
      by (meson max.cobounded1)
    from MarshalJSON_total [OF assms(1) ok live, of ?n uj lit] obtain r x
      where "MarshalJSON api uj lit h' ?n v [] = Some (r, x)"
        "MarshalJSON api uj lit h' (max N ?n) v [] = Some (r, x)" by (metis less_SucI lessI max.cobounded2 order_refl)
    with w have "MarshalJSON api uj lit h' ?n v [] = Some (Inr (canon j), w)" by simp
    with False nil show ?thesis by (simp add: Encode_def)
  qed
qed

text \<open>
  C6: encoding a decoded value gives the JSON value back, up to what Lua tables cannot hold: nulls
  in arrays and objects are gone, keys come out sorted, and an empty object comes out as an empty
  array; a null at the top comes out as no text at all.
\<close>

theorem json_roundtrip:
  assumes "lua_heap api" and "la_ok api h" and "good_json j" and "DecodeValue api j h = (v, h')"
  shows "Encode api uj lit h' v = Some (Inr (if j = JNull then None else Some (canon j)))"
  by (rule Encode_decoded [OF assms])

lemma json_roundtrip_witness:
  "\<exists>v h'. DecodeValue (alist_api (\<lambda>_. [])) (JObj [(''b'', JArr [JBool True, JNull]), (''a'', JObj [])]) empty_heap = (v, h')
     \<and> Encode (alist_api (\<lambda>_. [])) (\<lambda>_. UD_Other) (\<lambda>s. Inr (JStr s)) h' v
       = Some (Inr (Some (JObj [(''a'', JArr []), (''b'', JArr [JBool True])])))"
proof -
  let ?j = "JObj [(''b'', JArr [JBool True, JNull]), (''a'', JObj [])]"
  obtain v h' where d: "DecodeValue (alist_api (\<lambda>_. [])) ?j empty_heap = (v, h')"
    by (cases "DecodeValue (alist_api (\<lambda>_. [])) ?j empty_heap")
  have ok: "la_ok (alist_api (\<lambda>_. [])) empty_heap" by (simp add: alist_api_simps empty_heap_ok)
  have "canon ?j = JObj [(''a'', JArr []), (''b'', JArr [JBool True])]" by code_simp
  with json_roundtrip [OF alist.lua_heap_axioms ok _ d, of "\<lambda>_. UD_Other" "\<lambda>s. Inr (JStr s)"] d
  show ?thesis by auto
qed

lemma scan_array_iff: "scan_array i es = Inr vs \<Longrightarrow> es = seq_from i vs"
  by (induction i es arbitrary: vs rule: scan_array.induct)
     (auto split: if_splits sum.splits)

lemma scan_object_iff: "scan_object es = Inr kvs \<Longrightarrow> es = map (\<lambda>(k, v). (LString k, v)) kvs"
  by (induction es arbitrary: kvs rule: scan_object.induct) (auto split: lval.splits sum.splits)

lemma marshal_all_length: "marshal_all f vs vis = Some (Inr js, w) \<Longrightarrow> length js = length vs"
  by (induction vs arbitrary: vis js) (auto split: option.splits sum.splits prod.splits)

text \<open>
  C29: a table is only encoded when it is a list or an object.  If \<open>Encode\<close> succeeds on a table, the
  result is an array and the table is a list of that length, or it is an object, all keys of the
  table are strings, and the members are its keys, each once, in sorted order.  Every other table
  (sparse, or with mixed or other keys) is an error.
\<close>

theorem Encode_shape:
  assumes "Encode api uj lit h (LTable a) = Some (Inr (Some j))"
  shows "(\<exists>js vs. j = JArr js \<and> la_entries api h a = lua_seq vs \<and> length js = length vs)
    \<or> (\<exists>kjs. j = JObj kjs \<and> la_entries api h a \<noteq> [] \<and> sorted (map fst kjs)
         \<and> mset (map fst (la_entries api h a)) = mset (map (\<lambda>kj. LString (fst kj)) kjs))"
proof -
  let ?f = "MarshalJSON api uj lit h (Suc (card (la_live api h)))"
  from assms obtain r w where r: "marshal_table api h ?f a [a] = Some (r, w)" "map_sum id Some r = Inr (Some j)"
    by (auto simp: Encode_def)
  then have m: "marshal_table api h ?f a [a] = Some (Inr j, w)" by (cases r) auto
  show ?thesis
  proof (cases "la_entries api h a")
    case Nil
    with m show ?thesis by (auto simp: marshal_table_def lua_seq_def)
  next
    case (Cons e es)
    obtain k v where [simp]: "e = (k, v)" by (cases e)
    show ?thesis
    proof (cases "ltype k")
      case LTNumber
      with m Cons obtain vs js x where s: "scan_array 1 (la_entries api h a) = Inr vs"
        and "marshal_all ?f vs [a] = Some (Inr js, x)" "j = JArr js"
        by (auto simp: marshal_table_def map_sum_Inr simp del: scan_array.simps split: sum.splits)
      with scan_array_iff [OF s] marshal_all_length show ?thesis unfolding lua_seq_def by metis
    next
      case LTString
      with m Cons obtain kvs js x where s: "scan_object (la_entries api h a) = Inr kvs"
        and js: "marshal_all ?f (map snd (sort_key fst kvs)) [a] = Some (Inr js, x)"
          "j = JObj (zip (map fst (sort_key fst kvs)) js)"
        by (auto simp: marshal_table_def map_sum_Inr Let_def simp del: scan_object.simps split: sum.splits)
      have keys: "map fst (zip (map fst (sort_key fst kvs)) js) = map fst (sort_key fst kvs)"
        using marshal_all_length [OF js(1)] by simp
      have "map (\<lambda>kj. LString (fst kj)) (zip (map fst (sort_key fst kvs)) js)
          = map LString (map fst (zip (map fst (sort_key fst kvs)) js))" by simp
      also have "\<dots> = map LString (map fst (sort_key fst kvs))" by (simp only: keys)
      finally have "mset (map (\<lambda>kj. LString (fst kj)) (zip (map fst (sort_key fst kvs)) js))
          = mset (map (\<lambda>kv. LString (fst kv)) kvs)" by (simp add: image_mset.compositionality o_def)
      also have "\<dots> = mset (map fst (la_entries api h a))"
        using scan_object_iff [OF s] by (simp add: o_def case_prod_unfold image_mset.compositionality)
      finally have "mset (map fst (la_entries api h a))
          = mset (map (\<lambda>kj. LString (fst kj)) (zip (map fst (sort_key fst kvs)) js))" by simp
      with js(2) keys Cons show ?thesis by (intro disjI2) (auto simp: sorted_sort_key)
    qed (use m Cons in \<open>auto simp: marshal_table_def\<close>)
  qed
qed

lemma Encode_shape_witness:
  "\<exists>j. Encode (alist_api (\<lambda>_. [])) (\<lambda>_. UD_Other) (\<lambda>s. Inr (JStr s))
         (empty_heap\<lparr>ah_next := 1, ah_tables := (\<lambda>_. [])(0 := [(LString ''k'', LBool True)])\<rparr>) (LTable 0)
       = Some (Inr (Some j)) \<and> (\<exists>kjs. j = JObj kjs)"
proof -
  let ?h = "empty_heap\<lparr>ah_next := 1, ah_tables := (\<lambda>_. [])(0 := [(LString ''k'', LBool True)])\<rparr>"
  have e: "Encode (alist_api (\<lambda>_. [])) (\<lambda>_. UD_Other) (\<lambda>s. Inr (JStr s)) ?h (LTable 0)
       = Some (Inr (Some (JObj [(''k'', JBool True)])))"
    by (simp add: Encode_def alist_api_simps marshal_table_def)
  from Encode_shape [OF e] e show ?thesis by auto
qed

text \<open>
  a table that occurs twice is rejected even when nothing is nested in itself: \<open>visited\<close> is never
  cleared when the traversal leaves a table, so a list that holds the same (here: empty) table
  twice gives the error for recursive nesting.
\<close>

theorem shared_table_rejected:
  assumes "la_entries api h a = lua_seq [LTable b, LTable b]" and "la_entries api h b = []" and "a \<noteq> b"
  shows "Encode api uj lit h (LTable a) = Some (Inl ErrNested)"
proof -
  let ?f = "MarshalJSON api uj lit h (Suc (card (la_live api h)))"
  have seq: "la_entries api h a = [(index_key 1, LTable b), (index_key 2, LTable b)]"
    using assms(1) by (simp add: lua_seq_def numeral_2_eq_2)
  have scan: "scan_array 1 (la_entries api h a) = Inr [LTable b, LTable b]"
    using assms(1) scan_array_seq [of 1 "[LTable b, LTable b]"] by (simp only: lua_seq_def)
  have all: "marshal_all ?f [LTable b, LTable b] [a] = Some (Inl ErrNested, [b, a])"
    using assms(2,3) by (simp add: marshal_table_def)
  have "marshal_table api h ?f a [a]
      = map_option (map_prod (map_sum id JArr) id) (marshal_all ?f [LTable b, LTable b] [a])"
    unfolding marshal_table_def scan by (simp add: seq index_key_def)
  also have "\<dots> = Some (Inl ErrNested, [b, a])" unfolding all by simp
  finally show ?thesis by (simp add: Encode_def)
qed

lemma shared_table_rejected_witness:
  "Encode (alist_api (\<lambda>_. [])) (\<lambda>_. UD_Other) (\<lambda>s. Inr (JStr s))
     (empty_heap\<lparr>ah_next := 2, ah_tables := (\<lambda>_. [])(0 := lua_seq [LTable 1, LTable 1])\<rparr>) (LTable 0)
   = Some (Inl ErrNested)"
  by (rule shared_table_rejected [of _ _ _ 1]) (simp_all add: alist_api_simps)

text \<open>
  A JSON value that Lua tables can hold as it is: no null in it, no empty object, the keys of an object sorted, and
  numbers that JSON can write.  What user data contributes to a text is \<open>settled\<close> by assumption.
\<close>

definition settled :: "json \<Rightarrow> bool" where
  "settled j \<longleftrightarrow> good_json j \<and> canon j = j \<and> j \<noteq> JNull"

definition settled_udata :: "('u \<Rightarrow> udata_json) \<Rightarrow> (string \<Rightarrow> enc_error + json) \<Rightarrow> bool" where
  "settled_udata uj lit \<longleftrightarrow>
     (\<forall>u j. case uj u of UD_Stringer s \<Rightarrow> lit s = Inr j \<longrightarrow> settled j | UD_Marshaler r \<Rightarrow> r = Inr j \<longrightarrow> settled j
              | UD_Other \<Rightarrow> True)"

lemma settled_leaf [simp]: "settled (JBool b)" "settled (JNum (Fin q))" "settled (JStr s)"
  by (simp_all add: settled_def)

lemma settled_arr: "list_all settled js \<Longrightarrow> settled (JArr js)"
  by (induction js) (auto simp: settled_def)

lemma settled_obj:
  assumes "list_all settled js" and "length ks = length js" and "sorted ks" and "distinct ks" and "ks \<noteq> []"
  shows "settled (JObj (zip ks js))"
proof -
  let ?z = "zip ks js"
  have el: "settled (snd kj)" if "kj \<in> set ?z" for kj
    using assms(1) that by (cases kj) (auto simp: list_all_iff dest: set_zip_rightD)
  have "filter (\<lambda>kv. snd kv \<noteq> JNull) ?z = ?z" using el by (intro filter_True) (auto simp: settled_def)
  moreover have "map (\<lambda>kv. (fst kv, canon (snd kv))) ?z = ?z" using el by (intro map_idI) (auto simp: settled_def)
  moreover have "sort_key fst ?z = ?z" using assms(2,3) by (simp add: sort_key_id_if_sorted)
  moreover have "?z \<noteq> []" using assms(2,5) by auto
  ultimately have "canon (JObj ?z) = JObj ?z" by (simp add: Let_def del: zip_eq_Nil_iff)
  moreover have "good_json (JObj ?z)" using assms(2,4) el by (auto simp: list_all_iff settled_def)
  ultimately show ?thesis by (simp add: settled_def)
qed

text \<open>One step of the encoder that only gives such values, on anything but nil.\<close>

definition gives_settled :: "(lval \<Rightarrow> addr list \<Rightarrow> enc_state option) \<Rightarrow> bool" where
  "gives_settled f \<longleftrightarrow> (\<forall>v vis j w. v \<noteq> LNil \<longrightarrow> f v vis = Some (Inr j, w) \<longrightarrow> settled j)"

lemma gives_settledD: "gives_settled f \<Longrightarrow> v \<noteq> LNil \<Longrightarrow> f v vis = Some (Inr j, w) \<Longrightarrow> settled j"
  unfolding gives_settled_def by blast

lemma marshal_all_settled:
  "gives_settled f \<Longrightarrow> LNil \<notin> set vs \<Longrightarrow> marshal_all f vs vis = Some (Inr js, w) \<Longrightarrow> list_all settled js"
  by (induction vs arbitrary: vis js w) (auto split: option.splits sum.splits prod.splits, metis gives_settledD)

context lua_heap
begin

lemma entries_not_nil: "la_ok api h \<Longrightarrow> LNil \<notin> set (map snd (la_entries api h a))"
  using entries_ok by fastforce

lemma marshal_table_settled:
  assumes ok: "la_ok api h" and f: "gives_settled f" and m: "marshal_table api h f a vis = Some (Inr j, w)"
  shows "settled j"
proof (cases "la_entries api h a")
  case Nil
  with m show ?thesis by (auto simp: marshal_table_def settled_arr)
next
  case (Cons e es)
  obtain k v where e: "e = (k, v)" by (cases e)
  show ?thesis
  proof (cases "ltype k")
    case LTNumber
    with m Cons e obtain vs js x where s: "scan_array 1 (la_entries api h a) = Inr vs"
      and js: "marshal_all f vs vis = Some (Inr js, x)" "j = JArr js"
      by (auto simp: marshal_table_def map_sum_Inr simp del: scan_array.simps split: sum.splits)
    have "LNil \<notin> set vs" using scan_array_values [OF s] entries_not_nil [OF ok] by simp
    with js show ?thesis using marshal_all_settled [OF f] settled_arr by blast
  next
    case LTString
    with m Cons e obtain kvs js x where s: "scan_object (la_entries api h a) = Inr kvs"
      and js: "marshal_all f (map snd (sort_key fst kvs)) vis = Some (Inr js, x)"
        "j = JObj (zip (map fst (sort_key fst kvs)) js)"
      by (auto simp: marshal_table_def map_sum_Inr Let_def simp del: scan_object.simps split: sum.splits)
    have en: "la_entries api h a = map (\<lambda>(k, v). (LString k, v)) kvs" using scan_object_iff [OF s] .
    have "LNil \<notin> set (map snd kvs)" using scan_object_values [OF s] entries_not_nil [OF ok] by metis
    then have a: "list_all settled js" using marshal_all_settled [OF f _ js(1)] by simp
    have "map fst (la_entries api h a) = map LString (map fst kvs)" using en by (simp add: case_prod_unfold o_def)
    then have "distinct (map LString (map fst kvs))" using entries_distinct [OF ok, of a] by metis
    then have "distinct (map fst kvs)" by (simp only: distinct_map)
    then have d: "distinct (map fst (sort_key fst kvs))"
      by (simp add: distinct_map)
    have "length kvs \<noteq> 0" using en Cons by auto
    then have "sort_key fst kvs \<noteq> []" by (metis length_sort list.size(3))
    then show ?thesis unfolding js(2)
      by (intro settled_obj a d) (use marshal_all_length [OF js(1)] in \<open>auto simp: sorted_sort_key\<close>)
  qed (use m Cons e in \<open>auto simp: marshal_table_def\<close>)
qed

lemma MarshalJSON_settled:
  assumes "la_ok api h" and "settled_udata uj lit"
  shows "gives_settled (MarshalJSON api uj lit h n)"
proof (induction n)
  case 0
  then show ?case by (simp add: gives_settled_def)
next
  case (Suc n)
  note t = marshal_table_settled [OF assms(1) Suc]
  have u: "settled j" if "(case uj u of UD_Stringer s \<Rightarrow> lit s | UD_Marshaler r \<Rightarrow> r | UD_Other \<Rightarrow> Inr (JStr ''*USERDATA*'')) = Inr j"
    for u j using assms(2) [unfolded settled_udata_def, rule_format, of j u] that by (cases "uj u") auto
  show ?case unfolding gives_settled_def
    by (auto split: lval.splits lua_number.splits if_splits dest: t u)
qed

lemma Encode_settled:
  assumes "la_ok api h" and "settled_udata uj lit" and "Encode api uj lit h v = Some (Inr (Some j))"
  shows "settled j"
proof -
  let ?f = "MarshalJSON api uj lit h (Suc (Suc (card (la_live api h))))"
  from assms(3) obtain r w where r: "?f v [] = Some (r, w)" "map_sum id Some r = Inr (Some j)" "v \<noteq> LNil"
    by (auto simp: Encode_def simp del: MarshalJSON.simps split: if_splits)
  then have "?f v [] = Some (Inr j, w)" by (cases r) auto
  with MarshalJSON_settled [OF assms(1,2)] r(3) show ?thesis by (rule gives_settledD)
qed

end

end
