(* ===== verification/Cluster.thy ===== *)
theory Cluster
  imports Complex_Main "HOL-Library.Word" "HOL-Library.AList" Prelude Rpc_Types
begin

unbundle bit_operations_syntax

text \<open>
  The cluster side of a server (\<open>pkg/server/server.go\<close>, \<open>delegate.go\<close>, \<open>event_delegate.go\<close>,
  \<open>merge_delegate.go\<close>, \<open>messages.go\<close>, \<open>meta.go\<close> and the broadcast type of \<open>lua_rpc.go\<close>): which node
  offers which service with which weight, the gRPC clients of the other nodes, and the callbacks
  through which memberlist drives them.

  memberlist, gRPC and the JSON text format are not part of the repository: dialling a node, the
  queue of broadcasts and the conversion of broadcasts to text are arguments.  A Go map over which the
  code iterates is an association list whose order stands for the order of the iteration.  A panic and
  a \<open>logger.Fatal\<close> are \<open>None\<close>.
\<close>

subsection \<open>Node metadata\<close>

record meta =
  RPCPort :: "32 word"

definition Meta_Encode :: "meta \<Rightarrow> 8 word list" where
  "Meta_Encode m = map (\<lambda>i. ucast (drop_bit (8 * i) (RPCPort m))) [0..<4]"

text \<open>The slice expression \<open>b[0:4]\<close> panics on fewer than four bytes; further bytes are ignored.\<close>

definition DecodeMeta :: "8 word list \<Rightarrow> meta option" where
  "DecodeMeta b =
     (case b of
        b0 # b1 # b2 # b3 # bs \<Rightarrow>
          Some \<lparr>RPCPort = ucast b0 OR push_bit 8 (ucast b1) OR push_bit 16 (ucast b2) OR push_bit 24 (ucast b3)\<rparr>
      | _ \<Rightarrow> None)"

subsection \<open>Data\<close>

record registry_broadcast =
  rg_node :: string
  rg_time :: instant
  rg_name :: string
  rg_weight :: rat
  rg_deleted :: bool

record node =
  nd_name :: string
  nd_addr :: string
  nd_meta :: "8 word list"

record endpoint =
  ep_name :: string
  ep_addr :: string
  ep_meta :: meta

record gossip_config =
  gc_addr :: string
  gc_port :: int
  gc_secret :: string

record rpc_config =
  rc_addr :: string
  rc_port :: "32 word"
  rc_reply_concurrency :: int

record queue_config =
  qc_dir :: string
  qc_max_bytes_per_file :: int
  qc_max_msg_size :: int
  qc_sync_every :: int
  qc_sync_timeout :: duration

record config =
  cfg_node_name :: string
  cfg_gossip :: gossip_config
  cfg_rpc :: rpc_config
  cfg_concurrency :: int
  cfg_queue :: queue_config
  cfg_plugins :: "(string \<times> string) list"
  cfg_script_args :: "string list"

text \<open>
  The cluster fields of \<open>Server\<close>.  \<open>sv_endpoints\<close> are the connections, \<open>sv_rpcs\<close> the clients on
  them; \<open>sv_closed\<close> lists the connections that have been closed, \<open>sv_queued\<close> the broadcasts given to
  the queue.
\<close>

record 'cc server =
  sv_config :: config
  sv_meta :: meta
  sv_node :: string
  sv_endpoints :: "string \<rightharpoonup> 'cc"
  sv_rpcs :: "string \<rightharpoonup> 'cc"
  sv_closed :: "'cc list"
  sv_services :: "string \<rightharpoonup> (string \<times> rat) list"
  sv_local :: "(string \<times> rat) list"
  sv_queued :: "registry_broadcast list"

definition server_New :: "config \<Rightarrow> string \<Rightarrow> 'cc server" where
  "server_New cfg name =
     \<lparr>sv_config = (if cfg_concurrency cfg < 1 then cfg\<lparr>cfg_concurrency := 1\<rparr> else cfg),
      sv_meta = \<lparr>RPCPort = rc_port (cfg_rpc cfg)\<rparr>, sv_node = name,
      sv_endpoints = Map.empty, sv_rpcs = Map.empty, sv_closed = [],
      sv_services = Map.empty, sv_local = [], sv_queued = []\<rparr>"

subsection \<open>Services\<close>

definition handleRegistryBroadcast :: "registry_broadcast \<Rightarrow> 'cc server \<Rightarrow> 'cc server" where
  "handleRegistryBroadcast b s =
     (let group = (case sv_services s (rg_name b) of None \<Rightarrow> [] | Some g \<Rightarrow> g);
          group' = (if rg_deleted b then AList.delete (rg_node b) group
                    else AList.update (rg_node b) (rg_weight b) group)
      in s\<lparr>sv_services := (sv_services s)(rg_name b \<mapsto> group')\<rparr>)"

text \<open>\<open>NotifyMsg\<close>: the first byte is the type; an empty message panics.\<close>

definition TypeRegistryBroadcast :: char where
  "TypeRegistryBroadcast = CHR ''r''"

definition marshalMessage :: "(registry_broadcast \<Rightarrow> bytes) \<Rightarrow> char \<Rightarrow> registry_broadcast \<Rightarrow> bytes" where
  "marshalMessage print typ b = typ # print b"

definition unmarshalMessage :: "(bytes \<Rightarrow> string + registry_broadcast) \<Rightarrow> bytes \<Rightarrow> string + registry_broadcast" where
  "unmarshalMessage parse b = parse (tl b)"

definition broadcast_Message :: "(registry_broadcast \<Rightarrow> bytes) \<Rightarrow> registry_broadcast \<Rightarrow> bytes" where
  "broadcast_Message print b = marshalMessage print TypeRegistryBroadcast b"

definition NotifyMsg ::
    "(bytes \<Rightarrow> string + registry_broadcast) \<Rightarrow> bytes \<Rightarrow> 'cc server \<Rightarrow> 'cc server option" where
  "NotifyMsg parse b s =
     (case b of
        [] \<Rightarrow> None
      | c # _ \<Rightarrow>
          (if c = TypeRegistryBroadcast
           then (case unmarshalMessage parse b of
                   Inl e \<Rightarrow> Some s
                 | Inr rb \<Rightarrow> Some (handleRegistryBroadcast rb s))
           else Some s))"

definition NodeMeta :: "nat \<Rightarrow> 'cc server \<Rightarrow> 8 word list" where
  "NodeMeta limit s = Meta_Encode (sv_meta s)"

text \<open>\<open>fetch\<close> is memberlist's \<open>GetBroadcasts\<close> on its queue: the messages to send and the rest.\<close>

definition GetBroadcasts ::
    "(registry_broadcast list \<Rightarrow> bytes list \<times> registry_broadcast list) \<Rightarrow> 'cc server \<Rightarrow>
     bytes list \<times> 'cc server" where
  "GetBroadcasts fetch s = (case fetch (sv_queued s) of (msgs, rest) \<Rightarrow> ([], s\<lparr>sv_queued := rest\<rparr>))"

definition local_broadcasts :: "instant \<Rightarrow> 'cc server \<Rightarrow> registry_broadcast list" where
  "local_broadcasts now s =
     map (\<lambda>(name, weight). \<lparr>rg_node = sv_node s, rg_time = now, rg_name = name, rg_weight = weight,
                            rg_deleted = False\<rparr>) (sv_local s)"

definition LocalState :: "(registry_broadcast list \<Rightarrow> bytes) \<Rightarrow> instant \<Rightarrow> 'cc server \<Rightarrow> bytes" where
  "LocalState print now s = print (local_broadcasts now s)"

definition MergeRemoteState ::
    "(bytes \<Rightarrow> string + registry_broadcast list) \<Rightarrow> bytes \<Rightarrow> 'cc server \<Rightarrow> 'cc server" where
  "MergeRemoteState parse buf s =
     (case parse buf of Inl e \<Rightarrow> s | Inr bs \<Rightarrow> fold handleRegistryBroadcast bs s)"

text \<open>\<open>b.Invalidates(o)\<close>.\<close>

definition Invalidates :: "registry_broadcast \<Rightarrow> registry_broadcast \<Rightarrow> bool" where
  "Invalidates b other \<longleftrightarrow> rg_node other = rg_node b \<and> rg_time b < rg_time other"

subsection \<open>Nodes\<close>

definition handleNode ::
    "(string \<Rightarrow> 32 word \<Rightarrow> string + 'cc) \<Rightarrow> node \<Rightarrow> 'cc server \<Rightarrow> (endpoint \<times> 'cc server) option" where
  "handleNode dial nd s =
     (case DecodeMeta (nd_meta nd) of
        None \<Rightarrow> None
      | Some m \<Rightarrow>
          (let s1 = (case sv_endpoints s (nd_name nd) of
                       None \<Rightarrow> s | Some cc \<Rightarrow> s\<lparr>sv_closed := sv_closed s @ [cc]\<rparr>)
           in case dial (nd_addr nd) (RPCPort m) of
                Inl e \<Rightarrow> None
              | Inr cc \<Rightarrow>
                  Some (\<lparr>ep_name = nd_name nd, ep_addr = nd_addr nd, ep_meta = m\<rparr>,
                        s1\<lparr>sv_endpoints := (sv_endpoints s1)(nd_name nd \<mapsto> cc),
                           sv_rpcs := (sv_rpcs s1)(nd_name nd \<mapsto> cc)\<rparr>)))"

definition getRemoteRPC :: "string \<Rightarrow> 'cc server \<Rightarrow> 'cc option" where
  "getRemoteRPC name s = sv_rpcs s name"

definition NotifyJoin :: "(string \<Rightarrow> 32 word \<Rightarrow> string + 'cc) \<Rightarrow> node \<Rightarrow> 'cc server \<Rightarrow> 'cc server option" where
  "NotifyJoin dial nd s = map_option snd (handleNode dial nd s)"

definition NotifyLeave :: "node \<Rightarrow> 'cc server \<Rightarrow> 'cc server" where
  "NotifyLeave nd s =
     s\<lparr>sv_rpcs := (sv_rpcs s)(nd_name nd := None),
       sv_endpoints := (sv_endpoints s)(nd_name nd := None),
       sv_services := map_option (AList.delete (nd_name nd)) \<circ> sv_services s\<rparr>"

definition NotifyUpdate :: "(string \<Rightarrow> 32 word \<Rightarrow> string + 'cc) \<Rightarrow> node \<Rightarrow> 'cc server \<Rightarrow> 'cc server option" where
  "NotifyUpdate dial nd s =
     (if sv_endpoints s (nd_name nd) = None then Some s else map_option snd (handleNode dial nd s))"

fun NotifyMerge :: "(string \<Rightarrow> 32 word \<Rightarrow> string + 'cc) \<Rightarrow> node list \<Rightarrow> 'cc server \<Rightarrow> 'cc server option" where
  "NotifyMerge dial [] s = Some s"
| "NotifyMerge dial (p # ps) s =
     (case handleNode dial p s of None \<Rightarrow> None | Some (_, s1) \<Rightarrow> NotifyMerge dial ps s1)"

text \<open>The callbacks that only log or return a constant.\<close>

definition NotifyConflict :: "node \<Rightarrow> node \<Rightarrow> 'cc server \<Rightarrow> 'cc server" where
  "NotifyConflict existing other s = s"

definition NotifyAlive :: "node \<Rightarrow> 'cc server \<Rightarrow> string option" where
  "NotifyAlive peer s = None"

definition AckPayload :: "'cc server \<Rightarrow> bytes" where
  "AckPayload s = []"

subsection \<open>The local services\<close>

text \<open>\<open>luaRPCEnv.Register\<close>, \<open>luaRPCEnv.Start\<close> and the announcement in \<open>StopLua\<close>.\<close>

definition env_Register :: "string \<Rightarrow> 'cc server \<Rightarrow> 'cc server" where
  "env_Register name s = s\<lparr>sv_local := AList.update name 1 (sv_local s)\<rparr>"

definition env_Start :: "instant \<Rightarrow> 'cc server \<Rightarrow> 'cc server" where
  "env_Start now s = s\<lparr>sv_queued := sv_queued s @ local_broadcasts now s\<rparr>"

definition announce_stop :: "instant \<Rightarrow> 'cc server \<Rightarrow> 'cc server" where
  "announce_stop now s =
     s\<lparr>sv_queued := sv_queued s @
       map (\<lambda>(name, weight). \<lparr>rg_node = sv_node s, rg_time = now, rg_name = name, rg_weight = 0,
                              rg_deleted = True\<rparr>) (sv_local s)\<rparr>"

subsection \<open>Lemmas\<close>

lemma bytes_of_word:
  fixes w :: "32 word"
  shows "ucast (ucast w :: 8 word) OR push_bit 8 (ucast (ucast (drop_bit 8 w) :: 8 word))
      OR push_bit 16 (ucast (ucast (drop_bit 16 w) :: 8 word))
      OR push_bit 24 (ucast (ucast (drop_bit 24 w) :: 8 word)) = w"
  apply (rule bit_word_eqI)
  apply (auto simp: bit_simps)
  subgoal for n by (cases "n < 24") auto
  done

lemma decode_encode: "DecodeMeta (Meta_Encode m) = Some m"
  using bytes_of_word [of "RPCPort m"]
  by (simp add: DecodeMeta_def Meta_Encode_def upt_rec)

lemma word_of_bytes:
  fixes b0 b1 b2 b3 :: "8 word"
  defines "w \<equiv> ucast b0 OR push_bit 8 (ucast b1) OR push_bit 16 (ucast b2) OR push_bit 24 (ucast b3) :: 32 word"
  shows "ucast w = b0" "ucast (drop_bit 8 w) = b1" "ucast (drop_bit 16 w) = b2" "ucast (drop_bit 24 w) = b3"
  unfolding w_def by (rule bit_word_eqI; auto simp: bit_simps dest: bit_imp_le_length)+

lemma encode_decode: "length b = 4 \<Longrightarrow> \<exists>m. DecodeMeta b = Some m \<and> Meta_Encode m = b"
proof -
  assume "length b = 4"
  then obtain b0 b1 b2 b3 where b: "b = [b0, b1, b2, b3]"
    by (auto simp: length_Suc_conv eval_nat_numeral)
  show ?thesis
    unfolding b using word_of_bytes [of b0 b1 b2 b3]
    by (auto simp: DecodeMeta_def Meta_Encode_def upt_rec)
qed

text \<open>The weight of a node for a service, the abstract content of \<open>sv_services\<close>.\<close>

definition offered :: "'cc server \<Rightarrow> string \<Rightarrow> string \<Rightarrow> rat option" where
  "offered s name node = (case sv_services s name of None \<Rightarrow> None | Some g \<Rightarrow> map_of g node)"

definition broadcast_effect :: "registry_broadcast \<Rightarrow> rat option" where
  "broadcast_effect b = (if rg_deleted b then None else Some (rg_weight b))"

lemma map_of_delete: "map_of (AList.delete k g) = (map_of g)(k := None)"
  by (rule delete_conv')

lemma offered_handle:
  "offered (handleRegistryBroadcast b s) name node =
     (if name = rg_name b \<and> node = rg_node b then broadcast_effect b else offered s name node)"
  by (auto simp: offered_def handleRegistryBroadcast_def broadcast_effect_def Let_def
        update_conv' delete_conv' split: option.splits)

text \<open>The last broadcast of a list about a service and a node.\<close>

fun last_about :: "string \<Rightarrow> string \<Rightarrow> registry_broadcast list \<Rightarrow> registry_broadcast option" where
  "last_about name node [] = None"
| "last_about name node (b # bs) =
     (case last_about name node bs of
        Some c \<Rightarrow> Some c
      | None \<Rightarrow> if rg_name b = name \<and> rg_node b = node then Some b else None)"

lemma offered_fold:
  "offered (fold handleRegistryBroadcast bs s) name node =
     (case last_about name node bs of None \<Rightarrow> offered s name node | Some b \<Rightarrow> broadcast_effect b)"
  by (induction bs arbitrary: s) (auto simp: offered_handle split: option.splits)

lemma handle_frame [frame_simps]:
  "sv_endpoints (handleRegistryBroadcast b s) = sv_endpoints s"
  "sv_rpcs (handleRegistryBroadcast b s) = sv_rpcs s"
  "sv_closed (handleRegistryBroadcast b s) = sv_closed s"
  "sv_local (handleRegistryBroadcast b s) = sv_local s"
  by (simp_all add: handleRegistryBroadcast_def Let_def)

lemma fold_handle_frame [frame_simps]:
  "sv_endpoints (fold handleRegistryBroadcast bs s) = sv_endpoints s"
  "sv_rpcs (fold handleRegistryBroadcast bs s) = sv_rpcs s"
  by (induction bs arbitrary: s) (simp_all add: frame_simps)

text \<open>Memberlist's callbacks.\<close>

datatype cluster_event =
    CJoin node | CLeave node | CUpdate node | CMerge "node list" | CMsg bytes | CState bytes

fun cluster_step ::
    "(string \<Rightarrow> 32 word \<Rightarrow> string + 'cc) \<Rightarrow> (bytes \<Rightarrow> string + registry_broadcast) \<Rightarrow>
     (bytes \<Rightarrow> string + registry_broadcast list) \<Rightarrow> cluster_event \<Rightarrow> 'cc server \<Rightarrow> 'cc server option" where
  "cluster_step dial parse parses (CJoin nd) s = NotifyJoin dial nd s"
| "cluster_step dial parse parses (CLeave nd) s = Some (NotifyLeave nd s)"
| "cluster_step dial parse parses (CUpdate nd) s = NotifyUpdate dial nd s"
| "cluster_step dial parse parses (CMerge nds) s = NotifyMerge dial nds s"
| "cluster_step dial parse parses (CMsg b) s = NotifyMsg parse b s"
| "cluster_step dial parse parses (CState b) s = Some (MergeRemoteState parses b s)"

definition cluster_inv :: "'cc server \<Rightarrow> bool" where
  "cluster_inv s \<longleftrightarrow> sv_rpcs s = sv_endpoints s
     \<and> (\<forall>name g. sv_services s name = Some g \<longrightarrow> distinct (map fst g))"

lemma cluster_inv_handle: "cluster_inv s \<Longrightarrow> cluster_inv (handleRegistryBroadcast b s)"
  by (auto simp: cluster_inv_def handleRegistryBroadcast_def Let_def distinct_update distinct_delete
        split: option.splits)

lemma cluster_inv_handleNode: "cluster_inv s \<Longrightarrow> handleNode dial nd s = Some (ep, t) \<Longrightarrow> cluster_inv t"
  by (auto simp: cluster_inv_def handleNode_def Let_def split: option.splits sum.splits)

lemma cluster_inv_merge: "cluster_inv s \<Longrightarrow> NotifyMerge dial nds s = Some t \<Longrightarrow> cluster_inv t"
  by (induction nds arbitrary: s) (auto split: option.splits dest: cluster_inv_handleNode)

lemma cluster_inv_leave: "cluster_inv s \<Longrightarrow> cluster_inv (NotifyLeave nd s)"
  by (auto simp: cluster_inv_def NotifyLeave_def distinct_delete)

lemma cluster_inv_fold: "cluster_inv s \<Longrightarrow> cluster_inv (fold handleRegistryBroadcast bs s)"
  by (rule fold_inv) (auto intro: cluster_inv_handle)

lemma cluster_inv_step:
  "cluster_inv s \<Longrightarrow> cluster_step dial parse parses e s = Some t \<Longrightarrow> cluster_inv t"
  by (cases e)
     (auto simp: NotifyJoin_def NotifyUpdate_def NotifyMsg_def MergeRemoteState_def
        intro: cluster_inv_leave cluster_inv_handle cluster_inv_fold
        dest: cluster_inv_handleNode cluster_inv_merge split: list.splits sum.splits if_splits)

lemma cluster_inv_new: "cluster_inv (server_New cfg name)"
  by (simp add: cluster_inv_def server_New_def)

lemma offered_leave:
  "offered (NotifyLeave nd s) name node = (if node = nd_name nd then None else offered s name node)"
  by (auto simp: offered_def NotifyLeave_def delete_conv' split: option.splits)

text \<open>\<open>NotifyLeave\<close> forgets the connection of the node without closing it.\<close>

lemma leave_leaks: "sv_closed (NotifyLeave nd s) = sv_closed s \<and> sv_endpoints (NotifyLeave nd s) (nd_name nd) = None"
  by (simp add: NotifyLeave_def)

subsection \<open>Properties\<close>

text \<open>The configuration an empty file gives.\<close>

definition empty_config :: config where
  "empty_config =
     \<lparr>cfg_node_name = [], cfg_gossip = \<lparr>gc_addr = [], gc_port = 0, gc_secret = []\<rparr>,
      cfg_rpc = \<lparr>rc_addr = [], rc_port = 0, rc_reply_concurrency = 0\<rparr>, cfg_concurrency = 0,
      cfg_queue = \<lparr>qc_dir = [], qc_max_bytes_per_file = 0, qc_max_msg_size = 0, qc_sync_every = 0, qc_sync_timeout = 0\<rparr>,
      cfg_plugins = [], cfg_script_args = []\<rparr>"

text \<open>
  C15: after any sequence of broadcasts a node offers a service exactly as the last broadcast about
  the two says, whatever the timestamps: with the broadcast's weight, or not at all when it was a
  deletion; pairs that no broadcast mentions are as before.
\<close>

theorem registry_last_wins:
  "offered (fold handleRegistryBroadcast bs s) name node =
     (case last_about name node bs of
        None \<Rightarrow> offered s name node
      | Some b \<Rightarrow> if rg_deleted b then None else Some (rg_weight b))"
  by (simp add: offered_fold broadcast_effect_def split: option.splits)

lemma last_about_local:
  "distinct (map fst ls) \<Longrightarrow>
     last_about name node (map (\<lambda>(n, w). \<lparr>rg_node = nd, rg_time = now, rg_name = n, rg_weight = w, rg_deleted = False\<rparr>) ls)
     = (if node = nd then map_option (\<lambda>w. \<lparr>rg_node = nd, rg_time = now, rg_name = name, rg_weight = w, rg_deleted = False\<rparr>)
          (map_of ls name) else None)"
  by (induction ls) (auto split: option.splits simp: map_of_eq_None_iff image_iff dest: map_of_SomeD)

text \<open>
  C28: push/pull transfers the services: when a node merges the local state of another one, it knows
  every service the other node has registered, with its weight, and everything else it knew stays.
  The text format only has to read back what it wrote.
\<close>

theorem push_pull_transfers:
  assumes "parse (print (local_broadcasts now s)) = Inr (local_broadcasts now s)"
    and "distinct (map fst (sv_local s))"
  shows "offered (MergeRemoteState parse (LocalState print now s) t) name node =
     (if node = sv_node s \<and> map_of (sv_local s) name \<noteq> None then map_of (sv_local s) name
      else offered t name node)"
proof -
  have "offered (MergeRemoteState parse (LocalState print now s) t) name node
      = offered (fold handleRegistryBroadcast (local_broadcasts now s) t) name node"
    using assms(1) by (simp add: MergeRemoteState_def LocalState_def)
  then show ?thesis
    using assms(2)
    by (auto simp: offered_fold local_broadcasts_def last_about_local broadcast_effect_def
          split: option.splits)
qed

lemma push_pull_transfers_witness:
  "offered (MergeRemoteState (\<lambda>_. Inr (local_broadcasts 5 ((server_New empty_config ''n1'' :: unit server)\<lparr>sv_local := [(''echo'', 1)]\<rparr>)))
      (LocalState (\<lambda>_. ''text'') 5 ((server_New empty_config ''n1'' :: unit server)\<lparr>sv_local := [(''echo'', 1)]\<rparr>))
      (server_New empty_config ''n2'' :: unit server)) ''echo'' ''n1'' = Some 1"
  by (subst push_pull_transfers) (simp_all add: server_New_def)

text \<open>
  after \<open>NotifyLeave\<close> the node is gone: it has no client and offers no service, and the clients
  and services of the other nodes are untouched; in every reachable state the clients are those
  of the current connections.
\<close>

theorem leave_removes_node:
  assumes "run_events (cluster_step dial parse parses) es (server_New cfg name) = Some s"
  shows "sv_rpcs s = sv_endpoints s \<and> getRemoteRPC (nd_name nd) (NotifyLeave nd s) = None
    \<and> (\<forall>svc. offered (NotifyLeave nd s) svc (nd_name nd) = None)
    \<and> (\<forall>svc other. other = nd_name nd \<or>
         offered (NotifyLeave nd s) svc other = offered s svc other
         \<and> getRemoteRPC other (NotifyLeave nd s) = getRemoteRPC other s)"
proof -
  have "cluster_inv s"
    by (rule run_events_inv [where step = "cluster_step dial parse parses" and I = cluster_inv])
       (use assms cluster_inv_step cluster_inv_new in auto)
  then show ?thesis by (auto simp: cluster_inv_def getRemoteRPC_def offered_leave) (simp_all add: NotifyLeave_def)
qed

lemma leave_removes_node_witness:
  "\<exists>s. run_events (cluster_step (\<lambda>a p. Inr (a, p)) (\<lambda>_. Inl []) (\<lambda>_. Inl []))
         [CJoin \<lparr>nd_name = ''n2'', nd_addr = ''10.0.0.2'', nd_meta = [1, 0, 0, 0]\<rparr>] (server_New empty_config ''n1'') = Some s
     \<and> getRemoteRPC ''n2'' s = Some (''10.0.0.2'', 1)
     \<and> getRemoteRPC ''n2'' (NotifyLeave \<lparr>nd_name = ''n2'', nd_addr = ''10.0.0.2'', nd_meta = [1, 0, 0, 0]\<rparr> s) = None"
proof -
  let ?nd = "\<lparr>nd_name = ''n2'', nd_addr = ''10.0.0.2'', nd_meta = [1, 0, 0, 0]\<rparr>"
  obtain s where r: "run_events (cluster_step (\<lambda>a p. Inr (a, p)) (\<lambda>_. Inl []) (\<lambda>_. Inl []))
         [CJoin ?nd] (server_New empty_config ''n1'') = Some s" and g: "getRemoteRPC ''n2'' s = Some (''10.0.0.2'', 1)"
    by (simp add: NotifyJoin_def handleNode_def DecodeMeta_def server_New_def getRemoteRPC_def)
  from leave_removes_node [OF r, of ?nd] have "getRemoteRPC ''n2'' (NotifyLeave ?nd s) = None" by simp
  with r g show ?thesis by blast
qed

text \<open>the metadata of a node survives the trip through its four bytes.\<close>

theorem meta_roundtrip: "DecodeMeta (Meta_Encode m) = Some m \<and> length (Meta_Encode m) = 4"
  by (simp add: decode_encode) (simp add: Meta_Encode_def)

end
