(* ===== verification/Rpc_Path.thy ===== *)
theory Rpc_Path
  imports Cluster Reply_Box Json
begin

text \<open>
  The way of an RPC: \<open>pkg/server/inbox.go\<close>, \<open>lua_rpc.go\<close>, \<open>lua_rpc_env.go\<close>, \<open>rpc_server.go\<close>,
  \<open>rpc_reply.go\<close> and the Lua module \<open>pkg/core/rpc/rpc.go\<close>.  A call is served locally through the inbox
  or sent to a node chosen by weight; the handler's reply goes into the reply box of the caller,
  directly or through the outbox and the caller's \<open>RPCReply\<close>.

  The gob format, the disk queues, gRPC, random numbers, clocks and fresh ids are arguments.  The JSON
  text and the Lua handler appear in \<open>handle\<close> as the outcomes of decoding, of the calls of the reply function
  and of the handler itself.
\<close>

subsection \<open>The inbox\<close>

record 'q inbox =
  ib_queue :: 'q
  ib_consumers :: "(nat \<times> core_request chan) list"

definition newInbox :: "'q \<Rightarrow> 'q inbox" where
  "newInbox q = \<lparr>ib_queue = q, ib_consumers = []\<rparr>"

definition Inbox_Put ::
    "(rpc_request \<Rightarrow> string + bytes) \<Rightarrow> (bytes \<Rightarrow> 'q \<Rightarrow> string + 'q) \<Rightarrow> rpc_request \<Rightarrow> 'q inbox \<Rightarrow>
     string + 'q inbox" where
  "Inbox_Put enc qput req ib =
     (case enc req of
        Inl e \<Rightarrow> Inl e
      | Inr b \<Rightarrow> (case qput b (ib_queue ib) of Inl e \<Rightarrow> Inl e | Inr q \<Rightarrow> Inr (ib\<lparr>ib_queue := q\<rparr>)))"

text \<open>\<open>Broadcast\<close>; the consumers are in the order of the map iteration, and \<open>None\<close> is a full one.\<close>

definition broadcast_request :: "string \<Rightarrow> rpc_request \<Rightarrow> core_request" where
  "broadcast_request i req =
     \<lparr>cr_id = i, cr_node = rq_node req, cr_loopback = rq_loopback req, cr_name = rq_name req,
      cr_body = rq_body req, cr_expires = Some (rq_timestamp req + rq_timeout req)\<rparr>"

fun Inbox_Broadcast :: "string list \<Rightarrow> rpc_request \<Rightarrow> (nat \<times> core_request chan) list \<Rightarrow>
    (string list \<times> (nat \<times> core_request chan) list) option" where
  "Inbox_Broadcast fresh req [] = Some ([], [])"
| "Inbox_Broadcast [] req (c # cs) = None"
| "Inbox_Broadcast (i # fresh) req ((k, ch) # cs) =
     (case chan_put (broadcast_request i req) ch of
        None \<Rightarrow> None
      | Some ch' \<Rightarrow>
          (case Inbox_Broadcast fresh req cs of
             None \<Rightarrow> None | Some (ids, cs') \<Rightarrow> Some (i # ids, (k, ch') # cs')))"

text \<open>\<open>NewConsumer\<close> registers a channel and starts a goroutine.\<close>

definition NewConsumer :: "nat \<Rightarrow> 'q inbox \<Rightarrow> core_request chan \<times> 'q inbox" where
  "NewConsumer k ib = (make_chan 1, ib\<lparr>ib_consumers := AList.update k (make_chan 64) (ib_consumers ib)\<rparr>)"

text \<open>What the goroutine makes of a message of the queue; \<open>None\<close> drops it.\<close>

definition consume_data :: "(bytes \<Rightarrow> string + rpc_request) \<Rightarrow> instant \<Rightarrow> bytes \<Rightarrow> core_request option" where
  "consume_data dec now data =
     (case dec data of
        Inl e \<Rightarrow> None
      | Inr req \<Rightarrow>
          (let r = \<lparr>cr_id = rq_id req, cr_node = rq_node req, cr_loopback = rq_loopback req,
                    cr_name = rq_name req, cr_body = rq_body req, cr_expires = None\<rparr>
           in if rq_timeout req \<noteq> 0
              then (let exp = rq_timestamp req + rq_timeout req in
                    if exp < now then None else Some (r\<lparr>cr_expires := Some exp\<rparr>))
              else Some r))"

text \<open>Its two cases; it holds a request while \<open>ch\<close> has no room.\<close>

record consumer =
  cs_out :: "core_request chan"
  cs_hold :: "core_request option"

definition consumer_read ::
    "(bytes \<Rightarrow> string + rpc_request) \<Rightarrow> ('q \<Rightarrow> (bytes \<times> 'q) option) \<Rightarrow> instant \<Rightarrow> 'q inbox \<Rightarrow> consumer \<Rightarrow>
     ('q inbox \<times> consumer) option" where
  "consumer_read dec qread now ib c =
     (if cs_hold c \<noteq> None then None
      else case qread (ib_queue ib) of
             None \<Rightarrow> None
           | Some (data, q) \<Rightarrow>
               Some (ib\<lparr>ib_queue := q\<rparr>, c\<lparr>cs_hold := consume_data dec now data\<rparr>))"

definition consumer_broadcast :: "nat \<Rightarrow> 'q inbox \<Rightarrow> consumer \<Rightarrow> ('q inbox \<times> consumer) option" where
  "consumer_broadcast k ib c =
     (if cs_hold c \<noteq> None then None
      else case map_of (ib_consumers ib) k of
             None \<Rightarrow> None
           | Some ch \<Rightarrow>
               (case chan_get ch of
                  None \<Rightarrow> None
                | Some (req, ch') \<Rightarrow>
                    Some (ib\<lparr>ib_consumers := AList.update k ch' (ib_consumers ib)\<rparr>, c\<lparr>cs_hold := Some req\<rparr>)))"

definition consumer_send :: "consumer \<Rightarrow> consumer option" where
  "consumer_send c =
     (case cs_hold c of
        None \<Rightarrow> None
      | Some req \<Rightarrow>
          (case chan_put req (cs_out c) of None \<Rightarrow> None | Some ch \<Rightarrow> Some \<lparr>cs_out = ch, cs_hold = None\<rparr>))"

text \<open>\<open>Reset\<close> closes the consumers' channels, which panics on a closed one, and forgets them.\<close>

definition Inbox_Reset :: "'q inbox \<Rightarrow> (core_request chan list \<times> 'q inbox) option" where
  "Inbox_Reset ib =
     (if list_all (\<lambda>(k, ch). \<not> ch_closed ch) (ib_consumers ib)
      then Some (map (\<lambda>(k, ch). ch\<lparr>ch_closed := True\<rparr>) (ib_consumers ib), ib\<lparr>ib_consumers := []\<rparr>)
      else None)"

subsection \<open>Choosing a node\<close>

text \<open>
  The two loops of \<open>luaRPCCall\<close> over a group; \<open>add\<close> is the addition of float64, and the two loops may see the
  map in different orders.  When no node reaches the target the name stays empty.
\<close>

fun total_weight :: "(rat \<Rightarrow> rat \<Rightarrow> rat) \<Rightarrow> rat \<Rightarrow> (string \<times> rat) list \<Rightarrow> rat" where
  "total_weight add t [] = t"
| "total_weight add t ((n, w) # g) = total_weight add (add t w) g"

fun pick_node :: "(rat \<Rightarrow> rat \<Rightarrow> rat) \<Rightarrow> rat \<Rightarrow> rat \<Rightarrow> (string \<times> rat) list \<Rightarrow> string" where
  "pick_node add target cur [] = []"
| "pick_node add target cur ((n, w) # g) =
     (let cur' = add cur w in if target \<le> cur' then n else pick_node add target cur' g)"

definition choose_node ::
    "(rat \<Rightarrow> rat \<Rightarrow> rat) \<Rightarrow> (rat \<Rightarrow> rat \<Rightarrow> rat) \<Rightarrow> rat \<Rightarrow> (string \<times> rat) list \<Rightarrow> (string \<times> rat) list \<Rightarrow> string" where
  "choose_node add mul rnd g1 g2 = pick_node add (mul rnd (total_weight add 0 g1)) 0 g2"

subsection \<open>The caller's side\<close>

definition time_until :: "instant option \<Rightarrow> instant \<Rightarrow> duration" where
  "time_until deadline now = (case deadline of None \<Rightarrow> 0 | Some t \<Rightarrow> t - now)"

definition loopback_request :: "string \<Rightarrow> instant \<Rightarrow> core_request \<Rightarrow> rpc_request" where
  "loopback_request i now req =
     \<lparr>rq_id = i, rq_name = cr_name req, rq_body = cr_body req, rq_timestamp = now,
      rq_timeout = time_until (cr_expires req) now, rq_node = [], rq_loopback = True\<rparr>"

record call_request =
  cq_name :: string
  cq_body :: bytes
  cq_node :: string
  cq_timeout_ms :: int

datatype 'cc call_plan = CallLocal rpc_request | CallRemote 'cc call_request | CallFails string

definition not_registered :: "string \<Rightarrow> string" where
  "not_registered name = ''service \"'' @ name @ ''\" is not registered in cluster''"

text \<open>\<open>luaRPCCall\<close> up to the point where the request leaves; \<open>g\<close> is the order of the second loop.\<close>

definition luaRPCCall_plan ::
    "(rat \<Rightarrow> rat \<Rightarrow> rat) \<Rightarrow> (rat \<Rightarrow> rat \<Rightarrow> rat) \<Rightarrow> rat \<Rightarrow> (string \<times> rat) list \<Rightarrow> string \<Rightarrow> instant \<Rightarrow> core_request \<Rightarrow>
     'cc server \<Rightarrow> 'cc call_plan" where
  "luaRPCCall_plan add mul rnd g i now req s =
     (if map_of (sv_local s) (cr_name req) \<noteq> None then CallLocal (loopback_request i now req)
      else case sv_services s (cr_name req) of
             None \<Rightarrow> CallFails (not_registered (cr_name req))
           | Some g1 \<Rightarrow>
               (case getRemoteRPC (choose_node add mul rnd g1 g) s of
                  None \<Rightarrow> CallFails (not_registered (cr_name req))
                | Some cc \<Rightarrow>
                    CallRemote cc \<lparr>cq_name = cr_name req, cq_body = cr_body req, cq_node = sv_node s,
                                   cq_timeout_ms = Milliseconds (time_until (cr_expires req) now)\<rparr>))"

text \<open>
  A call that waits: the channel \<open>Watch\<close> gave it.  \<open>Watch\<close> comes before \<open>Put\<close> on the local path
  (\<open>callLuaRPCMethod\<close>) and after the remote call returned an id on the other.
\<close>

definition Watch :: "string \<Rightarrow> reply_box \<Rightarrow> (chref \<times> reply_box) option" where
  "Watch i b =
     (case Watch_lookup i b of
        (ch, b1) \<Rightarrow>
          (if rb_replies b i \<noteq> None then Some (ch, b1)
           else map_option (\<lambda>b2. (ch, b2)) (Watch_send \<lparr>rw_id = i, rw_ch = ch\<rparr> b1)))"

definition callLuaRPCMethod_start ::
    "(rpc_request \<Rightarrow> string + bytes) \<Rightarrow> (bytes \<Rightarrow> 'q \<Rightarrow> string + 'q) \<Rightarrow> rpc_request \<Rightarrow> reply_box \<Rightarrow> 'q inbox \<Rightarrow>
     (reply_box \<times> (string + chref \<times> 'q inbox)) option" where
  "callLuaRPCMethod_start enc qput req b ib =
     (case Watch (rq_id req) b of
        None \<Rightarrow> None
      | Some (ch, b1) \<Rightarrow>
          Some (b1, (case Inbox_Put enc qput req ib of Inl e \<Rightarrow> Inl e | Inr ib1 \<Rightarrow> Inr (ch, ib1))))"

text \<open>What a received response means to the caller; a nil response is dereferenced and panics.\<close>

definition response_result :: "rpc_response option \<Rightarrow> (string + bytes) option" where
  "response_result res =
     (case res of
        None \<Rightarrow> None
      | Some r \<Rightarrow> Some (if rsp_error r then Inl (rsp_result r) else Inr (rsp_result r)))"

text \<open>The \<open>select\<close> of the remote path: the context is done, or a response has come.\<close>

datatype await_event = CtxDone string | Response "rpc_response option"

definition await_remote :: "string \<Rightarrow> await_event \<Rightarrow> reply_box \<Rightarrow> ((string + bytes) option \<times> reply_box) option" where
  "await_remote i ev b =
     (case ev of
        CtxDone e \<Rightarrow> map_option (\<lambda>b1. (Some (Inl e), b1)) (Delete i b)
      | Response res \<Rightarrow> Some (response_result res, b))"

text \<open>\<open>luaRPCEnv.Call\<close>: what its goroutine hands to the callback of a call.\<close>

definition env_Call :: "string + bytes \<Rightarrow> core_response" where
  "env_Call result =
     (case result of Inl e \<Rightarrow> \<lparr>cp_body = [], cp_error = Some e\<rparr> | Inr b \<Rightarrow> \<lparr>cp_body = b, cp_error = None\<rparr>)"

subsection \<open>The serving side\<close>

definition RPCCall ::
    "(rpc_request \<Rightarrow> string + bytes) \<Rightarrow> (bytes \<Rightarrow> 'q \<Rightarrow> string + 'q) \<Rightarrow> string \<Rightarrow> instant \<Rightarrow> call_request \<Rightarrow> 'q inbox \<Rightarrow>
     string + (string \<times> instant) \<times> 'q inbox" where
  "RPCCall enc qput i now req ib =
     (let c = \<lparr>rq_id = i, rq_name = cq_name req, rq_body = cq_body req, rq_timestamp = now,
               rq_timeout = duration_of_ms (cq_timeout_ms req), rq_node = cq_node req, rq_loopback = False\<rparr>
      in case Inbox_Put enc qput c ib of Inl e \<Rightarrow> Inl e | Inr ib1 \<Rightarrow> Inr ((i, now), ib1))"

definition RPCBroadcast ::
    "string list \<Rightarrow> instant \<Rightarrow> call_request \<Rightarrow> 'q inbox \<Rightarrow> (string list \<times> 'q inbox) option" where
  "RPCBroadcast fresh now req ib =
     (case Inbox_Broadcast fresh
             \<lparr>rq_id = [], rq_name = cq_name req, rq_body = cq_body req, rq_timestamp = now,
              rq_timeout = duration_of_ms (cq_timeout_ms req), rq_node = cq_node req, rq_loopback = False\<rparr>
             (ib_consumers ib) of
        None \<Rightarrow> None
      | Some (ids, cs) \<Rightarrow> Some (ids, ib\<lparr>ib_consumers := cs\<rparr>))"

record reply_request =
  rr_id :: string
  rr_result :: bytes
  rr_timestamp :: instant
  rr_error :: bool

definition RPCReply :: "reply_request \<Rightarrow> reply_box \<Rightarrow> reply_box option" where
  "RPCReply req b =
     Insert \<lparr>rsp_id = rr_id req, rsp_result = rr_result req, rsp_timestamp = rr_timestamp req,
             rsp_node = [], rsp_error = rr_error req\<rparr> b"

text \<open>\<open>luaRPCEnv.Reply\<close>: a loopback reply goes into the own reply box, others into the outbox.\<close>

definition reply_response :: "string \<Rightarrow> string \<Rightarrow> instant \<Rightarrow> core_response \<Rightarrow> rpc_response" where
  "reply_response i node now res =
     (case cp_error res of
        Some e \<Rightarrow> \<lparr>rsp_id = i, rsp_result = e, rsp_timestamp = now, rsp_node = node, rsp_error = True\<rparr>
      | None \<Rightarrow> \<lparr>rsp_id = i, rsp_result = cp_body res, rsp_timestamp = now, rsp_node = node, rsp_error = False\<rparr>)"

datatype 'q reply_outcome = InBox reply_box | InOutbox 'q | Fatal string

definition env_Reply ::
    "(rpc_response \<Rightarrow> string + bytes) \<Rightarrow> (bytes \<Rightarrow> 'q \<Rightarrow> string + 'q) \<Rightarrow> string \<Rightarrow> string \<Rightarrow> bool \<Rightarrow> instant \<Rightarrow>
     core_response \<Rightarrow> reply_box \<Rightarrow> 'q \<Rightarrow> 'q reply_outcome option" where
  "env_Reply enc qput i node loopback now res b outbox =
     (let r = reply_response i node now res in
      if loopback then map_option InBox (Insert r b)
      else Some (case enc r of
                   Inl e \<Rightarrow> Fatal e
                 | Inr d \<Rightarrow> (case qput d outbox of Inl e \<Rightarrow> Fatal e | Inr q \<Rightarrow> InOutbox q)))"

text \<open>\<open>doReply\<close>: the request it sends, with the client, or nothing.\<close>

definition doReply ::
    "(bytes \<Rightarrow> string + rpc_response) \<Rightarrow> bytes \<Rightarrow> 'cc server \<Rightarrow> string + ('cc \<times> reply_request) option" where
  "doReply dec data s =
     (case dec data of
        Inl e \<Rightarrow> Inl e
      | Inr r \<Rightarrow>
          (case getRemoteRPC (rsp_node r) s of
             None \<Rightarrow> Inr None
           | Some cc \<Rightarrow> Inr (Some (cc, \<lparr>rr_id = rsp_id r, rr_result = rsp_result r,
                                       rr_timestamp = rsp_timestamp r, rr_error = rsp_error r\<rparr>))))"

definition reply_workers :: "config \<Rightarrow> int" where
  "reply_workers cfg =
     (if rc_reply_concurrency (cfg_rpc cfg) < 1 then 1 else rc_reply_concurrency (cfg_rpc cfg))"

subsection \<open>Broadcasting\<close>

text \<open>
  The loop of \<open>luaRPCBroadcast\<close> over the nodes of the group: the ids to wait for, and the error responses
  it inserts itself for nodes it cannot reach.  \<open>remote\<close> is the gRPC call.
\<close>

definition error_response :: "string \<Rightarrow> string \<Rightarrow> instant \<Rightarrow> rpc_response" where
  "error_response i e now =
     \<lparr>rsp_id = i, rsp_result = e, rsp_timestamp = now, rsp_node = [], rsp_error = True\<rparr>"

fun broadcast_nodes ::
    "('cc \<Rightarrow> string + string list) \<Rightarrow> (nat \<Rightarrow> string) \<Rightarrow> nat \<Rightarrow> instant \<Rightarrow> string \<Rightarrow> 'cc server \<Rightarrow> (string \<times> rat) list \<Rightarrow>
     string list \<times> rpc_response list" where
  "broadcast_nodes remote fresh n now name s [] = ([], [])"
| "broadcast_nodes remote fresh n now name s ((nd, w) # g) =
     (case getRemoteRPC nd s of
        None \<Rightarrow>
          (case broadcast_nodes remote fresh (Suc n) now name s g of
             (ids, rs) \<Rightarrow> (fresh n # ids, error_response (fresh n) (not_registered name) now # rs))
      | Some cc \<Rightarrow>
          (case remote cc of
             Inl e \<Rightarrow>
               (case broadcast_nodes remote fresh (Suc n) now name s g of
                  (ids, rs) \<Rightarrow> (fresh n # ids, error_response (fresh n) e now # rs))
           | Inr is \<Rightarrow>
               (case broadcast_nodes remote fresh n now name s g of (ids, rs) \<Rightarrow> (is @ ids, rs))))"

definition broadcast_result :: "rpc_response option \<Rightarrow> core_response option" where
  "broadcast_result res =
     (case res of
        None \<Rightarrow> None
      | Some r \<Rightarrow> Some (if rsp_error r then \<lparr>cp_body = [], cp_error = Some (rsp_result r)\<rparr>
                        else \<lparr>cp_body = rsp_result r, cp_error = None\<rparr>))"

subsection \<open>The Lua module\<close>

text \<open>\<open>auxCall\<close>: the deadline of a call; the option \<open>timeout\<close> is a number of milliseconds, truncated to an integer.\<close>

definition number_to_int :: "lua_number \<Rightarrow> int" where
  "number_to_int x = (case x of Fin q \<Rightarrow> (if 0 \<le> q then \<lfloor>q\<rfloor> else - \<lfloor>- q\<rfloor>) | _ \<Rightarrow> - (2 ^ 63))"

definition call_deadline :: "lval \<Rightarrow> instant \<Rightarrow> instant option" where
  "call_deadline timeout now =
     (case timeout of
        LNumber x \<Rightarrow> Some (now + duration_of_ms (number_to_int x))
      | _ \<Rightarrow> None)"

definition auxCall_request :: "string \<Rightarrow> bytes \<Rightarrow> lval \<Rightarrow> instant \<Rightarrow> core_request" where
  "auxCall_request name body timeout now =
     \<lparr>cr_id = [], cr_node = [], cr_loopback = False, cr_name = name, cr_body = body,
      cr_expires = call_deadline timeout now\<rparr>"

text \<open>The arguments of the callback of \<open>rpc.call\<close>; \<open>decode\<close> is \<open>json.Decode\<close>.\<close>

definition call_callback :: "(bytes \<Rightarrow> string + lval) \<Rightarrow> core_response \<Rightarrow> lval list" where
  "call_callback decode res =
     (case cp_error res of
        Some e \<Rightarrow> [LString e]
      | None \<Rightarrow> (case decode (cp_body res) of Inl e \<Rightarrow> [LString e] | Inr v \<Rightarrow> [LNil, v]))"

text \<open>The entries of the table \<open>rpc.broadcast\<close> hands to its callback: the first text that is not JSON fails them all.\<close>

datatype broadcast_entry = EntryError string | EntryBody lval

fun broadcast_callback :: "(bytes \<Rightarrow> string + lval) \<Rightarrow> core_response list \<Rightarrow> string + broadcast_entry list" where
  "broadcast_callback decode [] = Inr []"
| "broadcast_callback decode (r # rs) =
     (case cp_error r of
        Some e \<Rightarrow> map_sum id (Cons (EntryError e)) (broadcast_callback decode rs)
      | None \<Rightarrow>
          (case decode (cp_body r) of
             Inl e \<Rightarrow> Inl e
           | Inr v \<Rightarrow> map_sum id (Cons (EntryBody v)) (broadcast_callback decode rs)))"

text \<open>
  The reply function a handler gets: a call of it at time \<open>now\<close> with an error argument (\<open>None\<close> for nil,
  else its text) and the outcome of encoding its second argument.  It raises, \<open>Inl\<close>, or hands a response
  to \<open>Reply\<close>.
\<close>

record reply_call =
  rc_now :: instant
  rc_err :: "string option"
  rc_val :: "string + bytes"

definition expired :: "core_request \<Rightarrow> instant \<Rightarrow> bool" where
  "expired req now = (case cr_expires req of None \<Rightarrow> False | Some t \<Rightarrow> t < now)"

definition reply_function :: "core_request \<Rightarrow> reply_call \<Rightarrow> string + core_response" where
  "reply_function req c =
     (if expired req (rc_now c) then Inl (''req \"'' @ cr_id req @ ''\" is already timedout'')
      else case rc_err c of
             Some e \<Rightarrow> Inr \<lparr>cp_body = [], cp_error = Some e\<rparr>
           | None \<Rightarrow> (case rc_val c of Inl e \<Rightarrow> Inl e | Inr b \<Rightarrow> Inr \<lparr>cp_body = b, cp_error = None\<rparr>))"

text \<open>
  A handler run: the calls of the reply function it makes, in order, and its own error at the end.  A raise
  of the reply function ends the run with that error.
\<close>

fun handler_replies :: "core_request \<Rightarrow> reply_call list \<Rightarrow> string option \<Rightarrow> core_response list \<times> string option" where
  "handler_replies req [] err = ([], err)"
| "handler_replies req (c # cs) err =
     (case reply_function req c of
        Inl e \<Rightarrow> ([], Some e)
      | Inr r \<Rightarrow> (case handler_replies req cs err of (rs, x) \<Rightarrow> (r # rs, x)))"

text \<open>\<open>handle\<close>: every response handed to \<open>Reply\<close> for a request, in order.\<close>

definition method_not_found :: "string \<Rightarrow> core_response" where
  "method_not_found name = \<lparr>cp_body = [], cp_error = Some (''method \"'' @ name @ ''\" is not found'')\<rparr>"

definition handle_replies ::
    "(string \<rightharpoonup> (lval \<Rightarrow> reply_call list \<times> string option)) \<Rightarrow> (bytes \<Rightarrow> string + lval) \<Rightarrow> core_request \<Rightarrow> core_response list" where
  "handle_replies handlers decode req =
     (case handlers (cr_name req) of
        None \<Rightarrow> [method_not_found (cr_name req)]
      | Some handler \<Rightarrow>
          (case decode (cr_body req) of
             Inl e \<Rightarrow> [method_not_found (cr_name req)]
           | Inr v \<Rightarrow>
               (case handler v of
                  (calls, err) \<Rightarrow>
                    (case handler_replies req calls err of
                       (rs, None) \<Rightarrow> rs
                     | (rs, Some e) \<Rightarrow> rs @ [\<lparr>cp_body = [], cp_error = Some e\<rparr>]))))"

text \<open>\<open>rpc.register\<close>.\<close>

definition lRegister :: "string \<Rightarrow> 'f \<Rightarrow> (string \<rightharpoonup> 'f) \<Rightarrow> 'cc server \<Rightarrow> (string \<rightharpoonup> 'f) \<times> 'cc server" where
  "lRegister name handler handlers s = (handlers(name \<mapsto> handler), env_Register name s)"

subsection \<open>Lemmas\<close>

definition wsum :: "(string \<times> rat) list \<Rightarrow> rat" where
  "wsum g = sum_list (map snd g)"

lemma total_weight_plus: "total_weight (+) t g = t + wsum g"
  by (induction g arbitrary: t) (auto simp: wsum_def add.assoc)

lemma pick_node_plus:
  "g \<noteq> [] \<Longrightarrow> target \<le> cur + wsum g \<Longrightarrow>
     \<exists>xs w ys. g = xs @ (pick_node (+) target cur g, w) # ys \<and> target \<le> cur + wsum xs + w
       \<and> (xs = [] \<or> cur + wsum xs < target)"
proof (induction g arbitrary: cur)
  case Nil
  then show ?case by simp
next
  case (Cons e g)
  obtain n w where e: "e = (n, w)" by (cases e)
  show ?case
  proof (cases "target \<le> cur + w")
    case True
    then show ?thesis
      by (intro exI [of _ "[]"] exI [of _ w] exI [of _ g]) (simp add: e wsum_def)
  next
    case False
    with Cons.prems(2) have "g \<noteq> []" "target \<le> (cur + w) + wsum g" by (auto simp: e wsum_def)
    with Cons.IH obtain xs v ys where ih: "g = xs @ (pick_node (+) target (cur + w) g, v) # ys"
      "target \<le> (cur + w) + wsum xs + v" "xs = [] \<or> (cur + w) + wsum xs < target" by blast
    show ?thesis
      using ih False
      by (intro exI [of _ "(n, w) # xs"] exI [of _ v] exI [of _ ys]) (auto simp: e wsum_def)
  qed
qed

lemma wsum_perm: "mset g1 = mset g2 \<Longrightarrow> wsum g1 = wsum g2"
  by (metis wsum_def mset_map sum_mset_sum_list)

lemma go_div_pos: "0 \<le> a \<Longrightarrow> 0 < b \<Longrightarrow> go_div a b = a div b"
  by (cases "a = 0") (auto simp: go_div_def)

lemma duration_roundtrip:
  "0 \<le> d \<Longrightarrow> d < 2 ^ 63 \<Longrightarrow> duration_of_ms (Milliseconds d) = d - d mod millisecond"
proof -
  assume d: "0 \<le> d" "d < 2 ^ 63"
  have "millisecond * (d div millisecond) = d - d mod millisecond"
    by (simp add: minus_mod_eq_mult_div)
  moreover have "0 \<le> d - d mod millisecond" "d - d mod millisecond \<le> d"
    using d by (simp_all add: millisecond_def zmod_le_nonneg_dividend)
  ultimately show ?thesis
    using d by (simp add: duration_of_ms_def Milliseconds_def go_div_pos millisecond_def wrap64_id)
qed

subsection \<open>Properties\<close>

text \<open>
  C18: the weighted choice picks a member.  With exact addition (integer weights), weights that are not
  negative and a random number below one, a group that is not empty yields one of its nodes: the first one, in
  the order of the second loop, at which the running sum reaches the target.  So a node of
  weight zero is only chosen when the target is zero.
\<close>

theorem weighted_choice:
  assumes "g1 \<noteq> []" and "mset g2 = mset g1" and "0 \<le> r" and "r < 1" and "list_all (\<lambda>e. 0 \<le> snd e) g1"
  shows "\<exists>xs w ys. g2 = xs @ (choose_node (+) (*) r g1 g2, w) # ys
    \<and> (xs = [] \<or> wsum xs < r * wsum g1) \<and> r * wsum g1 \<le> wsum xs + w
    \<and> (w = 0 \<longrightarrow> r * wsum g1 = 0)"
proof -
  have nn: "0 \<le> wsum g1"
    unfolding wsum_def using assms(5) by (intro sum_list_nonneg) (auto simp: list_all_iff)
  have "r * wsum g1 \<le> wsum g2" using wsum_perm [OF assms(2)] nn assms(4) by (simp add: mult_left_le_one_le assms(3))
  moreover have "g2 \<noteq> []" using assms(1,2) by auto
  ultimately obtain xs w ys where p: "g2 = xs @ (pick_node (+) (r * wsum g1) 0 g2, w) # ys"
    "r * wsum g1 \<le> 0 + wsum xs + w" "xs = [] \<or> 0 + wsum xs < r * wsum g1"
    using pick_node_plus [of g2 "r * wsum g1" 0] by auto
  have "0 \<le> r * wsum g1" using nn assms(3) by simp
  then have "w = 0 \<longrightarrow> r * wsum g1 = 0" using p(2,3) by (auto simp: wsum_def)
  with p show ?thesis
    by (intro exI [of _ xs] exI [of _ w] exI [of _ ys]) (simp add: choose_node_def total_weight_plus)
qed

lemma weighted_choice_witness:
  "\<exists>xs w ys. [(''b'', 3 :: rat), (''a'', 1)] = xs @ (choose_node (+) (*) (1 / 2) [(''a'', 1), (''b'', 3)] [(''b'', 3), (''a'', 1)], w) # ys"
proof -
  have "list_all (\<lambda>e. 0 \<le> snd e) [(''a'', 1 :: rat), (''b'', 3)]" by simp
  from weighted_choice [OF _ _ _ _ this, of "[(''b'', 3), (''a'', 1)]" "1 / 2"] show ?thesis by fastforce
qed

text \<open>
  C33: the deadline of a remote call.  The caller sends the time left in whole milliseconds, and the node
  counts it from its own clock: the request expires there after the time left, rounded down to a
  millisecond, and the node drops it exactly when it takes it up later than that.  With less than a millisecond left
  the request has no deadline at all.
\<close>

theorem deadline_transfer:
  assumes gob: "\<And>b. enc c = Inr b \<Longrightarrow> dec b = Inr c"
    and c: "c = \<lparr>rq_id = i, rq_name = cr_name req, rq_body = cr_body req, rq_timestamp = t2,
                 rq_timeout = duration_of_ms (Milliseconds left), rq_node = node, rq_loopback = False\<rparr>"
    and "left = time_until (cr_expires req) t1" and "0 \<le> left" and "left < 2 ^ 63"
    and "RPCCall enc qput i t2 \<lparr>cq_name = cr_name req, cq_body = cr_body req, cq_node = node,
           cq_timeout_ms = Milliseconds left\<rparr> ib = Inr ((i', t'), ib')"
  shows "\<exists>b. qput b (ib_queue ib) = Inr (ib_queue ib') \<and>
    consume_data dec now b =
      (if millisecond \<le> left \<and> t2 + (left - left mod millisecond) < now then None
       else Some \<lparr>cr_id = i, cr_node = node, cr_loopback = False, cr_name = cr_name req, cr_body = cr_body req,
                  cr_expires = (if left < millisecond then None else Some (t2 + (left - left mod millisecond)))\<rparr>)"
proof -
  from assms(6) obtain b where b: "enc c = Inr b" "qput b (ib_queue ib) = Inr (ib_queue ib')"
    by (auto simp: RPCCall_def Inbox_Put_def c Let_def split: sum.splits)
  have d: "duration_of_ms (Milliseconds left) = left - left mod millisecond"
    using duration_roundtrip assms(4,5) .
  have z: "left - left mod millisecond = 0 \<longleftrightarrow> left < millisecond"
    using assms(4) by (auto simp: millisecond_def)
  have "consume_data dec now b =
      (if millisecond \<le> left \<and> t2 + (left - left mod millisecond) < now then None
       else Some \<lparr>cr_id = i, cr_node = node, cr_loopback = False, cr_name = cr_name req, cr_body = cr_body req,
                  cr_expires = (if left < millisecond then None else Some (t2 + (left - left mod millisecond)))\<rparr>)"
    unfolding consume_data_def gob [OF b(1)] using d z by (auto simp: c Let_def)
  with b(2) show ?thesis by blast
qed

lemma deadline_transfer_witness:
  "\<exists>b. consume_data (\<lambda>_. Inr \<lparr>rq_id = ''i'', rq_name = ''echo'', rq_body = [], rq_timestamp = 7,
          rq_timeout = duration_of_ms (Milliseconds 2500000), rq_node = ''n1'', rq_loopback = False\<rparr>) 8 b
      = Some \<lparr>cr_id = ''i'', cr_node = ''n1'', cr_loopback = False, cr_name = ''echo'', cr_body = [],
              cr_expires = Some 2000007\<rparr>"
proof -
  let ?req = "\<lparr>cr_id = [], cr_node = [], cr_loopback = False, cr_name = ''echo'', cr_body = [], cr_expires = Some 2500001\<rparr>"
  let ?c = "\<lparr>rq_id = ''i'', rq_name = cr_name ?req, rq_body = cr_body ?req, rq_timestamp = 7,
                 rq_timeout = duration_of_ms (Milliseconds 2500000), rq_node = ''n1'', rq_loopback = False\<rparr>"
  have run: "RPCCall (\<lambda>_. Inr ''gob'') (\<lambda>b q. Inr (q @ [b])) ''i'' 7
      \<lparr>cq_name = cr_name ?req, cq_body = cr_body ?req, cq_node = ''n1'', cq_timeout_ms = Milliseconds 2500000\<rparr>
      (newInbox []) = Inr ((''i'', 7), newInbox [''gob''])"
    by (simp add: RPCCall_def Inbox_Put_def newInbox_def)
  have "2500000 = time_until (cr_expires ?req) 1" by (simp add: time_until_def)
  from deadline_transfer [OF _ refl this _ _ run, of "\<lambda>_. Inr ?c" 8] show ?thesis
    by (auto simp: millisecond_def)
qed

text \<open>
  a reply reaches the node that called.  The response a handler gives for a request from another
  node goes through the outbox to the client of that node and into its reply box with the same
  id, text, time and error flag; a loopback response goes into the own reply box.  The gob format only
  has to read back what it wrote.
\<close>

theorem reply_reaches_origin:
  assumes gob: "\<And>d. enc (reply_response i node now res) = Inr d \<Longrightarrow> dec d = Inr (reply_response i node now res)"
    and out: "env_Reply enc qput i node False now res b outbox = Some (InOutbox q)"
    and "getRemoteRPC node s = Some cc"
  shows "\<exists>d req. qput d outbox = Inr q \<and> doReply dec d s = Inr (Some (cc, req))
    \<and> RPCReply req origin = Insert (reply_response i [] now res) origin
    \<and> env_Reply enc qput i node True now res origin outbox
        = map_option InBox (Insert (reply_response i node now res) origin)"
proof -
  from out obtain d where d: "enc (reply_response i node now res) = Inr d" "qput d outbox = Inr q"
    by (auto simp: env_Reply_def Let_def split: sum.splits)
  have node: "rsp_node (reply_response i node now res) = node"
    by (simp add: reply_response_def split: option.splits)
  have "doReply dec d s = Inr (Some (cc, \<lparr>rr_id = i, rr_result = rsp_result (reply_response i node now res),
      rr_timestamp = now, rr_error = rsp_error (reply_response i node now res)\<rparr>))"
    unfolding doReply_def gob [OF d(1)] using assms(3) node
    by (simp add: reply_response_def split: option.splits)
  moreover have "RPCReply \<lparr>rr_id = i, rr_result = rsp_result (reply_response i node now res),
      rr_timestamp = now, rr_error = rsp_error (reply_response i node now res)\<rparr> origin
    = Insert (reply_response i [] now res) origin"
    by (simp add: RPCReply_def reply_response_def split: option.splits)
  ultimately show ?thesis using d(2) by (auto simp: env_Reply_def)
qed

lemma reply_reaches_origin_witness:
  "\<exists>d req. doReply (\<lambda>_. Inr (reply_response ''i'' ''n1'' 3 \<lparr>cp_body = ''ok'', cp_error = None\<rparr>)) d
        ((server_New empty_config ''n2'')\<lparr>sv_rpcs := [''n1'' \<mapsto> ()]\<rparr>) = Inr (Some ((), req))
     \<and> RPCReply req newReplyBox = Insert (reply_response ''i'' [] 3 \<lparr>cp_body = ''ok'', cp_error = None\<rparr>) newReplyBox"
proof -
  let ?res = "\<lparr>cp_body = ''ok'', cp_error = None\<rparr>"
  let ?s = "(server_New empty_config ''n2'')\<lparr>sv_rpcs := [''n1'' \<mapsto> ()]\<rparr>"
  have out: "env_Reply (\<lambda>_. Inr ''gob'') (\<lambda>b q. Inr (q @ [b])) ''i'' ''n1'' False 3 ?res newReplyBox []
      = Some (InOutbox [''gob''])"
    by (simp add: env_Reply_def)
  have "getRemoteRPC ''n1'' ?s = Some ()" by (simp add: getRemoteRPC_def)
  from reply_reaches_origin [OF _ out this, of "\<lambda>_. Inr (reply_response ''i'' ''n1'' 3 ?res)" newReplyBox]
  show ?thesis by auto
qed

text \<open>
  a broadcast without a timeout cannot be answered.  \<open>Inbox.Broadcast\<close> sets the deadline of the requests to
  their own time when the timeout is zero, so a handler that replies at any later instant raises, and
  the only response is the error that the request has already timed out.
\<close>

theorem broadcast_without_timeout_fails:
  assumes "rq_timeout req = 0" and "Inbox_Broadcast fresh req cs = Some (ids, cs')"
    and "(k, ch) \<in> set cs" and "ch_buf ch = []" and "distinct (map fst cs)"
  shows "\<exists>i creq ch'. (k, ch') \<in> set cs' \<and> ch_buf ch' = [creq] \<and> i \<in> set ids \<and> cr_id creq = i
    \<and> (\<forall>handlers decode handler v c calls err.
         handlers (rq_name req) = Some handler \<and> decode (rq_body req) = Inr v
         \<and> handler v = (c # calls, err) \<and> rq_timestamp req < rc_now c \<longrightarrow>
         handle_replies handlers decode creq =
           [\<lparr>cp_body = [], cp_error = Some (''req \"'' @ i @ ''\" is already timedout'')\<rparr>])"
proof -
  have "\<exists>i ch'. (k, ch') \<in> set cs' \<and> ch_buf ch' = [broadcast_request i req] \<and> i \<in> set ids"
    using assms(2-5)
  proof (induction fresh req cs arbitrary: ids cs' rule: Inbox_Broadcast.induct)
    case (3 i fresh req l d cs)
    from 3(2) obtain d' ids2 cs2 where s: "chan_put (broadcast_request i req) d = Some d'"
      "Inbox_Broadcast fresh req cs = Some (ids2, cs2)" "ids = i # ids2" "cs' = (l, d') # cs2"
      by (auto split: option.splits)
    show ?case
    proof (cases "(k, ch) = (l, d)")
      case True
      with s 3(4) show ?thesis by (intro exI [of _ i] exI [of _ d']) (simp add: chan_simps)
    next
      case False
      with 3(3,5) have "(k, ch) \<in> set cs" "distinct (map fst cs)" by auto
      from 3(1) [OF s(1,2) this(1) 3(4) this(2)] s show ?thesis by auto
    qed
  qed auto
  then obtain i ch' where i: "(k, ch') \<in> set cs'" "ch_buf ch' = [broadcast_request i req]" "i \<in> set ids" by blast
  show ?thesis
    by (intro exI [of _ i] exI [of _ "broadcast_request i req"] exI [of _ ch'])
       (use i assms(1) in \<open>auto simp: broadcast_request_def handle_replies_def reply_function_def expired_def\<close>)
qed

lemma broadcast_without_timeout_fails_witness:
  "\<exists>ids cs' creq.
     Inbox_Broadcast [''id''] \<lparr>rq_id = [], rq_name = ''echo'', rq_body = [], rq_timestamp = 10, rq_timeout = 0,
        rq_node = ''n1'', rq_loopback = False\<rparr> [(0, make_chan 64)] = Some (ids, cs')
     \<and> handle_replies [''echo'' \<mapsto> \<lambda>v. ([\<lparr>rc_now = 11, rc_err = None, rc_val = Inr ''1''\<rparr>], None)] (\<lambda>_. Inr LNil) creq
       = [\<lparr>cp_body = [], cp_error = Some (''req \"id\" is already timedout'')\<rparr>]"
proof -
  let ?req = "\<lparr>rq_id = [], rq_name = ''echo'', rq_body = [], rq_timestamp = 10, rq_timeout = 0,
        rq_node = ''n1'', rq_loopback = False\<rparr>"
  obtain ids cs' where b: "Inbox_Broadcast [''id''] ?req [(0, make_chan 64)] = Some (ids, cs')" "ids = [''id'']"
    by (simp add: chan_put_def chan_send_def make_chan_def)
  from broadcast_without_timeout_fails [OF _ b(1), of 0 "make_chan 64"] b(2) obtain creq where
    "\<forall>handlers decode handler v c calls err.
         handlers ''echo'' = Some handler \<and> decode [] = Inr v \<and> handler v = (c # calls, err) \<and> 10 < rc_now c \<longrightarrow>
         handle_replies handlers decode creq
           = [\<lparr>cp_body = [], cp_error = Some (''req \"'' @ ''id'' @ ''\" is already timedout'')\<rparr>]" by auto
  from this [rule_format, of "[''echo'' \<mapsto> \<lambda>v. ([\<lparr>rc_now = 11, rc_err = None, rc_val = Inr ''1''\<rparr>], None)]"
    "\<lambda>v. ([\<lparr>rc_now = 11, rc_err = None, rc_val = Inr ''1''\<rparr>], None)" "\<lambda>_. Inr LNil"] b(1)
  show ?thesis by auto
qed

text \<open>
  a handler that replies and then fails answers twice, and the two responses, both with the id of
  the request, stop a reply box in which nobody is waiting for that id yet.
\<close>

theorem error_after_reply_wedges:
  assumes "handlers (cr_name req) = Some handler" and "decode (cr_body req) = Inr v"
    and "handler v = ([c], Some e)" and "reply_function req c = Inr r"
  shows "handle_replies handlers decode req = [r, \<lparr>cp_body = [], cp_error = Some e\<rparr>]
    \<and> (\<exists>t. run_events rb_step
             [EvInsert (reply_response (cr_id req) node t1 r),
              EvInsert (reply_response (cr_id req) node t2 \<lparr>cp_body = [], cp_error = Some e\<rparr>),
              EvLoopInsert, EvLoopInsert] newReplyBox = Some t
         \<and> (\<forall>es u. run_events rb_step es t = Some u \<longrightarrow> rb_blocked u \<noteq> None))"
proof -
  let ?q = "reply_response (cr_id req) node t2 \<lparr>cp_body = [], cp_error = Some e\<rparr>"
  have id: "rsp_id (reply_response (cr_id req) node t x) = cr_id req" for t x
    by (simp add: reply_response_def split: option.splits)
  obtain t where t: "run_events rb_step
             [EvInsert (reply_response (cr_id req) node t1 r), EvInsert ?q, EvLoopInsert, EvLoopInsert]
             newReplyBox = Some t" and w: "wedged 0 ?q t"
    using id by (simp add: rb_eval wedged_def watches_def)
  have "rb_blocked u \<noteq> None" if "run_events rb_step es t = Some u" for es u
    using wedged_run [OF w that] by (simp add: wedged_def)
  with t have "\<exists>t. run_events rb_step
             [EvInsert (reply_response (cr_id req) node t1 r), EvInsert ?q, EvLoopInsert, EvLoopInsert]
             newReplyBox = Some t \<and> (\<forall>es u. run_events rb_step es t = Some u \<longrightarrow> rb_blocked u \<noteq> None)" by blast
  moreover have "handle_replies handlers decode req = [r, \<lparr>cp_body = [], cp_error = Some e\<rparr>]"
    using assms by (simp add: handle_replies_def)
  ultimately show ?thesis by blast
qed

lemma error_after_reply_wedges_witness:
  "handle_replies [''echo'' \<mapsto> \<lambda>v. ([\<lparr>rc_now = 1, rc_err = None, rc_val = Inr ''1''\<rparr>], Some ''boom'')] (\<lambda>_. Inr LNil)
     \<lparr>cr_id = ''id'', cr_node = ''n1'', cr_loopback = False, cr_name = ''echo'', cr_body = [], cr_expires = None\<rparr>
   = [\<lparr>cp_body = ''1'', cp_error = None\<rparr>, \<lparr>cp_body = [], cp_error = Some ''boom''\<rparr>]"
proof -
  let ?req = "\<lparr>cr_id = ''id'', cr_node = ''n1'', cr_loopback = False, cr_name = ''echo'', cr_body = [], cr_expires = None\<rparr>"
  let ?h = "\<lambda>v :: lval. ([\<lparr>rc_now = 1, rc_err = None, rc_val = Inr ''1''\<rparr>], Some ''boom'')"
  have "handle_replies [''echo'' \<mapsto> ?h] (\<lambda>_. Inr LNil) ?req
      = [\<lparr>cp_body = ''1'', cp_error = None\<rparr>, \<lparr>cp_body = [], cp_error = Some ''boom''\<rparr>]"
    by (rule error_after_reply_wedges [where handler = ?h and v = LNil and
          c = "\<lparr>rc_now = 1, rc_err = None, rc_val = Inr ''1''\<rparr>", THEN conjunct1])
       (simp_all add: reply_function_def expired_def)
  then show ?thesis .
qed

end
