(* ===== verification/Params.thy ===== *)
theory Params
  imports Lua_Heap
begin

text \<open>
  The checks on the arguments of Lua functions: \<open>pkg/core/helpers/params/params.go\<close>, with one constructor of
  \<open>param\<close> for each Go type and its default value, and \<open>pkg/core/helpers/params.go\<close>.  The arguments of
  a call are a list; \<open>L.Get\<close> gives nil outside of it.
\<close>

datatype param =
    AnyType lval | NumberType lua_number | StringType string | BoolType bool
  | FunctionType "addr option" | TableType "addr option" | UserDataType "addr option"

text \<open>The declared Lua type of a parameter.\<close>

fun param_type :: "param \<Rightarrow> lua_type" where
  "param_type (AnyType v) = LTString"
| "param_type (NumberType x) = LTNumber"
| "param_type (StringType s) = LTString"
| "param_type (BoolType b) = LTBool"
| "param_type (FunctionType f) = LTFunction"
| "param_type (TableType t) = LTTable"
| "param_type (UserDataType u) = LTUserData"

text \<open>\<open>setValue\<close>; a failed type assertion panics.\<close>

fun setValue :: "param \<Rightarrow> lval \<Rightarrow> param option" where
  "setValue (AnyType v0) v = Some (AnyType v)"
| "setValue (NumberType x) v = (case v of LNumber y \<Rightarrow> Some (NumberType y) | _ \<Rightarrow> None)"
| "setValue (StringType s) v = (case v of LString t \<Rightarrow> Some (StringType t) | _ \<Rightarrow> None)"
| "setValue (BoolType b) v = (case v of LBool c \<Rightarrow> Some (BoolType c) | _ \<Rightarrow> None)"
| "setValue (FunctionType f) v = (case v of LFunction a \<Rightarrow> Some (FunctionType (Some a)) | _ \<Rightarrow> None)"
| "setValue (TableType t) v = (case v of LTable a \<Rightarrow> Some (TableType (Some a)) | _ \<Rightarrow> None)"
| "setValue (UserDataType u) v = (case v of LUserData a \<Rightarrow> Some (UserDataType (Some a)) | _ \<Rightarrow> None)"

text \<open>The constructors: the first of the optional values, or the zero value.\<close>

fun first_or :: "'a \<Rightarrow> 'a list \<Rightarrow> 'a" where
  "first_or d [] = d"
| "first_or d (x # xs) = x"

definition param_Any :: "lval list \<Rightarrow> param" where
  "param_Any vs = AnyType (first_or LNil vs)"

definition param_Number :: "lua_number list \<Rightarrow> param" where
  "param_Number vs = NumberType (first_or (Fin 0) vs)"

definition param_String :: "string list \<Rightarrow> param" where
  "param_String vs = StringType (first_or [] vs)"

definition param_Bool :: "bool list \<Rightarrow> param" where
  "param_Bool vs = BoolType (first_or False vs)"

definition param_Function :: "addr list \<Rightarrow> param" where
  "param_Function vs = FunctionType (first_or None (map Some vs))"

definition param_Table :: "addr list \<Rightarrow> param" where
  "param_Table vs = TableType (first_or None (map Some vs))"

definition param_UserData :: param where
  "param_UserData = UserDataType None"

text \<open>
  The accessors: the value a parameter holds, as a Lua value, and nil for a reference that is not set; and the
  conversion of a number to \<open>int64\<close>, which truncates and depends on the machine out of range (\<open>None\<close>).
\<close>

fun param_value :: "param \<Rightarrow> lval" where
  "param_value (AnyType v) = v"
| "param_value (NumberType x) = LNumber x"
| "param_value (StringType s) = LString s"
| "param_value (BoolType b) = LBool b"
| "param_value (FunctionType f) = (case f of None \<Rightarrow> LNil | Some a \<Rightarrow> LFunction a)"
| "param_value (TableType t) = (case t of None \<Rightarrow> LNil | Some a \<Rightarrow> LTable a)"
| "param_value (UserDataType u) = (case u of None \<Rightarrow> LNil | Some a \<Rightarrow> LUserData a)"

definition number_Int64 :: "lua_number \<Rightarrow> int option" where
  "number_Int64 x =
     (case x of
        Fin r \<Rightarrow>
          (let i = (if r < 0 then \<lceil>r\<rceil> else \<lfloor>r\<rfloor>) in
           if - (2 ^ 63) \<le> i \<and> i < 2 ^ 63 then Some i else None)
      | _ \<Rightarrow> None)"

definition get_arg :: "lval list \<Rightarrow> nat \<Rightarrow> lval" where
  "get_arg args i = (if 1 \<le> i \<and> i \<le> length args then args ! (i - 1) else LNil)"

datatype check_error = TooFew nat | BadType nat lua_type lua_type | IndexPanic

text \<open>The loop of \<open>Check\<close> over the values of the arguments from \<open>idx\<close> on.\<close>

fun check_values :: "nat \<Rightarrow> lval list \<Rightarrow> param list \<Rightarrow> check_error + param list" where
  "check_values idx [] ps = Inr ps"
| "check_values idx (v # vs) [] = Inl IndexPanic"
| "check_values idx (v # vs) (p # ps) =
     (if ltype v \<noteq> param_type p then Inl (BadType idx (param_type p) (ltype v))
      else case setValue p v of
             None \<Rightarrow> Inl IndexPanic
           | Some q \<Rightarrow> map_sum id (Cons q) (check_values (Suc idx) vs ps))"

definition Check :: "nat \<Rightarrow> nat \<Rightarrow> lval list \<Rightarrow> param list \<Rightarrow> check_error + (lval \<times> param list)" where
  "Check start required args ps =
     (let last = get_arg args (length args);
          has_cb = (ltype last = LTFunction);
          cb = (if has_cb then last else LNil);
          rest = (if has_cb then butlast args else args);
          n = int (length rest) - (int start - 1)
      in if n < int required then Inl (TooFew required)
         else map_sum id (Pair cb) (check_values start (drop (start - 1) rest) ps))"

text \<open>\<open>EnsureParamTypes\<close> and \<open>EnsureTableProperties\<close>; the properties are in the order of the map iteration.\<close>

datatype ensure_error = WrongCount nat nat | WrongArg nat lua_type | WrongProperty string lua_type

fun ensure_types :: "nat \<Rightarrow> lval list \<Rightarrow> lua_type list \<Rightarrow> ensure_error + unit" where
  "ensure_types i (v # vs) (t # ts) =
     (if ltype v \<noteq> t then Inl (WrongArg i t) else ensure_types (Suc i) vs ts)"
| "ensure_types i vs ts = Inr ()"

definition EnsureParamTypes :: "lval list \<Rightarrow> lua_type list \<Rightarrow> ensure_error + unit" where
  "EnsureParamTypes args types =
     (if length args \<noteq> length types then Inl (WrongCount (length types) (length args))
      else ensure_types 1 args types)"

fun EnsureTableProperties ::
    "('h, 'u) lua_api \<Rightarrow> 'h \<Rightarrow> addr \<Rightarrow> (string \<times> lua_type) list \<Rightarrow> ensure_error + unit" where
  "EnsureTableProperties api h t [] = Inr ()"
| "EnsureTableProperties api h t ((k, ty) # ps) =
     (if ltype (la_get api h t (LString k)) \<noteq> ty then Inl (WrongProperty k ty)
      else EnsureTableProperties api h t ps)"

subsection \<open>Lemmas\<close>

lemma setValue_typed:
  "ltype v = param_type p \<Longrightarrow> \<exists>q. setValue p v = Some q \<and> param_value q = v \<and> param_type q = param_type p"
  by (cases p; cases v) auto

lemma check_values_ok:
  "check_values idx vs ps = Inr qs \<Longrightarrow>
     length vs \<le> length ps \<and> map ltype vs = map param_type (take (length vs) ps)
     \<and> map param_value (take (length vs) qs) = vs \<and> drop (length vs) qs = drop (length vs) ps"
proof (induction idx vs ps arbitrary: qs rule: check_values.induct)
  case (3 idx v vs p ps)
  from 3(2) obtain q rs where q: "ltype v = param_type p" "setValue p v = Some q"
    "check_values (Suc idx) vs ps = Inr rs" "qs = q # rs"
    by (auto split: if_splits option.splits simp: map_sum_Inr)
  from 3(1) [OF _ q(2,3)] q setValue_typed [OF q(1)] show ?case by auto
qed auto

lemma check_values_complete:
  "length vs \<le> length ps \<Longrightarrow> map ltype vs = map param_type (take (length vs) ps) \<Longrightarrow>
     \<exists>qs. check_values idx vs ps = Inr qs"
proof (induction idx vs ps rule: check_values.induct)
  case (3 idx v vs p ps)
  then have t: "ltype v = param_type p" by simp
  from setValue_typed [OF t] obtain q where q: "setValue p v = Some q" by blast
  from 3(1) [OF _ q] 3(2,3) t obtain rs where "check_values (Suc idx) vs ps = Inr rs" by auto
  with t q show ?case by auto
qed auto

lemma check_values_panic:
  "length ps < length vs \<Longrightarrow> map ltype (take (length ps) vs) = map param_type ps \<Longrightarrow>
     check_values idx vs ps = Inl IndexPanic"
proof (induction idx vs ps rule: check_values.induct)
  case (3 idx v vs p ps)
  then have t: "ltype v = param_type p" by simp
  from setValue_typed [OF t] obtain q where q: "setValue p v = Some q" by blast
  with 3 t show ?case by simp
qed auto

text \<open>What the caller sees: an optional callback at the end, and the arguments before it from \<open>start\<close> on.\<close>

definition has_callback :: "lval list \<Rightarrow> bool" where
  "has_callback args \<longleftrightarrow> args \<noteq> [] \<and> ltype (last args) = LTFunction"

definition plain_args :: "nat \<Rightarrow> lval list \<Rightarrow> lval list" where
  "plain_args start args = drop (start - 1) (if has_callback args then butlast args else args)"

definition call_ok :: "nat \<Rightarrow> nat \<Rightarrow> lval list \<Rightarrow> param list \<Rightarrow> bool" where
  "call_ok start required args ps \<longleftrightarrow>
     start - 1 + required \<le> length args - (if has_callback args then 1 else 0)
     \<and> length (plain_args start args) \<le> length ps
     \<and> map ltype (plain_args start args) = map param_type (take (length (plain_args start args)) ps)"

lemma get_last: "get_arg args (length args) = (if args = [] then LNil else last args)"
  by (cases args rule: rev_cases) (auto simp: get_arg_def last_conv_nth)

lemma Check_unfold:
  assumes "1 \<le> start"
  shows "Check start required args ps =
    (if start - 1 + required \<le> length args - (if has_callback args then 1 else 0)
     then map_sum id (Pair (if has_callback args then last args else LNil))
            (check_values start (plain_args start args) ps)
     else Inl (TooFew required))"
  using assms
  by (auto simp: Check_def Let_def get_last has_callback_def plain_args_def)

subsection \<open>Properties\<close>

text \<open>
  C10: \<open>Check\<close> accepts exactly the calls with enough arguments, not more than declared, of the declared
  types, before an optional callback at the end; then every given parameter holds its argument, the
  others keep their defaults, and the result is the callback, nil when the last argument is no function.
\<close>

theorem Check_spec:
  assumes "1 \<le> start"
  shows "case Check start required args ps of
      Inl e \<Rightarrow> \<not> call_ok start required args ps
    | Inr (cb, qs) \<Rightarrow>
        call_ok start required args ps
        \<and> map param_value (take (length (plain_args start args)) qs) = plain_args start args
        \<and> drop (length (plain_args start args)) qs = drop (length (plain_args start args)) ps
        \<and> cb = (if has_callback args then last args else LNil)"
proof (cases "start - 1 + required \<le> length args - (if has_callback args then 1 else 0)")
  case False
  then show ?thesis using Check_unfold [OF assms, of required args ps] by (simp add: call_ok_def)
next
  case True
  then have c: "Check start required args ps
      = map_sum id (Pair (if has_callback args then last args else LNil))
          (check_values start (plain_args start args) ps)"
    using Check_unfold [OF assms, of required args ps] by simp
  show ?thesis
  proof (cases "check_values start (plain_args start args) ps")
    case (Inl e)
    with check_values_complete [of "plain_args start args" ps start] c show ?thesis
      by (auto simp: call_ok_def)
  next
    case (Inr qs)
    from check_values_ok [OF this] True Inr c show ?thesis by (simp add: call_ok_def)
  qed
qed

lemma Check_spec_witness:
  "case Check 1 1 [LString ''echo'', LBool True, LFunction 7] [StringType [], BoolType False, TableType None] of
     Inl e \<Rightarrow> False
   | Inr (cb, qs) \<Rightarrow> cb = LFunction 7 \<and> drop 2 qs = [TableType None]"
  using Check_spec [of 1 1 "[LString ''echo'', LBool True, LFunction 7]" "[StringType [], BoolType False, TableType None]"]
  by (simp add: Check_def get_arg_def has_callback_def plain_args_def Let_def)

text \<open>
  a parameter declared as any value takes nothing but strings.  \<open>AnyType.Type\<close> is the type of strings,
  so \<open>rpc.call\<close> and \<open>rpc.broadcast\<close>, whose second parameter is the message, raise for every message of
  another type, and more arguments than declared index out of range.
\<close>

theorem any_takes_only_strings:
  assumes "ltype m \<noteq> LTString" and "ltype m \<noteq> LTFunction \<or> rest \<noteq> []"
  shows "Check 1 2 (LString name # m # rest) [StringType [], AnyType LNil, TableType None]
    = Inl (BadType 2 LTString (ltype m))"
proof -
  have "has_callback (LString name # m # rest) \<longrightarrow> rest \<noteq> []"
    using assms(2) by (auto simp: has_callback_def)
  then have v: "plain_args 1 (LString name # m # rest)
      = LString name # m # (if has_callback (LString name # m # rest) then butlast rest else rest)"
    by (auto simp: plain_args_def)
  have "check_values 1 (LString name # m # vs) [StringType [], AnyType LNil, TableType None]
      = Inl (BadType 2 LTString (ltype m))" for vs
    using assms(1) by (simp add: numeral_2_eq_2)
  moreover have "1 - 1 + 2 \<le> length (LString name # m # rest) - (if has_callback (LString name # m # rest) then 1 else 0)"
    using \<open>has_callback (LString name # m # rest) \<longrightarrow> rest \<noteq> []\<close> by (cases rest) auto
  ultimately show ?thesis unfolding Check_unfold [OF order_refl] v by simp
qed

lemma any_takes_only_strings_witness:
  "Check 1 2 [LString ''echo'', LTable 3] [StringType [], AnyType LNil, TableType None]
     = Inl (BadType 2 LTString LTTable)"
  using any_takes_only_strings [of "LTable 3" "[]" "''echo''"] by simp

end
