(* ===== verification/Object.thy ===== *)
theory Object
  imports Json
begin

text \<open>
  \<open>pkg/core/object/go_object.go\<close>: Go objects as Lua user data with methods, properties and a table for
  everything else.  An object is a record; \<open>ob_go\<close> is the Go value behind it, and \<open>accessors\<close> are the
  methods \<open>ObjectGet\<close> and \<open>ObjectSet\<close> that value may have.  \<open>closure fn ud\<close> is the Lua function that the
  interpreter makes of a Go function and the object's user data.  A failed operation is the error
  it raises.
\<close>

record 'g object =
  ob_methods :: "string \<rightharpoonup> addr"
  ob_properties :: "(string \<times> lval) list"
  ob_table :: "addr option"
  ob_go :: 'g
  ob_readonly :: bool
  ob_protected :: bool
  ob_userData :: addr

record 'g accessors =
  ac_get :: "('g \<Rightarrow> lval \<Rightarrow> lval option) option"
  ac_set :: "('g \<Rightarrow> lval \<Rightarrow> lval \<Rightarrow> bool \<times> 'g) option"

text \<open>What user data hold: an object, or another Go value.\<close>

datatype 'g udval = UDObject "'g object" | UDValue 'g

definition obj_Value :: "'g object \<Rightarrow> lval" where
  "obj_Value ob = LUserData (ob_userData ob)"

definition SetProperty :: "string \<Rightarrow> lval \<Rightarrow> 'g object \<Rightarrow> 'g object" where
  "SetProperty k v ob = ob\<lparr>ob_properties := AList.update k v (ob_properties ob)\<rparr>"

definition SetFunction :: "string \<Rightarrow> addr \<Rightarrow> 'g object \<Rightarrow> 'g object" where
  "SetFunction k f ob = ob\<lparr>ob_methods := (ob_methods ob)(k \<mapsto> f)\<rparr>"

definition SetMethod :: "('f \<Rightarrow> addr \<Rightarrow> addr) \<Rightarrow> string \<Rightarrow> 'f \<Rightarrow> 'g object \<Rightarrow> 'g object" where
  "SetMethod closure k fn ob = ob\<lparr>ob_methods := (ob_methods ob)(k \<mapsto> closure fn (ob_userData ob))\<rparr>"

subsection \<open>Construction\<close>

text \<open>
  The interpreter's state as far as objects need it: its heap, what user data hold, and their metatables.
  An object is known by its user data, so changing it is storing it there again.
\<close>

record ('h, 'g) objects =
  os_heap :: 'h
  os_udata :: "addr \<Rightarrow> 'g udval"
  os_meta :: "addr \<rightharpoonup> addr"

definition store_object :: "'g object \<Rightarrow> ('h, 'g) objects \<Rightarrow> ('h, 'g) objects" where
  "store_object ob s = s\<lparr>os_udata := (os_udata s)(ob_userData ob := UDObject ob)\<rparr>"

text \<open>\<open>set_fn\<close> and \<open>get_fn\<close> are the closures of \<open>lSet\<close> and \<open>lGet\<close> over the user data.\<close>

definition newObject ::
    "('h, unit) lua_api \<Rightarrow> (addr \<Rightarrow> addr) \<Rightarrow> (addr \<Rightarrow> addr) \<Rightarrow> addr \<Rightarrow> (string \<rightharpoonup> addr) \<Rightarrow> (string \<times> lval) list \<Rightarrow>
     'g \<Rightarrow> addr option \<Rightarrow> bool \<Rightarrow> bool \<Rightarrow> ('h, 'g) objects \<Rightarrow> 'g object \<times> ('h, 'g) objects" where
  "newObject api set_fn get_fn ud methods properties value table readonly protected s =
     (let ob = \<lparr>ob_methods = methods, ob_properties = properties, ob_table = table, ob_go = value,
                ob_readonly = readonly, ob_protected = protected, ob_userData = ud\<rparr>;
          s1 = store_object ob s
      in case la_new_table api (os_heap s1) of (m, h) \<Rightarrow>
           (let h1 = la_set api m (LString ''__newindex'') (LFunction (set_fn ud)) h;
                h2 = la_set api m (LString ''__index'') (LFunction (get_fn ud)) h1;
                h3 = la_set api m (LString ''__metadata'') (LBool False) h2
            in (ob, s1\<lparr>os_heap := h3, os_meta := (os_meta s1)(ud \<mapsto> m)\<rparr>)))"

definition closures :: "('f \<Rightarrow> addr \<Rightarrow> addr) \<Rightarrow> addr \<Rightarrow> (string \<times> 'f) list \<Rightarrow> (string \<rightharpoonup> addr)" where
  "closures closure ud funcs = map_of (map (\<lambda>(k, f). (k, closure f ud)) funcs)"

text \<open>\<open>ud := L.NewUserData(); ud.Value = value\<close>\<close>

definition new_udata :: "('h, unit) lua_api \<Rightarrow> 'g \<Rightarrow> ('h, 'g) objects \<Rightarrow> addr \<times> ('h, 'g) objects" where
  "new_udata api value s =
     (case la_new_udata api () (os_heap s) of
        (ud, h) \<Rightarrow> (ud, s\<lparr>os_heap := h, os_udata := (os_udata s)(ud := UDValue value)\<rparr>))"

definition new_object_table :: "('h, unit) lua_api \<Rightarrow> ('h, 'g) objects \<Rightarrow> addr \<times> ('h, 'g) objects" where
  "new_object_table api s = (case la_new_table api (os_heap s) of (t, h) \<Rightarrow> (t, s\<lparr>os_heap := h\<rparr>))"

definition object_New ::
    "('h, unit) lua_api \<Rightarrow> (addr \<Rightarrow> addr) \<Rightarrow> (addr \<Rightarrow> addr) \<Rightarrow> ('f \<Rightarrow> addr \<Rightarrow> addr) \<Rightarrow> (string \<times> 'f) list \<Rightarrow>
     (string \<times> lval) list \<Rightarrow> 'g \<Rightarrow> ('h, 'g) objects \<Rightarrow> 'g object \<times> ('h, 'g) objects" where
  "object_New api set_fn get_fn closure funcs properties value s =
     (case new_udata api value s of (ud, s1) \<Rightarrow>
        (case new_object_table api s1 of (t, s2) \<Rightarrow>
           newObject api set_fn get_fn ud (closures closure ud funcs) properties value (Some t) False False s2))"

definition object_NewReadOnly ::
    "('h, unit) lua_api \<Rightarrow> (addr \<Rightarrow> addr) \<Rightarrow> (addr \<Rightarrow> addr) \<Rightarrow> ('f \<Rightarrow> addr \<Rightarrow> addr) \<Rightarrow> (string \<times> 'f) list \<Rightarrow>
     (string \<times> lval) list \<Rightarrow> 'g \<Rightarrow> ('h, 'g) objects \<Rightarrow> 'g object \<times> ('h, 'g) objects" where
  "object_NewReadOnly api set_fn get_fn closure funcs properties value s =
     (case new_udata api value s of (ud, s1) \<Rightarrow>
        newObject api set_fn get_fn ud (closures closure ud funcs) properties value None True False s1)"

definition object_NewProtected ::
    "('h, unit) lua_api \<Rightarrow> (addr \<Rightarrow> addr) \<Rightarrow> (addr \<Rightarrow> addr) \<Rightarrow> ('f \<Rightarrow> addr \<Rightarrow> addr) \<Rightarrow> (string \<times> 'f) list \<Rightarrow>
     (string \<times> lval) list \<Rightarrow> 'g \<Rightarrow> ('h, 'g) objects \<Rightarrow> 'g object \<times> ('h, 'g) objects" where
  "object_NewProtected api set_fn get_fn closure funcs properties value s =
     (case new_udata api value s of (ud, s1) \<Rightarrow>
        (case new_object_table api s1 of (t, s2) \<Rightarrow>
           newObject api set_fn get_fn ud (closures closure ud funcs) properties value (Some t) False True s2))"

subsection \<open>Looking behind a Lua value\<close>

definition object_Is :: "(addr \<Rightarrow> 'g udval) \<Rightarrow> lval \<Rightarrow> bool" where
  "object_Is ud v = (case v of LUserData a \<Rightarrow> (case ud a of UDObject ob \<Rightarrow> True | UDValue g \<Rightarrow> False) | _ \<Rightarrow> False)"

definition object_Get :: "(addr \<Rightarrow> 'g udval) \<Rightarrow> lval \<Rightarrow> string + 'g object" where
  "object_Get ud v =
     (case v of
        LUserData a \<Rightarrow> (case ud a of UDObject ob \<Rightarrow> Inr ob | UDValue g \<Rightarrow> Inl ''expected GoObject'')
      | _ \<Rightarrow> Inl ''expected user data'')"

definition object_GoValue :: "(addr \<Rightarrow> 'g udval) \<Rightarrow> lval \<Rightarrow> string + 'g" where
  "object_GoValue ud v = map_sum id ob_go (object_Get ud v)"

definition object_MustGet :: "(addr \<Rightarrow> 'g udval) \<Rightarrow> lval \<Rightarrow> 'g object option" where
  "object_MustGet ud v = (case object_Get ud v of Inl e \<Rightarrow> None | Inr ob \<Rightarrow> Some ob)"

definition object_MustValue :: "(addr \<Rightarrow> 'g udval) \<Rightarrow> lval \<Rightarrow> 'g option" where
  "object_MustValue ud v = map_option ob_go (object_MustGet ud v)"

subsection \<open>Indexing\<close>

text \<open>\<open>__index\<close>; an object that is not read-only has a table, else the access panics, \<open>None\<close>.\<close>

definition lGet :: "('h, 'u) lua_api \<Rightarrow> 'g accessors \<Rightarrow> 'h \<Rightarrow> 'g object \<Rightarrow> lval \<Rightarrow> lval option" where
  "lGet api ac h ob rawKey =
     (case (case ac_get ac of None \<Rightarrow> None | Some g \<Rightarrow> g (ob_go ob) rawKey) of
        Some r \<Rightarrow> Some r
      | None \<Rightarrow>
          (let key = la_tostring api rawKey in
           case map_of (ob_properties ob) key of
             Some v \<Rightarrow> Some v
           | None \<Rightarrow>
               (case ob_methods ob key of
                  Some f \<Rightarrow> Some (LFunction f)
                | None \<Rightarrow>
                    (if ob_readonly ob then Some LNil
                     else map_option (\<lambda>t. la_get api h t rawKey) (ob_table ob)))))"

text \<open>\<open>__newindex\<close>: the object and the heap after it, the error it raises, or a panic.\<close>

datatype ('g, 'h) set_result = SetDone "'g object" 'h | SetRaises string | SetPanics

definition set_rest :: "('h, 'u) lua_api \<Rightarrow> 'h \<Rightarrow> 'g object \<Rightarrow> lval \<Rightarrow> lval \<Rightarrow> ('g, 'h) set_result" where
  "set_rest api h ob rawKey v =
     (if ob_readonly ob then SetRaises ''Attempt to modify read-only value''
      else
        (let key = la_tostring api rawKey in
         if map_of (ob_properties ob) key \<noteq> None then
           (if ob_protected ob then SetRaises ''Attempt to modify protected properties'' else SetDone ob h)
         else if ob_methods ob key \<noteq> None then
           (if ob_protected ob then SetRaises ''Attempt to modify protected methods'' else SetDone ob h)
         else
           (case ob_table ob of
              None \<Rightarrow> SetPanics
            | Some t \<Rightarrow> SetDone ob (la_set api t (LString key) v h))))"

definition lSet ::
    "('h, 'u) lua_api \<Rightarrow> 'g accessors \<Rightarrow> 'h \<Rightarrow> 'g object \<Rightarrow> lval \<Rightarrow> lval \<Rightarrow> ('g, 'h) set_result" where
  "lSet api ac h ob rawKey v =
     (case ac_set ac of
        None \<Rightarrow> set_rest api h ob rawKey v
      | Some f \<Rightarrow>
          (case f (ob_go ob) rawKey v of
             (True, g) \<Rightarrow> SetDone (ob\<lparr>ob_go := g\<rparr>) h
           | (False, g) \<Rightarrow> set_rest api h (ob\<lparr>ob_go := g\<rparr>) rawKey v))"

subsection \<open>JSON\<close>

text \<open>
  \<open>MarshalJSON\<close> puts the text together itself: the names are not escaped, and a value without text, nil, leaves
  a name without a value.  \<open>encode\<close> is \<open>json.Encode\<close> as text, and the properties are in the order of the
  map iteration.
\<close>

fun join :: "string \<Rightarrow> string list \<Rightarrow> string" where
  "join sep [] = []"
| "join sep [x] = x"
| "join sep (x # y # zs) = x @ sep @ join sep (y # zs)"

fun property_pairs :: "(lval \<Rightarrow> 'e + string) \<Rightarrow> (string \<times> lval) list \<Rightarrow> 'e + string list" where
  "property_pairs encode [] = Inr []"
| "property_pairs encode ((k, v) # ps) =
     (case encode v of
        Inl e \<Rightarrow> Inl e
      | Inr text \<Rightarrow> map_sum id (Cons (''\"'' @ k @ ''\":'' @ text)) (property_pairs encode ps))"

definition obj_MarshalJSON :: "(lval \<Rightarrow> 'e + string) \<Rightarrow> 'g object \<Rightarrow> 'e + string" where
  "obj_MarshalJSON encode ob =
     (case (case ob_table ob of
              None \<Rightarrow> Inr []
            | Some t \<Rightarrow> map_sum id (\<lambda>text. [''\"customProperties\":'' @ text]) (encode (LTable t))) of
        Inl e \<Rightarrow> Inl e
      | Inr pairs \<Rightarrow>
          (if ob_properties ob = [] then Inr (''{'' @ join '','' pairs @ ''}'')
           else case property_pairs encode (ob_properties ob) of
                  Inl e \<Rightarrow> Inl e
                | Inr pps \<Rightarrow>
                    Inr (''{'' @ join '','' (pairs @ [''\"properties\":{'' @ join '','' pps @ ''}'']) @ ''}'')))"

subsection \<open>Lemmas\<close>

text \<open>A new object is behind its user data, with the flags of its constructor.\<close>

lemma newObject_Get:
  "newObject api f g ud ms ps v t r p s = (ob, s') \<Longrightarrow>
     object_Get (os_udata s') (obj_Value ob) = Inr ob \<and> ob_userData ob = ud \<and> ob_table ob = t
     \<and> ob_readonly ob = r \<and> ob_protected ob = p \<and> ob_go ob = v \<and> ob_properties ob = ps \<and> ob_methods ob = ms"
  by (auto simp: newObject_def Let_def store_object_def object_Get_def obj_Value_def split: prod.splits)

lemmas object_constructors = object_New_def object_NewReadOnly_def object_NewProtected_def

lemma constructor_flags:
  "object_New api f g cl fs ps v s = (ob, s') \<Longrightarrow>
     object_Get (os_udata s') (obj_Value ob) = Inr ob \<and> \<not> ob_readonly ob \<and> \<not> ob_protected ob \<and> ob_table ob \<noteq> None"
  "object_NewReadOnly api f g cl fs ps v s = (ob, s') \<Longrightarrow>
     object_Get (os_udata s') (obj_Value ob) = Inr ob \<and> ob_readonly ob \<and> \<not> ob_protected ob \<and> ob_table ob = None"
  "object_NewProtected api f g cl fs ps v s = (ob, s') \<Longrightarrow>
     object_Get (os_udata s') (obj_Value ob) = Inr ob \<and> \<not> ob_readonly ob \<and> ob_protected ob \<and> ob_table ob \<noteq> None"
  unfolding object_constructors by (auto split: prod.splits dest!: newObject_Get)

definition no_accessors :: "'g accessors" where
  "no_accessors = \<lparr>ac_get = None, ac_set = None\<rparr>"

text \<open>A key that neither a property nor a method has.\<close>

definition free_key :: "'g object \<Rightarrow> string \<Rightarrow> bool" where
  "free_key ob k \<longleftrightarrow> map_of (ob_properties ob) k = None \<and> ob_methods ob k = None"

lemma lGet_free:
  "la_tostring api k = s \<Longrightarrow> free_key ob s \<Longrightarrow> \<not> ob_readonly ob \<Longrightarrow> ob_table ob = Some t \<Longrightarrow>
     lGet api no_accessors h ob k = Some (la_get api h t k)"
  by (simp add: lGet_def no_accessors_def free_key_def Let_def)

lemma lGet_not_free:
  "\<not> free_key ob (la_tostring api k) \<Longrightarrow> lGet api no_accessors h' ob k = lGet api no_accessors h ob k"
  by (auto simp: lGet_def no_accessors_def free_key_def Let_def split: option.splits)

subsection \<open>Properties\<close>

text \<open>
  C14: assignment to an object.  A read-only object raises on every key; on the others an assignment to a
  property or method raises when the object is protected and is ignored when it is not; an assignment
  to any other string key is what reading that key gives afterwards, and no other key changes.
\<close>

theorem object_set_get:
  assumes "lua_heap api" and "la_ok api h" and "t \<in> la_live api h" and "lval_live api h v" and "v \<noteq> LNil"
    and "ob_table ob = (if ob_readonly ob then None else Some t)"
  shows "case lSet api no_accessors h ob (LString k) v of
      SetPanics \<Rightarrow> False
    | SetRaises e \<Rightarrow> ob_readonly ob \<or> ob_protected ob \<and> \<not> free_key ob k
    | SetDone ob' h' \<Rightarrow>
        \<not> ob_readonly ob \<and> ob' = ob \<and>
        (if free_key ob k
         then lGet api no_accessors h' ob (LString k) = Some v
            \<and> (\<forall>j. j = LString k \<or> lGet api no_accessors h' ob j = lGet api no_accessors h ob j)
         else \<not> ob_protected ob \<and> h' = h)"
proof (cases "ob_readonly ob \<or> \<not> free_key ob k")
  case True
  then show ?thesis
    using lua_heap.tostring_string [OF assms(1), of k]
    by (auto simp: lSet_def no_accessors_def set_rest_def free_key_def Let_def)
next
  case False
  let ?h = "la_set api t (LString k) v h"
  have k: "la_tostring api (LString k) = k" by (rule lua_heap.tostring_string [OF assms(1)])
  have tab: "ob_table ob = Some t" "\<not> ob_readonly ob" using False assms(6) by auto
  have set: "lSet api no_accessors h ob (LString k) v = SetDone ob ?h"
    using False tab k by (simp add: lSet_def no_accessors_def set_rest_def free_key_def Let_def)
  have get: "la_get api ?h t j = (if j = LString k then v else la_get api h t j)" for j
    using lua_heap.set_get [OF assms(1,2,3)] assms(4,5) by simp
  have self: "lGet api no_accessors ?h ob (LString k) = Some v"
    using lGet_free [where k = "LString k" and s = k and ob = ob and t = t, OF k] False tab get by simp
  have "lGet api no_accessors ?h ob j = lGet api no_accessors h ob j" if "j \<noteq> LString k" for j
  proof (cases "free_key ob (la_tostring api j)")
    case True
    from lGet_free [OF refl True tab(2,1)] get that show ?thesis by simp
  qed (rule lGet_not_free)
  then have "\<forall>j. j = LString k \<or> lGet api no_accessors ?h ob j = lGet api no_accessors h ob j" by blast
  with self set False show ?thesis by simp
qed

definition sample_object :: "unit object" where
  "sample_object =
     \<lparr>ob_methods = Map.empty, ob_properties = [(''name'', LBool True)], ob_table = Some 0, ob_go = (),
      ob_readonly = False, ob_protected = True, ob_userData = 0\<rparr>"

lemma object_set_get_witness:
  "\<exists>h'. lSet (alist_api (\<lambda>_. [])) no_accessors (empty_heap\<lparr>ah_next := 1\<rparr>) sample_object (LString ''x'') (LBool False)
       = SetDone sample_object h'
     \<and> lGet (alist_api (\<lambda>_. [])) no_accessors h' sample_object (LString ''x'') = Some (LBool False)"
proof -
  let ?api = "alist_api (\<lambda>_. [])" and ?h = "empty_heap\<lparr>ah_next := 1\<rparr>"
  have ok: "la_ok ?api ?h" "0 \<in> la_live ?api ?h" "lval_live ?api ?h (LBool False)"
    by (simp_all add: alist_api_simps alist_ok_def empty_heap_def lval_live_def)
  have t: "ob_table sample_object = (if ob_readonly sample_object then None else Some 0)"
    by (simp add: sample_object_def)
  have free: "free_key sample_object ''x''" by (simp add: sample_object_def free_key_def)
  from object_set_get [OF alist.lua_heap_axioms ok _ t, of "''x''"] free show ?thesis
    by (auto split: set_result.splits simp: sample_object_def)
qed

text \<open>
  what is assigned under a key that is not a string cannot be read back: the assignment stores it under the
  key's text, while reading looks for the key itself, and finds nothing unless it was there before.
\<close>

theorem nonstring_key_lost:
  assumes "lua_heap api" and "la_ok api h" and "t \<in> la_live api h" and "lval_live api h v" and "v \<noteq> LNil"
    and "ob_table ob = Some t" and "\<not> ob_readonly ob"
    and "ltype k \<noteq> LTString" and "free_key ob (la_tostring api k)"
  shows "\<exists>h'. lSet api no_accessors h ob k v = SetDone ob h'
    \<and> lGet api no_accessors h' ob k = lGet api no_accessors h ob k
    \<and> lGet api no_accessors h' ob (LString (la_tostring api k)) = Some v"
proof -
  let ?s = "la_tostring api k" and ?h = "la_set api t (LString (la_tostring api k)) v h"
  have "lSet api no_accessors h ob k v = SetDone ob ?h"
    using assms(6,7,9) by (simp add: lSet_def no_accessors_def set_rest_def free_key_def Let_def)
  moreover have get: "la_get api ?h t j = (if j = LString ?s then v else la_get api h t j)" for j
    using lua_heap.set_get [OF assms(1,2,3)] assms(4,5) by simp
  moreover have "k \<noteq> LString ?s" using assms(8) by (cases k) auto
  ultimately show ?thesis
    using lGet_free [OF refl assms(9,7,6)]
      lGet_free [OF lua_heap.tostring_string [OF assms(1)] assms(9,7,6)] by simp
qed

lemma nonstring_key_lost_witness:
  "\<exists>h'. lSet (alist_api (\<lambda>_. ''1'')) no_accessors (empty_heap\<lparr>ah_next := 1\<rparr>) sample_object (index_key 1) (LBool False)
       = SetDone sample_object h'
     \<and> lGet (alist_api (\<lambda>_. ''1'')) no_accessors h' sample_object (index_key 1) = Some LNil"
proof -
  let ?api = "alist_api (\<lambda>_. ''1'') :: (unit alist_heap, unit) lua_api" and ?h = "empty_heap\<lparr>ah_next := 1\<rparr>"
  have ok: "la_ok ?api ?h" "0 \<in> la_live ?api ?h" "lval_live ?api ?h (LBool False)"
    by (simp_all add: alist_api_simps alist_ok_def empty_heap_def lval_live_def)
  have t: "ob_table sample_object = Some 0" "\<not> ob_readonly sample_object"
    by (simp_all add: sample_object_def)
  have s: "la_tostring ?api (index_key 1) = ''1''" by (simp add: alist_api_def index_key_def)
  have free: "free_key sample_object (la_tostring ?api (index_key 1))"
    unfolding s by (simp add: sample_object_def free_key_def)
  have "lGet ?api no_accessors ?h sample_object (index_key 1) = Some LNil"
    using lGet_free [OF refl free t(2,1)] by (simp add: alist_api_simps empty_heap_def)
  with nonstring_key_lost [OF alist.lua_heap_axioms ok _ t _ free] show ?thesis
    by (auto simp: index_key_def)
qed

end
