(* ===== verification/Lua_Lifecycle.thy ===== *)
theory Lua_Lifecycle
  imports Rpc_Path
begin

text \<open>
  The life of the Lua workers: \<open>pkg/server/lua_run.go\<close> (\<open>LoadLua\<close>, \<open>StopLua\<close>, \<open>runLua\<close>), the listeners they share
  (\<open>listeners.go\<close>), \<open>RPCDebug\<close> (\<open>debug.go\<close>), and what the commands \<open>server\<close> and \<open>debug\<close> add
  (\<open>pkg/commands\<close>).

  Each worker is a goroutine, so its passage through \<open>runLua\<close> is a sequence of steps that interleave with the
  other workers, with \<open>LoadLua\<close> and with one \<open>StopLua\<close>.  \<open>append\<close> to the unprotected slice of exit channels is a
  read and a write.  Files, the parser, the Lua script and the network are arguments or outcomes of the steps.
\<close>

subsection \<open>Listeners\<close>

text \<open>Listeners by network and address; the lists stand for the order of map iteration.\<close>

type_synonym 'l listener_map = "(string \<times> (string \<times> 'l) list) list"

definition newListenerManager :: "'l listener_map" where
  "newListenerManager = []"

definition Listen ::
    "(string \<Rightarrow> string \<Rightarrow> string + 'l) \<Rightarrow> string \<Rightarrow> string \<Rightarrow> 'l listener_map \<Rightarrow> (string + 'l) \<times> 'l listener_map" where
  "Listen net_listen network addr m =
     (let group = (case map_of m network of None \<Rightarrow> [] | Some g \<Rightarrow> g);
          m1 = (if map_of m network = None then AList.update network [] m else m)
      in case map_of group addr of
           Some lis \<Rightarrow> (Inr lis, m1)
         | None \<Rightarrow>
             (case net_listen network addr of
                Inl e \<Rightarrow> (Inl e, m1)
              | Inr lis \<Rightarrow> (Inr lis, AList.update network (AList.update addr lis group) m1)))"

text \<open>\<open>Reset\<close> closes every listener, whether closing succeeds or not, and forgets them.\<close>

definition open_listeners :: "'l listener_map \<Rightarrow> 'l list" where
  "open_listeners m = concat (map (\<lambda>(network, group). map snd group) m)"

definition Listeners_Reset :: "'l listener_map \<Rightarrow> 'l list \<times> 'l listener_map" where
  "Listeners_Reset m = (open_listeners m, [])"

lemma Listen_again:
  "Listen net network addr m = (Inr lis, m') \<Longrightarrow> Listen net' network addr m' = (Inr lis, m')"
  by (auto simp: Listen_def Let_def update_conv split: option.splits sum.splits if_splits)

lemma Listen_other:
  "(n, a) \<noteq> (network, addr) \<Longrightarrow> Listen net network addr m = (r, m') \<Longrightarrow>
     Option.bind (map_of m' n) (\<lambda>g. map_of g a) = Option.bind (map_of m n) (\<lambda>g. map_of g a)"
  by (auto simp: Listen_def Let_def update_conv split: option.splits sum.splits if_splits)

subsection \<open>Workers\<close>

text \<open>How far a worker is in \<open>runLua\<close>; \<open>WAppending g\<close> has read the slice \<open>g\<close> it is about to extend.\<close>

datatype phase =
    WSpawned | WCounted | WAppending "nat list" | WAppended | WRegistered | WWaiting | WStopping | WDone

record lua_worker =
  wk_id :: nat
  wk_phase :: phase
  wk_exit :: "duration chan"

text \<open>The parts of the server that \<open>StopLua\<close> resets.\<close>

record ('l, 'q, 'cc) parts =
  pt_listeners :: "'l listener_map"
  pt_inbox :: "'q inbox"
  pt_replies :: reply_box
  pt_server :: "'cc server"

text \<open>
  The state of the workers.  An exit channel is known by the index of its worker, \<open>lr_loader\<close> is the next worker that a
  running \<open>LoadLua\<close> spawns, \<open>lr_stop\<close> what a running \<open>StopLua\<close> has still to tell, and \<open>lr_dead\<close> says that
  the process has ended.
\<close>

record ('l, 'q, 'cc) lua_run =
  lr_script :: string
  lr_reloading :: bool
  lr_loader :: "nat option"
  lr_group :: "nat list"
  lr_wg :: nat
  lr_workers :: "lua_worker list"
  lr_stop :: "(nat list \<times> duration) option"
  lr_dead :: bool
  lr_parts :: "('l, 'q, 'cc) parts"

definition new_run :: "('l, 'q, 'cc) parts \<Rightarrow> ('l, 'q, 'cc) lua_run" where
  "new_run p =
     \<lparr>lr_script = [], lr_reloading = False, lr_loader = None, lr_group = [], lr_wg = 0, lr_workers = [],
      lr_stop = None, lr_dead = False, lr_parts = p\<rparr>"

subsection \<open>LoadLua\<close>

text \<open>Up to the loop: the flag, and reading, parsing and compiling the script.\<close>

definition load_begin ::
    "(string \<Rightarrow> string + unit) \<Rightarrow> string \<Rightarrow> ('l, 'q, 'cc) lua_run \<Rightarrow> (string + unit) \<times> ('l, 'q, 'cc) lua_run" where
  "load_begin compile path s =
     (if lr_reloading s then (Inl ''lua is reloading'', s)
      else (case compile path of
              Inl e \<Rightarrow> (Inl e, s\<lparr>lr_script := path\<rparr>)
            | Inr _ \<Rightarrow> (Inr (), s\<lparr>lr_script := path, lr_reloading := True, lr_loader := Some 0\<rparr>)))"

text \<open>One iteration, or the end of the loop; \<open>init\<close> is the outcome of \<open>global.lua\<close> in the new state.\<close>

definition load_next ::
    "string + unit \<Rightarrow> ('l, 'q, 'cc) lua_run \<Rightarrow> ((string + unit) option \<times> ('l, 'q, 'cc) lua_run) option" where
  "load_next init s =
     (case lr_loader s of
        None \<Rightarrow> None
      | Some i \<Rightarrow>
          (if int i < cfg_concurrency (sv_config (pt_server (lr_parts s)))
           then (case init of
                   Inl e \<Rightarrow> Some (Some (Inl e), s\<lparr>lr_loader := None, lr_reloading := False\<rparr>)
                 | Inr _ \<Rightarrow>
                     Some (None, s\<lparr>lr_loader := Some (Suc i),
                                   lr_workers := lr_workers s @
                                     [\<lparr>wk_id = i, wk_phase = WSpawned, wk_exit = make_chan 1\<rparr>]\<rparr>))
           else Some (Some (Inr ()), s\<lparr>lr_loader := None, lr_reloading := False\<rparr>)))"

subsection \<open>runLua\<close>

definition at_phase :: "nat \<Rightarrow> phase \<Rightarrow> ('l, 'q, 'cc) lua_run \<Rightarrow> bool" where
  "at_phase k p s \<longleftrightarrow> k < length (lr_workers s) \<and> wk_phase (lr_workers s ! k) = p"

definition enter :: "nat \<Rightarrow> phase \<Rightarrow> ('l, 'q, 'cc) lua_run \<Rightarrow> ('l, 'q, 'cc) lua_run" where
  "enter k p s = s\<lparr>lr_workers := (lr_workers s)[k := (lr_workers s ! k)\<lparr>wk_phase := p\<rparr>]\<rparr>"

text \<open>\<open>s.luaRunWg.Add(1)\<close>\<close>

definition run_add :: "nat \<Rightarrow> ('l, 'q, 'cc) lua_run \<Rightarrow> ('l, 'q, 'cc) lua_run option" where
  "run_add k s = (if at_phase k WSpawned s then Some (enter k WCounted (s\<lparr>lr_wg := Suc (lr_wg s)\<rparr>)) else None)"

text \<open>\<open>s.luaExitChannelGroup = append(s.luaExitChannelGroup, exit)\<close>\<close>

definition run_append_read :: "nat \<Rightarrow> ('l, 'q, 'cc) lua_run \<Rightarrow> ('l, 'q, 'cc) lua_run option" where
  "run_append_read k s = (if at_phase k WCounted s then Some (enter k (WAppending (lr_group s)) s) else None)"

definition run_append_write :: "nat \<Rightarrow> ('l, 'q, 'cc) lua_run \<Rightarrow> ('l, 'q, 'cc) lua_run option" where
  "run_append_write k s =
     (if k < length (lr_workers s)
      then (case wk_phase (lr_workers s ! k) of
              WAppending g \<Rightarrow> Some (enter k WAppended (s\<lparr>lr_group := g @ [k]\<rparr>))
            | _ \<Rightarrow> None)
      else None)"

text \<open>\<open>s.inbox.NewConsumer(id)\<close>\<close>

definition run_consumer :: "nat \<Rightarrow> ('l, 'q, 'cc) lua_run \<Rightarrow> ('l, 'q, 'cc) lua_run option" where
  "run_consumer k s =
     (if at_phase k WAppended s
      then (let p = lr_parts s;
                ib = snd (NewConsumer (wk_id (lr_workers s ! k)) (pt_inbox p))
            in Some (enter k WRegistered (s\<lparr>lr_parts := p\<lparr>pt_inbox := ib\<rparr>\<rparr>)))
      else None)"

text \<open>The modules, the script and \<open>ec.Start\<close>; a script that fails ends the process.\<close>

definition run_script :: "nat \<Rightarrow> bool \<Rightarrow> ('l, 'q, 'cc) lua_run \<Rightarrow> ('l, 'q, 'cc) lua_run option" where
  "run_script k ok s =
     (if at_phase k WRegistered s
      then Some (if ok then enter k WWaiting s else s\<lparr>lr_dead := True\<rparr>)
      else None)"

text \<open>\<open><-exit\<close>\<close>

definition run_exit :: "nat \<Rightarrow> ('l, 'q, 'cc) lua_run \<Rightarrow> ('l, 'q, 'cc) lua_run option" where
  "run_exit k s =
     (if at_phase k WWaiting s
      then (case chan_get (wk_exit (lr_workers s ! k)) of
              None \<Rightarrow> None
            | Some (_, ch) \<Rightarrow>
                Some (s\<lparr>lr_workers := (lr_workers s)[k := (lr_workers s ! k)\<lparr>wk_phase := WStopping, wk_exit := ch\<rparr>]\<rparr>))
      else None)"

text \<open>\<open>ec.Close\<close>, \<open>L.Close\<close> and the deferred \<open>s.luaRunWg.Done()\<close>\<close>

definition run_done :: "nat \<Rightarrow> ('l, 'q, 'cc) lua_run \<Rightarrow> ('l, 'q, 'cc) lua_run option" where
  "run_done k s =
     (if at_phase k WStopping s then Some (enter k WDone (s\<lparr>lr_wg := lr_wg s - 1\<rparr>)) else None)"

subsection \<open>StopLua\<close>

definition stop_begin :: "duration \<Rightarrow> ('l, 'q, 'cc) lua_run \<Rightarrow> (string + unit) \<times> ('l, 'q, 'cc) lua_run" where
  "stop_begin timeout s =
     (if lr_reloading s then (Inl ''lua is reloading'', s)
      else (Inr (), s\<lparr>lr_stop := Some (lr_group s, timeout)\<rparr>))"

text \<open>\<open>c <- timeout\<close> for the next exit channel; it blocks on a full one.\<close>

definition stop_send :: "('l, 'q, 'cc) lua_run \<Rightarrow> ('l, 'q, 'cc) lua_run option" where
  "stop_send s =
     (case lr_stop s of
        Some (k # ks, timeout) \<Rightarrow>
          (if k < length (lr_workers s)
           then (case chan_put timeout (wk_exit (lr_workers s ! k)) of
                   None \<Rightarrow> None
                 | Some ch \<Rightarrow>
                     Some (s\<lparr>lr_workers := (lr_workers s)[k := (lr_workers s ! k)\<lparr>wk_exit := ch\<rparr>],
                             lr_stop := Some (ks, timeout)\<rparr>))
           else None)
      | _ \<Rightarrow> None)"

text \<open>
  The part after the wait: the listeners, the inbox, the reply box, the slice of exit channels, and the broadcasts that
  take the services back.  \<open>None\<close> is a panic.
\<close>

definition replies_Reset :: "reply_box \<Rightarrow> reply_box option" where
  "replies_Reset b =
     (case Reset_close b of
        None \<Rightarrow> None
      | Some b1 \<Rightarrow> if rb_panic b1 then None else Reset_clear b1)"

definition reset_parts :: "instant \<Rightarrow> ('l, 'q, 'cc) parts \<Rightarrow> ('l, 'q, 'cc) parts option" where
  "reset_parts now p =
     (case Inbox_Reset (pt_inbox p) of
        None \<Rightarrow> None
      | Some (chs, ib) \<Rightarrow>
          (case replies_Reset (pt_replies p) of
             None \<Rightarrow> None
           | Some b \<Rightarrow>
               Some \<lparr>pt_listeners = snd (Listeners_Reset (pt_listeners p)), pt_inbox = ib, pt_replies = b,
                     pt_server = announce_stop now (pt_server p)\<rparr>))"

text \<open>The wait ends when the counter is zero, or at any time by the timer.\<close>

definition stop_finish :: "bool \<Rightarrow> instant \<Rightarrow> ('l, 'q, 'cc) lua_run \<Rightarrow> ('l, 'q, 'cc) lua_run option" where
  "stop_finish timed_out now s =
     (case lr_stop s of
        Some ([], timeout) \<Rightarrow>
          (if timed_out \<or> lr_wg s = 0
           then (case reset_parts now (lr_parts s) of
                   None \<Rightarrow> Some (s\<lparr>lr_dead := True\<rparr>)
                 | Some p \<Rightarrow> Some (s\<lparr>lr_parts := p, lr_group := [], lr_stop := None\<rparr>))
           else None)
      | _ \<Rightarrow> None)"

subsection \<open>Runs\<close>

datatype lr_event =
    LrLoad string "string + unit" | LrNext "string + unit"
  | LrAdd nat | LrRead nat | LrWrite nat | LrConsumer nat | LrScript nat bool | LrExit nat | LrDone nat
  | LrStop duration | LrSend | LrFinish bool instant

fun lr_action :: "lr_event \<Rightarrow> ('l, 'q, 'cc) lua_run \<Rightarrow> ('l, 'q, 'cc) lua_run option" where
  "lr_action (LrLoad path c) s = Some (snd (load_begin (\<lambda>_. c) path s))"
| "lr_action (LrNext init) s = map_option snd (load_next init s)"
| "lr_action (LrAdd k) s = run_add k s"
| "lr_action (LrRead k) s = run_append_read k s"
| "lr_action (LrWrite k) s = run_append_write k s"
| "lr_action (LrConsumer k) s = run_consumer k s"
| "lr_action (LrScript k ok) s = run_script k ok s"
| "lr_action (LrExit k) s = run_exit k s"
| "lr_action (LrDone k) s = run_done k s"
| "lr_action (LrStop t) s = (if lr_stop s = None then Some (snd (stop_begin t s)) else None)"
| "lr_action LrSend s = stop_send s"
| "lr_action (LrFinish timed_out now) s = stop_finish timed_out now s"

definition lr_step :: "lr_event \<Rightarrow> ('l, 'q, 'cc) lua_run \<Rightarrow> ('l, 'q, 'cc) lua_run option" where
  "lr_step e s = (if lr_dead s then None else lr_action e s)"

definition lr_reached :: "('l, 'q, 'cc) parts \<Rightarrow> lr_event list \<Rightarrow> ('l, 'q, 'cc) lua_run \<Rightarrow> bool" where
  "lr_reached p es s \<longleftrightarrow> run_events lr_step es (new_run p) = Some s"

subsection \<open>The wait group\<close>





lemma enter_frame [frame_simps]:
  "lr_wg (enter k p s) = lr_wg s" "lr_group (enter k p s) = lr_group s" "lr_stop (enter k p s) = lr_stop s"
  "lr_loader (enter k p s) = lr_loader s" "lr_dead (enter k p s) = lr_dead s" "lr_parts (enter k p s) = lr_parts s"
  "lr_reloading (enter k p s) = lr_reloading s"
  "lr_workers (enter k p s) = (lr_workers s)[k := (lr_workers s ! k)\<lparr>wk_phase := p\<rparr>]"
  by (simp_all add: enter_def)

lemma run_cases:
  "run_add k s = Some t \<Longrightarrow> at_phase k WSpawned s \<and> t = enter k WCounted (s\<lparr>lr_wg := Suc (lr_wg s)\<rparr>)"
  "run_append_read k s = Some t \<Longrightarrow> at_phase k WCounted s \<and> t = enter k (WAppending (lr_group s)) s"
  "run_append_write k s = Some t \<Longrightarrow>
     \<exists>g. at_phase k (WAppending g) s \<and> t = enter k WAppended (s\<lparr>lr_group := g @ [k]\<rparr>)"
  "run_consumer k s = Some t \<Longrightarrow> at_phase k WAppended s \<and> (\<exists>p. t = enter k WRegistered (s\<lparr>lr_parts := p\<rparr>))"
  "run_script k ok s = Some t \<Longrightarrow> at_phase k WRegistered s \<and> t = (if ok then enter k WWaiting s else s\<lparr>lr_dead := True\<rparr>)"
  "run_done k s = Some t \<Longrightarrow> at_phase k WStopping s \<and> t = enter k WDone (s\<lparr>lr_wg := lr_wg s - 1\<rparr>)"
  by (auto simp: run_add_def run_append_read_def run_append_write_def run_consumer_def run_script_def run_done_def
      at_phase_def Let_def split: if_splits phase.splits)

lemma run_exit_cases:
  "run_exit k s = Some t \<Longrightarrow>
     \<exists>v ch. at_phase k WWaiting s \<and> chan_get (wk_exit (lr_workers s ! k)) = Some (v, ch)
       \<and> t = s\<lparr>lr_workers := (lr_workers s)[k := (lr_workers s ! k)\<lparr>wk_phase := WStopping, wk_exit := ch\<rparr>]\<rparr>"
  by (auto simp: run_exit_def split: if_splits option.splits)

lemma stop_send_cases:
  "stop_send s = Some t \<Longrightarrow>
     \<exists>k ks v ch. lr_stop s = Some (k # ks, v) \<and> k < length (lr_workers s)
       \<and> chan_put v (wk_exit (lr_workers s ! k)) = Some ch
       \<and> t = s\<lparr>lr_workers := (lr_workers s)[k := (lr_workers s ! k)\<lparr>wk_exit := ch\<rparr>], lr_stop := Some (ks, v)\<rparr>"
  by (auto simp: stop_send_def split: if_splits option.splits list.splits)

lemma stop_finish_cases:
  "stop_finish b now s = Some t \<Longrightarrow>
     (\<exists>v. lr_stop s = Some ([], v)) \<and> (b \<or> lr_wg s = 0)
     \<and> (t = s\<lparr>lr_dead := True\<rparr> \<or> (\<exists>p. t = s\<lparr>lr_parts := p, lr_group := [], lr_stop := None\<rparr>))"
  by (auto simp: stop_finish_def split: if_splits option.splits list.splits)

lemma load_next_cases:
  "load_next init s = Some (r, t) \<Longrightarrow>
     \<exists>i. lr_loader s = Some i \<and>
       (t = s\<lparr>lr_loader := None, lr_reloading := False\<rparr>
        \<or> t = s\<lparr>lr_loader := Some (Suc i),
               lr_workers := lr_workers s @ [\<lparr>wk_id = i, wk_phase = WSpawned, wk_exit = make_chan 1\<rparr>]\<rparr>)"
  by (auto simp: load_next_def split: if_splits option.splits sum.splits)

lemma load_begin_frame [frame_simps]:
  "lr_workers (snd (load_begin c p s)) = lr_workers s" "lr_wg (snd (load_begin c p s)) = lr_wg s"
  "lr_group (snd (load_begin c p s)) = lr_group s" "lr_stop (snd (load_begin c p s)) = lr_stop s"
  by (auto simp: load_begin_def split: sum.splits)

lemma stop_begin_cases:
  "snd (stop_begin t s) = s \<or> snd (stop_begin t s) = s\<lparr>lr_stop := Some (lr_group s, t)\<rparr>"
  by (simp add: stop_begin_def)



subsection \<open>Stopping settled workers\<close>

text \<open>Every worker is done or waits for its exit message, and the slice holds the channels of the waiting ones.\<close>

definition settled :: "('l, 'q, 'cc) lua_run \<Rightarrow> bool" where
  "settled s \<longleftrightarrow>
     \<not> lr_reloading s \<and> lr_loader s = None \<and> lr_stop s = None \<and> \<not> lr_dead s
     \<and> distinct (lr_group s) \<and> (\<forall>k \<in> set (lr_group s). k < length (lr_workers s))
     \<and> (\<forall>k < length (lr_workers s). let w = lr_workers s ! k in
          ch_cap (wk_exit w) = 1 \<and> \<not> ch_closed (wk_exit w) \<and>
          (if k \<in> set (lr_group s) then wk_phase w = WWaiting \<and> ch_buf (wk_exit w) = []
           else wk_phase w = WDone))"

text \<open>While \<open>StopLua\<close> runs: \<open>rem\<close> are the workers that it has not told yet.\<close>

definition to_tell :: "('l, 'q, 'cc) lua_run \<Rightarrow> nat list" where
  "to_tell s = (case lr_stop s of None \<Rightarrow> [] | Some (ks, t) \<Rightarrow> ks)"













subsection \<open>A worker that is in no slice\<close>

definition lost :: "nat \<Rightarrow> ('l, 'q, 'cc) lua_run \<Rightarrow> bool" where
  "lost k s \<longleftrightarrow>
     at_phase k WWaiting s \<and> ch_buf (wk_exit (lr_workers s ! k)) = [] \<and> k \<notin> set (lr_group s)
     \<and> k \<notin> set (to_tell s)
     \<and> (\<forall>j < length (lr_workers s). \<forall>g. wk_phase (lr_workers s ! j) = WAppending g \<longrightarrow> k \<notin> set g)"

lemma lost_update:
  assumes "lost k s" and "j \<noteq> k" and "lr_workers t = (lr_workers s)[j := w]"
    and "k \<notin> set (lr_group t)" and "set (to_tell t) \<subseteq> set (to_tell s)"
    and "\<forall>g. wk_phase w = WAppending g \<longrightarrow> k \<notin> set g"
  shows "lost k t"
  using assms unfolding lost_def at_phase_def
  by (cases "j < length (lr_workers s)") (auto simp: nth_list_update split: if_splits)

lemma lost_same:
  "lost k s \<Longrightarrow> lr_workers t = lr_workers s \<Longrightarrow> k \<notin> set (lr_group t) \<Longrightarrow> k \<notin> set (to_tell t) \<Longrightarrow> lost k t"
  unfolding lost_def at_phase_def by auto

lemma lost_enter:
  assumes "lost k s" and "at_phase j q s" and "q \<noteq> WWaiting" and "lr_workers u = lr_workers s"
    and "lr_stop u = lr_stop s" and "k \<notin> set (lr_group u)" and "\<forall>g. p = WAppending g \<longrightarrow> k \<notin> set g"
  shows "lost k (enter j p u)"
proof (rule lost_update [OF assms(1), where j = j])
  show "j \<noteq> k" using assms(1,2,3) by (auto simp: lost_def at_phase_def)
qed (use assms in \<open>auto simp: frame_simps to_tell_def\<close>)

lemma lost_write:
  assumes l: "lost k s" and "run_append_write j s = Some t"
  shows "lost k t"
proof -
  from run_cases(3) [OF assms(2)] obtain g where
    g: "at_phase j (WAppending g) s" "t = enter j WAppended (s\<lparr>lr_group := g @ [j]\<rparr>)" by blast
  from l g(1) have "k \<notin> set g" "k \<noteq> j" by (auto simp: lost_def at_phase_def)
  with lost_enter [OF l g(1), of "s\<lparr>lr_group := g @ [j]\<rparr>" WAppended] g(2) show ?thesis by simp
qed

lemma lost_step:
  assumes l: "lost k s" and "lr_step e s = Some t"
  shows "lost k t"
proof (cases e)
  case (LrLoad p c)
  with assms(2) have t: "t = snd (load_begin (\<lambda>_. c) p s)" by (simp add: lr_step_def split: if_splits)
  show ?thesis by (rule lost_same [OF l]) (use l t in \<open>auto simp: frame_simps to_tell_def lost_def\<close>)
next
  case (LrNext i)
  with assms(2) obtain r where "load_next i s = Some (r, t)" by (auto simp: lr_step_def split: if_splits)
  from load_next_cases [OF this] l show ?thesis
    by (auto simp: lost_def at_phase_def nth_append to_tell_def less_Suc_eq)
next
  case (LrAdd j)
  with assms(2) have "run_add j s = Some t" by (simp add: lr_step_def split: if_splits)
  with run_cases(1) [OF this] l lost_enter [OF l, of j WSpawned "s\<lparr>lr_wg := Suc (lr_wg s)\<rparr>" WCounted] show ?thesis
    by (auto simp: lost_def)
next
  case (LrRead j)
  with assms(2) have "run_append_read j s = Some t" by (simp add: lr_step_def split: if_splits)
  with run_cases(2) [OF this] l lost_enter [OF l, of j WCounted s "WAppending (lr_group s)"] show ?thesis
    by (auto simp: lost_def)
next
  case (LrWrite j)
  with assms lost_write [OF l, of j t] show ?thesis by (simp add: lr_step_def split: if_splits)
next
  case (LrConsumer j)
  with assms(2) have "run_consumer j s = Some t" by (simp add: lr_step_def split: if_splits)
  from run_cases(4) [OF this] obtain p where
    "at_phase j WAppended s" "t = enter j WRegistered (s\<lparr>lr_parts := p\<rparr>)" by blast
  with l lost_enter [OF l, of j WAppended "s\<lparr>lr_parts := p\<rparr>" WRegistered] show ?thesis by (auto simp: lost_def)
next
  case (LrScript j ok)
  with assms(2) have "run_script j ok s = Some t" by (simp add: lr_step_def split: if_splits)
  from run_cases(5) [OF this] have
    st: "at_phase j WRegistered s" "t = (if ok then enter j WWaiting s else s\<lparr>lr_dead := True\<rparr>)" by auto
  show ?thesis
  proof (cases ok)
    case True
    with st l lost_enter [OF l st(1), of s WWaiting] show ?thesis by (auto simp: lost_def)
  next
    case False
    show ?thesis by (rule lost_same [OF l]) (use False st l in \<open>auto simp: to_tell_def lost_def\<close>)
  qed
next
  case (LrExit j)
  with assms(2) have "run_exit j s = Some t" by (simp add: lr_step_def split: if_splits)
  from run_exit_cases [OF this] obtain v ch where st: "chan_get (wk_exit (lr_workers s ! j)) = Some (v, ch)"
    "t = s\<lparr>lr_workers := (lr_workers s)[j := (lr_workers s ! j)\<lparr>wk_phase := WStopping, wk_exit := ch\<rparr>]\<rparr>" by blast
  from st(1) l have "j \<noteq> k" by (auto simp: lost_def chan_simps)
  with st(2) l show ?thesis by (intro lost_update [OF l, of j]) (auto simp: lost_def to_tell_def)
next
  case (LrDone j)
  with assms(2) have "run_done j s = Some t" by (simp add: lr_step_def split: if_splits)
  with run_cases(6) [OF this] l lost_enter [OF l, of j WStopping "s\<lparr>lr_wg := lr_wg s - 1\<rparr>" WDone] show ?thesis
    by (auto simp: lost_def)
next
  case (LrStop v)
  with assms(2) stop_begin_cases [of v s] have "t = s \<or> t = s\<lparr>lr_stop := Some (lr_group s, v)\<rparr>"
    by (auto simp: lr_step_def split: if_splits)
  with l lost_same [OF l, of t] show ?thesis by (auto simp: lost_def to_tell_def)
next
  case LrSend
  with assms(2) have "stop_send s = Some t" by (simp add: lr_step_def split: if_splits)
  from stop_send_cases [OF this] obtain j ks v ch where st: "lr_stop s = Some (j # ks, v)"
    "t = s\<lparr>lr_workers := (lr_workers s)[j := (lr_workers s ! j)\<lparr>wk_exit := ch\<rparr>], lr_stop := Some (ks, v)\<rparr>"
    "j < length (lr_workers s)" by blast
  from st(1) l have "j \<noteq> k" by (auto simp: lost_def to_tell_def)
  with st l show ?thesis by (intro lost_update [OF l, of j]) (auto simp: lost_def to_tell_def)
next
  case (LrFinish b now)
  with assms(2) have "stop_finish b now s = Some t" by (simp add: lr_step_def split: if_splits)
  from stop_finish_cases [OF this] l lost_same [OF l, of t] show ?thesis by (auto simp: lost_def to_tell_def)
qed

lemma lost_run: "run_events lr_step es s = Some t \<Longrightarrow> lost k s \<Longrightarrow> lost k t"
  by (rule run_events_inv [where I = "lost k" and step = lr_step]) (auto intro: lost_step)

subsection \<open>Properties of the workers\<close>



text \<open>Two workers whose \<open>append\<close>s overlap, and a \<open>StopLua\<close> that times out.\<close>

definition append_race :: "duration \<Rightarrow> instant \<Rightarrow> lr_event list" where
  "append_race v now =
     [LrLoad ''main.lua'' (Inr ()), LrNext (Inr ()), LrNext (Inr ()), LrNext (Inr ()),
      LrAdd 0, LrAdd 1, LrRead 0, LrRead 1, LrWrite 0, LrWrite 1, LrConsumer 0, LrConsumer 1,
      LrScript 0 True, LrScript 1 True, LrStop v, LrSend, LrExit 1, LrDone 1, LrFinish True now]"

lemmas lr_defs = lr_step_def new_run_def load_begin_def load_next_def run_add_def run_append_read_def
  run_append_write_def run_consumer_def run_script_def run_exit_def run_done_def stop_begin_def stop_send_def
  stop_finish_def at_phase_def enter_def

text \<open>The state after the first fourteen events, and after all of them.\<close>

definition raced :: "('l, 'q, 'cc) parts \<Rightarrow> ('l, 'q, 'cc) lua_run" where
  "raced p =
     \<lparr>lr_script = ''main.lua'', lr_reloading = False, lr_loader = None, lr_group = [1], lr_wg = 2,
      lr_workers = [\<lparr>wk_id = 0, wk_phase = WWaiting, wk_exit = make_chan 1\<rparr>,
                    \<lparr>wk_id = 1, wk_phase = WWaiting, wk_exit = make_chan 1\<rparr>],
      lr_stop = None, lr_dead = False,
      lr_parts = p\<lparr>pt_inbox := snd (NewConsumer 1 (snd (NewConsumer 0 (pt_inbox p))))\<rparr>\<rparr>"

lemma append_race_loads:
  "cfg_concurrency (sv_config (pt_server p)) = 2 \<Longrightarrow>
     run_events lr_step (take 14 (append_race v now)) (new_run p) = Some (raced p)"
  by (simp add: append_race_def lr_defs raced_def Let_def)

lemma reset_parts_fresh:
  assumes "pt_inbox p = newInbox q" and "pt_replies p = newReplyBox"
  shows "\<exists>p'. reset_parts now (p\<lparr>pt_inbox := snd (NewConsumer 1 (snd (NewConsumer 0 (pt_inbox p))))\<rparr>) = Some p'"
  using assms
  by (simp add: reset_parts_def Inbox_Reset_def NewConsumer_def newInbox_def replies_Reset_def Reset_close_def
      Reset_clear_def newReplyBox_def registered_def)

definition survived :: "('l, 'q, 'cc) parts \<Rightarrow> ('l, 'q, 'cc) parts \<Rightarrow> ('l, 'q, 'cc) lua_run" where
  "survived p p' = (raced p)
     \<lparr>lr_group := [], lr_wg := 1, lr_parts := p',
      lr_workers := [\<lparr>wk_id = 0, wk_phase = WWaiting, wk_exit = make_chan 1\<rparr>,
                     \<lparr>wk_id = 1, wk_phase = WDone, wk_exit = make_chan 1\<rparr>]\<rparr>"

lemma append_race_stops:
  assumes "reset_parts now (lr_parts (raced p)) = Some p'"
  shows "run_events lr_step (drop 14 (append_race v now)) (raced p) = Some (survived p p')"
  using assms
  by (simp add: append_race_def lr_defs raced_def survived_def chan_put_def chan_send_def chan_get_def chan_recv_def
      make_chan_def)

lemma survived_lost: "lost 0 (survived p p')"
  by (auto simp: lost_def survived_def raced_def at_phase_def to_tell_def less_Suc_eq)

text \<open>
  two overlapping appends lose a worker.  With two workers there is an interleaving of their starts after which
  \<open>StopLua\<close> tells one of them, returns by its timer, and the other one waits for its exit message in every
  continuation, whatever is loaded or stopped: a reload leaves the old script running.
\<close>

theorem append_race_survivor:
  assumes "cfg_concurrency (sv_config (pt_server p)) = 2"
    and "pt_inbox p = newInbox q" and "pt_replies p = newReplyBox"
  shows "\<exists>s. lr_reached p (append_race v now) s \<and> lr_stop s = None \<and> \<not> lr_dead s
    \<and> (\<forall>es t. run_events lr_step es s = Some t \<longrightarrow> at_phase 0 WWaiting t)"
proof -
  from reset_parts_fresh [OF assms(2,3)] obtain p' where
    "reset_parts now (lr_parts (raced p)) = Some p'" by (auto simp: raced_def)
  from append_race_stops [OF this] append_race_loads [OF assms(1)]
    run_events_append [of lr_step "take 14 (append_race v now)" "drop 14 (append_race v now)" "new_run p"]
  have "lr_reached p (append_race v now) (survived p p')"
    by (simp only: lr_reached_def append_take_drop_id option.case)
  moreover have "lr_stop (survived p p') = None" "\<not> lr_dead (survived p p')"
    by (simp_all add: survived_def raced_def)
  moreover have "at_phase 0 WWaiting t" if "run_events lr_step es (survived p p') = Some t" for es t
    using lost_run [OF that survived_lost] by (simp add: lost_def)
  ultimately show ?thesis by blast
qed

definition two_workers :: "(unit, unit, unit) parts" where
  "two_workers =
     \<lparr>pt_listeners = newListenerManager, pt_inbox = newInbox (), pt_replies = newReplyBox,
      pt_server = server_New (empty_config\<lparr>cfg_concurrency := 2\<rparr>) ''a''\<rparr>"

lemma two_workers_ok:
  "cfg_concurrency (sv_config (pt_server two_workers)) = 2" "pt_inbox two_workers = newInbox ()"
  "pt_replies two_workers = newReplyBox"
  by (simp_all add: two_workers_def server_New_def)

lemma append_race_survivor_witness:
  "\<exists>s. lr_reached two_workers (append_race 5 0) s \<and> (\<forall>es t. run_events lr_step es s = Some t \<longrightarrow> at_phase 0 WWaiting t)"
  using append_race_survivor [OF two_workers_ok, of 5 0] by blast

lemma raced_not_settled: "\<not> settled (raced p)"
  by (auto simp: settled_def raced_def Let_def intro!: exI [of _ 0])





end
