(* ===== verification/Reload.thy ===== *)
theory Reload
  imports Lua_Lifecycle Exec_Context
begin

unbundle bit_operations_syntax

text \<open>
  Reloading over the RPC port: \<open>RPCDebug\<close> of \<open>pkg/server/debug.go\<close>, the encoding that the command \<open>debug\<close> of
  \<open>pkg/commands/debug.go\<close> sends it, and what a reload leaves behind: the goroutine of an inbox consumer
  (\<open>inbox.go\<close>) and the loop of \<open>rpc.start\<close> (\<open>pkg/core/rpc/rpc.go\<close>) that reads from it.
\<close>

subsection \<open>RPCDebug\<close>

text \<open>\<open>binary.LittleEndian\<close>; \<open>Uint64\<close> panics on fewer than eight bytes and ignores further ones.\<close>

definition PutUint64 :: "64 word \<Rightarrow> 8 word list" where
  "PutUint64 w = map (\<lambda>i. ucast (drop_bit (8 * i) w)) [0..<8]"

definition Uint64 :: "8 word list \<Rightarrow> 64 word option" where
  "Uint64 b =
     (case b of
        b0 # b1 # b2 # b3 # b4 # b5 # b6 # b7 # bs \<Rightarrow>
          Some (ucast b0 OR push_bit 8 (ucast b1) OR push_bit 16 (ucast b2) OR push_bit 24 (ucast b3)
                OR push_bit 32 (ucast b4) OR push_bit 40 (ucast b5) OR push_bit 48 (ucast b6) OR push_bit 56 (ucast b7))
      | _ \<Rightarrow> None)"

definition debug_reload_body :: "duration \<Rightarrow> 8 word list" where
  "debug_reload_body dur = PutUint64 (word_of_int dur)"

definition reload_duration :: "8 word list \<Rightarrow> duration option" where
  "reload_duration body = map_option sint (Uint64 body)"

text \<open>
  What \<open>RPCDebug\<close> does with a request; \<open>None\<close> is a panic.  \<open>parse\<close> reads a \<open>CallRequest\<close> (name and
  body) from JSON.
\<close>

datatype debug_plan =
    DebugReload duration | DebugCall rpc_request | DebugFails string | DebugAnswer bytes

definition RPCDebug ::
    "(8 word list \<Rightarrow> string + (string \<times> bytes)) \<Rightarrow> string \<Rightarrow> instant \<Rightarrow> string \<Rightarrow> 8 word list \<Rightarrow> debug_plan option" where
  "RPCDebug parse i now name body =
     (if name = ''reload'' then map_option DebugReload (reload_duration body)
      else if name = ''call''
      then (case parse body of
              Inl e \<Rightarrow> Some (DebugFails e)
            | Inr (n, b) \<Rightarrow>
                Some (DebugCall \<lparr>rq_id = i, rq_name = n, rq_body = b, rq_timestamp = now, rq_timeout = 0,
                                 rq_node = [], rq_loopback = True\<rparr>))
      else Some (DebugAnswer (''command '' @ [CHR 0x27] @ name @ [CHR 0x27] @ '' not found'')))"

text \<open>The answer to a reload, from the outcomes of \<open>StopLua\<close> and, when that succeeds, of \<open>LoadLua\<close>.\<close>

definition reload_answer :: "string + unit \<Rightarrow> string + unit \<Rightarrow> string + bytes" where
  "reload_answer stop load =
     (case stop of Inl e \<Rightarrow> Inl e | Inr _ \<Rightarrow> (case load of Inl e \<Rightarrow> Inl e | Inr _ \<Rightarrow> Inr ''reloaded''))"

text \<open>
  The shell of the command \<open>debug\<close>: a command prints a line, or sends a request and prints what comes back.  \<open>encode\<close>
  is \<open>json.Marshal\<close> of a \<open>CallRequest\<close>.
\<close>

datatype shell_action = ShellPrint string | ShellSend string "8 word list"

definition shell_reload :: "(string \<Rightarrow> string + duration) \<Rightarrow> string list \<Rightarrow> shell_action" where
  "shell_reload parse_duration args =
     (case args of
        [] \<Rightarrow> ShellPrint ''call timeout''
      | a # _ \<Rightarrow>
          (case parse_duration a of Inl e \<Rightarrow> ShellPrint e | Inr d \<Rightarrow> ShellSend ''reload'' (debug_reload_body d)))"

definition shell_call :: "(string \<times> bytes \<Rightarrow> string + 8 word list) \<Rightarrow> string list \<Rightarrow> shell_action" where
  "shell_call encode args =
     (case args of
        n # body # _ \<Rightarrow> (case encode (n, body) of Inl e \<Rightarrow> ShellPrint e | Inr b \<Rightarrow> ShellSend ''call'' b)
      | _ \<Rightarrow> ShellPrint ''call <name> <body>'')"

definition shell_result :: "string + bytes \<Rightarrow> string" where
  "shell_result res = (case res of Inl e \<Rightarrow> ''remote: '' @ e | Inr body \<Rightarrow> body)"

lemma bytes_of_word64:
  fixes w :: "64 word"
  shows "ucast (ucast w :: 8 word) OR push_bit 8 (ucast (ucast (drop_bit 8 w) :: 8 word))
      OR push_bit 16 (ucast (ucast (drop_bit 16 w) :: 8 word))
      OR push_bit 24 (ucast (ucast (drop_bit 24 w) :: 8 word))
      OR push_bit 32 (ucast (ucast (drop_bit 32 w) :: 8 word))
      OR push_bit 40 (ucast (ucast (drop_bit 40 w) :: 8 word))
      OR push_bit 48 (ucast (ucast (drop_bit 48 w) :: 8 word))
      OR push_bit 56 (ucast (ucast (drop_bit 56 w) :: 8 word)) = w" (is "?l = w")
proof (rule bit_word_eqI)
  fix n :: nat
  assume "n < LENGTH(64)"
  then have n: "n < 64" by simp
  consider "n < 8" | "8 \<le> n \<and> n < 16" | "16 \<le> n \<and> n < 24" | "24 \<le> n \<and> n < 32" | "32 \<le> n \<and> n < 40"
    | "40 \<le> n \<and> n < 48" | "48 \<le> n \<and> n < 56" | "56 \<le> n" by linarith
  then show "bit ?l n = bit w n"
    using n by cases (auto simp: bit_simps)
qed

lemma Uint64_Put: "Uint64 (PutUint64 w) = Some w"
  using bytes_of_word64 [of w] by (simp add: Uint64_def PutUint64_def upt_rec)

text \<open>The timeout that \<open>debug\<close> sends is the one that \<open>RPCDebug\<close> stops with.\<close>

lemma reload_roundtrip:
  assumes "- (2 ^ 63) \<le> d" and "d < 2 ^ 63"
  shows "RPCDebug parse i now ''reload'' (debug_reload_body d) = Some (DebugReload d)"
proof -
  have "sint (word_of_int d :: 64 word) = signed_take_bit (LENGTH(64) - Suc 0) d"
    by transfer simp
  also have "\<dots> = d"
    using assms by (intro signed_take_bit_int_eq_self) simp_all
  finally have "sint (word_of_int d :: 64 word) = d" .
  then show ?thesis by (simp add: RPCDebug_def debug_reload_body_def reload_duration_def Uint64_Put)
qed

text \<open>What \<open>call\<close> of the shell makes of its arguments at the server: a loopback request that never expires.\<close>

lemma shell_call_served:
  assumes "encode (n, b) = Inr body" and "parse body = Inr (n, b)"
  shows "shell_call encode [n, b] = ShellSend ''call'' body
    \<and> RPCDebug parse i now ''call'' body
      = Some (DebugCall \<lparr>rq_id = i, rq_name = n, rq_body = b, rq_timestamp = now, rq_timeout = 0, rq_node = [],
                         rq_loopback = True\<rparr>)"
  using assms by (simp add: shell_call_def RPCDebug_def)

lemma reload_short_panics: "length body < 8 \<Longrightarrow> RPCDebug parse i now ''reload'' body = None"
  by (auto simp: RPCDebug_def reload_duration_def Uint64_def split: list.splits)

subsection \<open>What a reload leaves behind\<close>

text \<open>
  \<open>Inbox.Reset\<close> closes the channel of a consumer, but not its goroutine, which goes on reading the queue; on the
  closed channel it receives nil for ever.  \<open>rpc.start\<close>'s loop ignores nil and hands requests to the old
  execution context.
\<close>

record old_consumer =
  oc_in :: "core_request chan"
  oc_out :: "core_request option chan"
  oc_hold :: "core_request option option"

definition oc_read ::
    "(bytes \<Rightarrow> string + rpc_request) \<Rightarrow> ('q \<Rightarrow> (bytes \<times> 'q) option) \<Rightarrow> instant \<Rightarrow> 'q \<times> old_consumer \<Rightarrow>
     ('q \<times> old_consumer) option" where
  "oc_read dec qread now qc =
     (case qc of (q, c) \<Rightarrow>
        if oc_hold c \<noteq> None then None
        else (case qread q of
                None \<Rightarrow> None
              | Some (data, q') \<Rightarrow> Some (q', c\<lparr>oc_hold := map_option Some (consume_data dec now data)\<rparr>)))"

definition oc_receive :: "old_consumer \<Rightarrow> old_consumer option" where
  "oc_receive c =
     (if oc_hold c \<noteq> None then None
      else (case chan_recv (oc_in c) of
              Received req ch \<Rightarrow> Some (c\<lparr>oc_in := ch, oc_hold := Some (Some req)\<rparr>)
            | RecvZero \<Rightarrow> Some (c\<lparr>oc_hold := Some None\<rparr>)
            | RecvBlocks \<Rightarrow> None))"

definition oc_send :: "old_consumer \<Rightarrow> old_consumer option" where
  "oc_send c =
     (case oc_hold c of
        None \<Rightarrow> None
      | Some r \<Rightarrow>
          (case chan_put r (oc_out c) of
             None \<Rightarrow> None | Some ch \<Rightarrow> Some (c\<lparr>oc_out := ch, oc_hold := None\<rparr>)))"

text \<open>
  \<open>handle\<close>: the reply to an unknown method, or the call of the handler, which blocks while the channel is full.  A
  handler is here the scoped call made for a request.
\<close>

definition rpc_handle ::
    "(string \<rightharpoonup> (core_request \<Rightarrow> 'w call)) \<Rightarrow> core_request option \<Rightarrow> 'w ec \<Rightarrow> (core_response list \<times> 'w ec) option" where
  "rpc_handle handlers r e =
     (case r of
        None \<Rightarrow> Some ([], e)
      | Some req \<Rightarrow>
          (case handlers (cr_name req) of
             None \<Rightarrow> Some ([method_not_found (cr_name req)], e)
           | Some scoped \<Rightarrow> map_option (Pair []) (ec_Call (scoped req) e)))"

definition start_loop ::
    "(string \<rightharpoonup> (core_request \<Rightarrow> 'w call)) \<Rightarrow> old_consumer \<times> 'w ec \<Rightarrow>
     (core_response list \<times> old_consumer \<times> 'w ec) option" where
  "start_loop handlers ce =
     (case ce of (c, e) \<Rightarrow>
        (case chan_get (oc_out c) of
           None \<Rightarrow> None
         | Some (r, ch) \<Rightarrow>
             (case rpc_handle handlers r e of
                None \<Rightarrow> None | Some (rs, e') \<Rightarrow> Some (rs, c\<lparr>oc_out := ch\<rparr>, e'))))"

text \<open>A context whose Lua goroutine has ended takes no call for Lua any more.\<close>

definition lua_taken :: "'w ec \<Rightarrow> 'w call list" where
  "lua_taken s = filter (\<lambda>c. \<not> is_go c) (ec_taken s)"

lemma ec_Call_gone: "ec_Call c s = Some t \<Longrightarrow> ec_lua t = ec_lua s \<and> lua_taken t = lua_taken s"
  by (simp add: lua_taken_def frame_simps)

lemma work_step_taken:
  "work_step wk s = Some (wk', t) \<Longrightarrow> ec_lua t = ec_lua s \<and> lua_taken t = lua_taken s"
  by (erule work_step_cases) (auto simp: lua_taken_def frame_simps)

lemma go_take_gone:
  assumes "fifo_inv s" and "go_take k s = Some t"
  shows "ec_lua t = ec_lua s \<and> lua_taken t = lua_taken s"
proof -
  from assms(2) obtain c ch wk u where
    g: "chan_get (ec_gcalls s) = Some (c, ch)"
       "begin_call c (s\<lparr>ec_gcalls := ch, ec_taken := ec_taken s @ [c]\<rparr>) = (wk, u)"
       "t = u\<lparr>ec_gos := (ec_gos u)[k := wk]\<rparr>"
    by (auto simp: go_take_def split: if_splits option.splits prod.splits)
  from assms(1) g(1) have "is_go c" by (auto simp: fifo_inv_def chan_simps)
  with g(2,3) show ?thesis
    by (auto simp: begin_call_def lua_taken_def split: if_splits prod.splits)
qed

lemma lua_gone_step:
  assumes "fifo_inv s" and "ec_lua s = Exited" and "ec_step ev s = Some t"
  shows "ec_lua t = Exited \<and> lua_taken t = lua_taken s"
proof (cases ev)
  case (XCall c)
  with assms ec_Call_gone [of c s t] show ?thesis by simp
next
  case (XGoTake k)
  with assms go_take_gone [of s k t] show ?thesis by simp
next
  case (XGoWork k)
  with assms(3) obtain wk u where w: "work_step (ec_gos s ! k) s = Some (wk, u)"
    "t = u\<lparr>ec_gos := (ec_gos u)[k := wk]\<rparr>"
    by (auto simp: go_work_def split: if_splits option.splits)
  from work_step_taken [OF w(1)] assms(2) w(2) show ?thesis by (simp add: lua_taken_def)
qed (use assms in \<open>auto simp: ec_Start_def lua_take_def lua_exit_def lua_work_def work_step_def go_exit_def
       close_begin_def close_token_def lua_taken_def split: if_splits option.splits nat.splits\<close>)

lemma lua_gone_run:
  "run_events ec_step es s = Some t \<Longrightarrow> fifo_inv s \<Longrightarrow> ec_lua s = Exited \<Longrightarrow>
     ec_lua t = Exited \<and> lua_taken t = lua_taken s"
proof (induction es arbitrary: s)
  case Nil
  then show ?case by simp
next
  case (Cons ev es)
  then obtain u where u: "ec_step ev s = Some u" "run_events ec_step es u = Some t"
    by (auto split: option.splits)
  from lua_gone_step [OF Cons.prems(2,3) u(1)] Cons.IH [OF u(2)] step_fifo [OF Cons.prems(2) u(1)]
  show ?case by auto
qed

text \<open>
  a reload lets the old worker steal requests.  Once the worker's Lua goroutine has ended, the goroutine of its
  inbox consumer can still take the next request off the queue and hand it to the old context, where no
  continuation runs it: the request is off the queue, and nobody replies.
\<close>

theorem reload_steals_request:
  assumes "qread q = Some (data, q')" and "consume_data dec now data = Some req"
    and "oc_hold c = None" and "oc_out c = make_chan 1"
    and "handlers (cr_name req) = Some scoped" and "\<not> is_go (scoped req)"
    and "ec_reached w cf es e" and "ec_lua e = Exited" and "length (ch_buf (ec_lcalls e)) < ch_cap (ec_lcalls e)"
    and "\<not> ch_closed (ec_lcalls e)"
  shows "\<exists>c1 c2 c3 e'.
      oc_read dec qread now (q, c) = Some (q', c1) \<and> oc_send c1 = Some c2
      \<and> start_loop handlers (c2, e) = Some ([], c3, e') \<and> scoped req \<in> set (ec_accepted e')
      \<and> (\<forall>evs t. run_events ec_step evs e' = Some t \<longrightarrow> lua_taken t = lua_taken e)"
proof -
  let ?c1 = "c\<lparr>oc_hold := Some (Some req)\<rparr>"
  let ?c2 = "c\<lparr>oc_out := (make_chan 1)\<lparr>ch_buf := [Some req]\<rparr>, oc_hold := None\<rparr>"
  let ?c3 = "?c2\<lparr>oc_out := make_chan 1\<rparr>"
  let ?e = "e\<lparr>ec_lcalls := (ec_lcalls e)\<lparr>ch_buf := ch_buf (ec_lcalls e) @ [scoped req]\<rparr>,
              ec_accepted := ec_accepted e @ [scoped req]\<rparr>"
  have call: "ec_Call (scoped req) e = Some ?e"
    using assms(6,9,10) by (simp add: ec_Call_def chan_put_def chan_send_def)
  have "oc_read dec qread now (q, c) = Some (q', ?c1)"
    using assms(1,2,3) by (simp add: oc_read_def)
  moreover have "oc_send ?c1 = Some ?c2"
    using assms(4) by (simp add: oc_send_def chan_put_def chan_send_def)
  moreover have "start_loop handlers (?c2, e) = Some ([], ?c3, ?e)"
    using assms(5) call by (simp add: start_loop_def chan_get_def chan_recv_def rpc_handle_def make_chan_def)
  moreover have "lua_taken t = lua_taken e" if "run_events ec_step evs ?e = Some t" for evs t
  proof -
    have "fifo_inv e" using reached_exec_inv [OF assms(7)] by (simp add: exec_inv_def)
    from lua_gone_run [OF that ec_Call_fifo [OF this call]] assms(8) show ?thesis
      by (simp add: lua_taken_def)
  qed
  ultimately show ?thesis
    by (intro exI [of _ ?c1] exI [of _ ?c2] exI [of _ ?c3] exI [of _ ?e]) simp
qed

definition echo_request :: core_request where
  "echo_request =
     \<lparr>cr_id = ''id'', cr_node = ''n1'', cr_loopback = False, cr_name = ''echo'', cr_body = [], cr_expires = None\<rparr>"

lemma reload_steals_request_witness:
  "\<exists>e c1 c2 c3 e'.
     ec_reached (0::nat) \<lparr>cf_lua_size = 2, cf_go_size = 2, cf_concurrency = 0\<rparr>
       [XStart, XCloseBegin, XCloseToken, XLuaExit] e
     \<and> oc_read (\<lambda>d. Inr \<lparr>rq_id = ''id'', rq_name = ''echo'', rq_body = [], rq_timestamp = 10, rq_timeout = 0,
          rq_node = ''n1'', rq_loopback = False\<rparr>) (\<lambda>q. Some ([], ())) 20
          ((), \<lparr>oc_in = (make_chan 64)\<lparr>ch_closed := True\<rparr>, oc_out = make_chan 1, oc_hold = None\<rparr>) = Some ((), c1)
     \<and> oc_send c1 = Some c2
     \<and> start_loop [''echo'' \<mapsto> \<lambda>r. CallScoped (\<lambda>w. (Suc w, [], None))] (c2, e) = Some ([], c3, e')
     \<and> (\<forall>evs t. run_events ec_step evs e' = Some t \<longrightarrow> lua_taken t = lua_taken e)"
proof -
  let ?dec = "\<lambda>d. Inr \<lparr>rq_id = ''id'', rq_name = ''echo'', rq_body = [], rq_timestamp = 10, rq_timeout = 0,
          rq_node = ''n1'', rq_loopback = False\<rparr> :: string + rpc_request"
  let ?c = "\<lparr>oc_in = (make_chan 64)\<lparr>ch_closed := True\<rparr>, oc_out = make_chan 1, oc_hold = None\<rparr>"
  let ?cf = "\<lparr>cf_lua_size = 2, cf_go_size = 2, cf_concurrency = 0\<rparr>"
  obtain e where e: "ec_reached (0::nat) ?cf [XStart, XCloseBegin, XCloseToken, XLuaExit] e"
    "ec_lua e = Exited" "ec_lcalls e = make_chan 2"
    by (simp add: ec_reached_def NewExecutionContext_def ec_Start_def close_begin_def close_token_def lua_exit_def
        chan_put_def chan_send_def chan_get_def chan_recv_def make_chan_def)
  have d: "consume_data ?dec 20 [] = Some echo_request"
    by (simp add: consume_data_def echo_request_def)
  have h: "[''echo'' \<mapsto> \<lambda>r. CallScoped (\<lambda>w. (Suc w, [], None))] (cr_name echo_request)
      = Some (\<lambda>r. CallScoped (\<lambda>w. (Suc w, [], None)))"
    by (simp add: echo_request_def)
  from reload_steals_request [of "\<lambda>q. Some ([], ())" "()" "[]" "()" ?dec 20 echo_request ?c
      "[''echo'' \<mapsto> \<lambda>r. CallScoped (\<lambda>w. (Suc w, [], None))]", OF refl d _ _ h _ e(1,2)] e
  show ?thesis by auto
qed

subsection \<open>The context of a worker\<close>

text \<open>The configuration that \<open>runLua\<close> gives every worker's execution context.\<close>

definition worker_config :: ec_config where
  "worker_config = \<lparr>cf_lua_size = 128, cf_go_size = 256, cf_concurrency = 4\<rparr>"

text \<open>Its Lua goroutine and its four Go goroutines are the only ones that take calls.\<close>

lemma worker_goroutines: "length (workers (NewExecutionContext w worker_config)) = 5"
  by (simp add: workers_def NewExecutionContext_def worker_config_def)

end
