(* ===== verification/Server_Command.thy ===== *)
theory Server_Command
  imports Reload
begin

text \<open>
  The command \<open>server\<close> (\<open>pkg/commands/server.go\<close>): the defaults of the configuration, the configuration of
  memberlist, the steps of the start in their order, any of which may end the process, and the shutdown.  What the
  steps do to the outside is their outcome; the files, the YAML format and the plugins are not modelled.
\<close>

text \<open>The defaults of the queue.\<close>

definition second :: duration where
  "second = 1000 * millisecond"

definition queue_defaults :: "queue_config \<Rightarrow> queue_config" where
  "queue_defaults q =
     (let q1 = (if qc_max_bytes_per_file q \<le> 0 then q\<lparr>qc_max_bytes_per_file := 100 * 1024 * 1024\<rparr> else q);
          q2 = (if qc_sync_every q1 \<le> 0 then q1\<lparr>qc_sync_every := 2500\<rparr> else q1);
          q3 = (if qc_sync_timeout q2 \<le> 0 then q2\<lparr>qc_sync_timeout := wrap64 (second * 2)\<rparr> else q2)
      in if qc_max_msg_size q3 \<le> 0 then q3\<lparr>qc_max_msg_size := 1024 * 1024\<rparr> else q3)"

text \<open>The fields of memberlist's configuration that are set; the secret key only when there is one.\<close>

record memberlist_config =
  ml_name :: string
  ml_bind_addr :: string
  ml_bind_port :: int
  ml_advertise_port :: int
  ml_secret :: "bytes option"

definition memberlist_of :: "config \<Rightarrow> memberlist_config" where
  "memberlist_of c =
     \<lparr>ml_name = cfg_node_name c, ml_bind_addr = gc_addr (cfg_gossip c), ml_bind_port = gc_port (cfg_gossip c),
      ml_advertise_port = gc_port (cfg_gossip c),
      ml_secret = (if gc_secret (cfg_gossip c) \<noteq> [] then Some (gc_secret (cfg_gossip c)) else None)\<rparr>"

text \<open>The steps of the start after the configuration has been read.\<close>

datatype boot_step =
    BootPlugin string string | BootQueueDir string | BootQueues queue_config | BootListen string "32 word"
  | BootMembers memberlist_config | BootStart | BootServe | BootJoin "string list" | BootKeep
  | BootLua string | BootReplyWorkers int

definition boot_steps :: "config \<Rightarrow> string list \<Rightarrow> string \<Rightarrow> boot_step list" where
  "boot_steps c join script =
     map (\<lambda>(path, symbol). BootPlugin path symbol) (cfg_plugins c)
     @ [BootQueueDir (qc_dir (cfg_queue c)), BootQueues (queue_defaults (cfg_queue c)),
        BootListen (rc_addr (cfg_rpc c)) (rc_port (cfg_rpc c)), BootMembers (memberlist_of c), BootStart, BootServe]
     @ (if join = [] then [] else [BootJoin join])
     @ [BootKeep, BootLua script, BootReplyWorkers (reply_workers c)]"

text \<open>
  The command: the listener it closes on shutdown and whether it has a server.  A failing step ends the process
  (\<open>None\<close>).  The listener that the start opens stays in a local variable.
\<close>

record 'l server_command =
  sc_listener :: "'l option"
  sc_server :: bool

definition NewServerCommand :: "'l server_command" where
  "NewServerCommand = \<lparr>sc_listener = None, sc_server = False\<rparr>"

text \<open>
  Which steps can end the process: not the goroutine that serves gRPC, whose error is only logged, nor the assignment
  of the server or the start of the reply workers, which return nothing.
\<close>

fun boot_fatal :: "boot_step \<Rightarrow> bool" where
  "boot_fatal BootServe = False"
| "boot_fatal BootKeep = False"
| "boot_fatal (BootReplyWorkers n) = False"
| "boot_fatal b = True"

fun run_boot :: "(boot_step \<Rightarrow> bool) \<Rightarrow> boot_step list \<Rightarrow> 'l server_command \<Rightarrow> 'l server_command option" where
  "run_boot ok [] sc = Some sc"
| "run_boot ok (b # bs) sc =
     (if ok b \<or> \<not> boot_fatal b then run_boot ok bs (if b = BootKeep then sc\<lparr>sc_server := True\<rparr> else sc) else None)"

text \<open>\<open>Run\<close>: fewer than two arguments, an unreadable or malformed file end the process as well.\<close>

definition command_Run ::
    "(string \<Rightarrow> bytes option) \<Rightarrow> (bytes \<Rightarrow> config option) \<Rightarrow> (boot_step \<Rightarrow> bool) \<Rightarrow> string list \<Rightarrow> string list \<Rightarrow>
     'l server_command \<Rightarrow> 'l server_command option" where
  "command_Run read_file parse ok join args sc =
     (case args of
        cfile # script # _ \<Rightarrow>
          (case Option.bind (read_file cfile) parse of
             None \<Rightarrow> None
           | Some c \<Rightarrow> run_boot ok (boot_steps c join script) sc)
      | _ \<Rightarrow> None)"

text \<open>\<open>Stop\<close>: what it closes, and whether the server is stopped, which does nothing.\<close>

definition command_Stop :: "'l server_command \<Rightarrow> 'l list \<times> bool" where
  "command_Stop sc = ((case sc_listener sc of None \<Rightarrow> [] | Some l \<Rightarrow> [l]), sc_server sc)"

subsection \<open>Lemmas\<close>

lemma queue_defaults_positive:
  "0 < qc_max_bytes_per_file (queue_defaults q)" "0 < qc_sync_every (queue_defaults q)"
  "0 < qc_sync_timeout (queue_defaults q)" "0 < qc_max_msg_size (queue_defaults q)"
  by (auto simp: queue_defaults_def Let_def wrap64_def second_def millisecond_def)

lemma queue_defaults_id:
  "0 < qc_max_bytes_per_file q \<Longrightarrow> 0 < qc_sync_every q \<Longrightarrow> 0 < qc_sync_timeout q \<Longrightarrow> 0 < qc_max_msg_size q \<Longrightarrow>
     queue_defaults q = q"
  by (simp add: queue_defaults_def Let_def)

lemma run_boot_listener: "run_boot ok bs sc = Some sc' \<Longrightarrow> sc_listener sc' = sc_listener sc"
  by (induction bs arbitrary: sc) (auto split: if_splits)

text \<open>The shutdown closes no listener, whatever the start did.\<close>

lemma Stop_closes_nothing:
  assumes "command_Run read_file parse ok join args NewServerCommand = Some sc"
  shows "fst (command_Stop sc) = []"
proof -
  from assms obtain bs where "run_boot ok bs NewServerCommand = Some sc"
    by (auto simp: command_Run_def split: list.splits option.splits)
  from run_boot_listener [OF this] show ?thesis by (simp add: command_Stop_def NewServerCommand_def)
qed

text \<open>A start that comes through has succeeded at every step that can end the process.\<close>

lemma run_boot_all: "run_boot ok bs sc = Some sc' \<Longrightarrow> list_all (\<lambda>b. boot_fatal b \<longrightarrow> ok b) bs"
  by (induction bs arbitrary: sc) (auto split: if_splits)

end
