(* ===== verification/Marshal.thy ===== *)
theory Marshal
  imports Json
begin

text \<open>
  \<open>pkg/core/helpers/marshal.go\<close>: conversion between Lua values and Go values by reflection (\<open>Unmarshal\<close>,
  \<open>Marshal\<close>, \<open>MarshalMap\<close>), to untyped Go values (\<open>UnmarshalToMap\<close>), and copying (\<open>Clone\<close>).

  A Go type is a datatype with the kinds the code distinguishes, a field of a struct has the parts of
  its \<open>json\<close> tag.  A Go value is a tree; pointers that two fields might share are not tracked, because the code
  only writes through the pointer it was given.  The conversions between number types, the text of durations and the
  function prototypes are Go's and the interpreter's, \<open>go_env\<close>.
\<close>

subsection \<open>Go types and values\<close>

datatype int_kind = KInt | KInt64 | KInt32 | KInt16 | KUint | KUint64 | KUint32 | KUint16



datatype gotype =
    GDuration | GProto | GInt int_kind | GFloat64 | GFloat32 | GString | GBool
  | GMap gotype gotype | GSlice gotype | GPtr gotype | GStruct "(string list \<times> gotype) list" | GOther string

text \<open>\<open>VUd\<close> is a pointer that came out of user data; a nil slice is an empty one.\<close>

datatype 'u goval =
    VInt int | VFloat lua_number | VString string | VBool bool | VDuration int | VProto "addr option"
  | VMap "('u goval \<times> 'u goval) list option" | VSlice "'u goval list" | VPtr "'u goval option"
  | VStruct "'u goval list" | VUd 'u | VOther

fun zero_value :: "gotype \<Rightarrow> 'u goval" where
  "zero_value GDuration = VDuration 0"
| "zero_value GProto = VProto None"
| "zero_value (GInt k) = VInt 0"
| "zero_value GFloat64 = VFloat (Fin 0)"
| "zero_value GFloat32 = VFloat (Fin 0)"
| "zero_value GString = VString []"
| "zero_value GBool = VBool False"
| "zero_value (GMap k v) = VMap None"
| "zero_value (GSlice t) = VSlice []"
| "zero_value (GPtr t) = VPtr None"
| "zero_value (GStruct fs) = VStruct (map (\<lambda>f. zero_value (snd f)) fs)"
| "zero_value (GOther n) = VOther"

record 'u go_env =
  ge_int :: "int_kind \<Rightarrow> lua_number \<Rightarrow> int"
  ge_float :: "int \<Rightarrow> lua_number"
  ge_float32 :: "lua_number \<Rightarrow> lua_number"
  ge_parse :: "string \<Rightarrow> string + int"
  ge_show :: "int \<Rightarrow> string"
  ge_proto :: "addr \<Rightarrow> addr"
  ge_func :: "addr \<Rightarrow> addr"
  ge_fits :: "'u \<Rightarrow> gotype \<Rightarrow> bool"
  ge_box :: "'u goval \<Rightarrow> 'u"

datatype marshal_error = CannotAssign lua_type string | BadDuration string | CannotCast string | MPanic

fun int_name :: "int_kind \<Rightarrow> string" where
  "int_name KInt = ''int''"
| "int_name KInt64 = ''int64''"
| "int_name KInt32 = ''int32''"
| "int_name KInt16 = ''int16''"
| "int_name KUint = ''uint''"
| "int_name KUint64 = ''uint64''"
| "int_name KUint32 = ''uint32''"
| "int_name KUint16 = ''uint16''"

fun kind_name :: "gotype \<Rightarrow> string" where
  "kind_name GDuration = ''time.Duration''"
| "kind_name GProto = ''*lua.FunctionProto''"
| "kind_name (GInt k) = int_name k"
| "kind_name GFloat64 = ''float64''"
| "kind_name GFloat32 = ''float32''"
| "kind_name GString = ''string''"
| "kind_name GBool = ''bool''"
| "kind_name (GMap k v) = ''map''"
| "kind_name (GSlice t) = ''slice''"
| "kind_name (GPtr t) = ''ptr''"
| "kind_name (GStruct fs) = ''struct''"
| "kind_name (GOther n) = n"

text \<open>The results of a loop that stops at the first error.\<close>

fun seq_results :: "('e + 'a) list \<Rightarrow> 'e + 'a list" where
  "seq_results [] = Inr []"
| "seq_results (Inl e # rs) = Inl e"
| "seq_results (Inr x # rs) = map_sum id (Cons x) (seq_results rs)"

subsection \<open>Unmarshal\<close>

text \<open>\<open>field.Set\<close>, which panics on a value that is not addressable.\<close>

definition assign :: "bool \<Rightarrow> 'u goval \<Rightarrow> marshal_error + 'u goval" where
  "assign settable x = (if settable then Inr x else Inl MPanic)"

text \<open>\<open>m.SetMapIndex\<close> for the entries of a table, on a new map or on the given one; a nil map panics.\<close>

definition fill_map ::
    "bool \<Rightarrow> 'u goval \<Rightarrow> (marshal_error + ('u goval \<times> 'u goval)) list \<Rightarrow> marshal_error + 'u goval" where
  "fill_map settable cur rs =
     (case (if settable then Some [] else (case cur of VMap m \<Rightarrow> m | _ \<Rightarrow> None)) of
        Some m \<Rightarrow> map_sum id (\<lambda>kvs. VMap (Some (fold (\<lambda>(k, x). AList.update k x) kvs m))) (seq_results rs)
      | None \<Rightarrow> (case rs of [] \<Rightarrow> Inr cur | Inl e # _ \<Rightarrow> Inl e | Inr _ # _ \<Rightarrow> Inl MPanic))"

text \<open>The value of the field afterwards; an error leaves the rest of the value as far as it was written.\<close>

fun unmarshalValue ::
    "'u go_env \<Rightarrow> ('h, 'u) lua_api \<Rightarrow> 'h \<Rightarrow> gotype \<Rightarrow> bool \<Rightarrow> 'u goval \<Rightarrow> lval \<Rightarrow> string list \<Rightarrow> marshal_error + 'u goval"
  and tableToStruct ::
    "'u go_env \<Rightarrow> ('h, 'u) lua_api \<Rightarrow> 'h \<Rightarrow> addr \<Rightarrow> (string list \<times> gotype) list \<Rightarrow> 'u goval list \<Rightarrow>
     marshal_error + 'u goval list" where
  "unmarshalValue env api h ty settable cur v tags =
     (if v = LNil then Inr cur
      else case ty of
        GDuration \<Rightarrow>
          (case v of
             LString s \<Rightarrow> (case ge_parse env s of Inl e \<Rightarrow> Inl (BadDuration e) | Inr d \<Rightarrow> assign settable (VDuration d))
           | _ \<Rightarrow> Inl (CannotAssign (ltype v) (kind_name ty)))
      | GProto \<Rightarrow>
          (case v of
             LFunction f \<Rightarrow> assign settable (VProto (Some (ge_proto env f)))
           | _ \<Rightarrow> Inl (CannotAssign (ltype v) (kind_name ty)))
      | GInt k \<Rightarrow>
          (case v of LNumber x \<Rightarrow> assign settable (VInt (ge_int env k x))
           | _ \<Rightarrow> Inl (CannotAssign (ltype v) (kind_name ty)))
      | GFloat64 \<Rightarrow>
          (case v of LNumber x \<Rightarrow> assign settable (VFloat x) | _ \<Rightarrow> Inl (CannotAssign (ltype v) (kind_name ty)))
      | GFloat32 \<Rightarrow>
          (case v of LNumber x \<Rightarrow> assign settable (VFloat (ge_float32 env x))
           | _ \<Rightarrow> Inl (CannotAssign (ltype v) (kind_name ty)))
      | GString \<Rightarrow>
          (case v of LString s \<Rightarrow> assign settable (VString s) | _ \<Rightarrow> Inl (CannotAssign (ltype v) (kind_name ty)))
      | GBool \<Rightarrow>
          (case v of LBool b \<Rightarrow> assign settable (VBool b) | _ \<Rightarrow> Inl (CannotAssign (ltype v) (kind_name ty)))
      | GMap kt vt \<Rightarrow>
          (case v of
             LTable a \<Rightarrow>
               fill_map settable cur
                 (map (\<lambda>(k, x).
                         case unmarshalValue env api h kt True (zero_value kt) k tags of
                           Inl e \<Rightarrow> Inl e
                         | Inr k' \<Rightarrow> map_sum id (Pair k') (unmarshalValue env api h vt True (zero_value vt) x tags))
                    (la_entries api h a))
           | _ \<Rightarrow> Inl (CannotAssign (ltype v) (kind_name ty)))
      | GSlice t \<Rightarrow>
          (case v of
             LTable a \<Rightarrow>
               (case seq_results
                       (map (\<lambda>i. unmarshalValue env api h t True (zero_value t) (la_get api h a (index_key (Suc i))) tags)
                          [0..<la_len api h a]) of
                  Inl e \<Rightarrow> Inl e
                | Inr xs \<Rightarrow> assign settable (VSlice xs))
           | _ \<Rightarrow> Inl (CannotAssign (ltype v) (kind_name ty)))
      | GPtr t \<Rightarrow>
          (if ''UserData'' \<in> set tags
           then (case v of
                   LUserData a \<Rightarrow>
                     (if ge_fits env (la_udata api h a) ty then assign settable (VUd (la_udata api h a)) else Inl MPanic)
                 | _ \<Rightarrow> Inl (CannotAssign (ltype v) ''userdata''))
           else (case v of
                   LTable a \<Rightarrow>
                     (case t of
                        GStruct fs \<Rightarrow>
                          (case cur of
                             VPtr (Some (VStruct xs)) \<Rightarrow>
                               map_sum id (\<lambda>ys. VPtr (Some (VStruct ys))) (tableToStruct env api h a fs xs)
                           | _ \<Rightarrow> Inl MPanic)
                      | _ \<Rightarrow> Inl MPanic)
                 | _ \<Rightarrow> Inl (CannotAssign (ltype v) (kind_name ty))))
      | _ \<Rightarrow> Inl (CannotAssign (ltype v) (kind_name ty)))"
| "tableToStruct env api h a [] xs = Inr xs"
| "tableToStruct env api h a (f # fs) [] = Inr []"
| "tableToStruct env api h a ((tags, ft) # fs) (x # xs) =
     (case (if hd tags = ''-'' then Inr x
            else unmarshalValue env api h ft True x (la_get api h a (LString (hd tags))) tags) of
        Inl e \<Rightarrow> Inl e
      | Inr y \<Rightarrow> map_sum id (Cons y) (tableToStruct env api h a fs xs))"

definition Unmarshal ::
    "'u go_env \<Rightarrow> ('h, 'u) lua_api \<Rightarrow> 'h \<Rightarrow> gotype \<Rightarrow> 'u goval \<Rightarrow> lval \<Rightarrow> marshal_error + 'u goval" where
  "Unmarshal env api h ty cur v = unmarshalValue env api h ty False cur v []"

subsection \<open>Values of a type\<close>


declare unmarshalValue.simps [simp del]










subsection \<open>Marshal\<close>

text \<open>
  \<open>marshalValue\<close> and its loops over the entries of a map (in the order of the iteration), the items of a slice
  and the fields of a struct.  A value is of the type it comes with, so the arms that do not fit panic.
\<close>

function (sequential) marshalValue ::
    "'u go_env \<Rightarrow> ('h, 'u) lua_api \<Rightarrow> gotype \<Rightarrow> 'u goval \<Rightarrow> string list \<Rightarrow> 'h \<Rightarrow> marshal_error + (lval \<times> 'h)"
  and marshal_entries ::
    "'u go_env \<Rightarrow> ('h, 'u) lua_api \<Rightarrow> gotype \<Rightarrow> gotype \<Rightarrow> addr \<Rightarrow> ('u goval \<times> 'u goval) list \<Rightarrow> string list \<Rightarrow> 'h \<Rightarrow>
     marshal_error + 'h"
  and marshal_items ::
    "'u go_env \<Rightarrow> ('h, 'u) lua_api \<Rightarrow> gotype \<Rightarrow> addr \<Rightarrow> nat \<Rightarrow> 'u goval list \<Rightarrow> string list \<Rightarrow> 'h \<Rightarrow> marshal_error + 'h"
  and structToTable ::
    "'u go_env \<Rightarrow> ('h, 'u) lua_api \<Rightarrow> (string list \<times> gotype) list \<Rightarrow> addr \<Rightarrow> 'u goval list \<Rightarrow> 'h \<Rightarrow> marshal_error + 'h" where
  "marshalValue env api ty v tags h =
     (case ty of
        GDuration \<Rightarrow> (case v of VDuration d \<Rightarrow> Inr (LString (ge_show env d), h) | _ \<Rightarrow> Inl MPanic)
      | GProto \<Rightarrow> (case v of VProto (Some p) \<Rightarrow> Inr (LFunction (ge_func env p), h) | _ \<Rightarrow> Inl MPanic)
      | GInt k \<Rightarrow> (case v of VInt i \<Rightarrow> Inr (LNumber (ge_float env i), h) | _ \<Rightarrow> Inl MPanic)
      | GFloat64 \<Rightarrow> (case v of VFloat x \<Rightarrow> Inr (LNumber x, h) | _ \<Rightarrow> Inl MPanic)
      | GFloat32 \<Rightarrow> (case v of VFloat x \<Rightarrow> Inr (LNumber x, h) | _ \<Rightarrow> Inl MPanic)
      | GString \<Rightarrow> (case v of VString s \<Rightarrow> Inr (LString s, h) | _ \<Rightarrow> Inl MPanic)
      | GBool \<Rightarrow> (case v of VBool b \<Rightarrow> Inr (LBool b, h) | _ \<Rightarrow> Inl MPanic)
      | GMap kt vt \<Rightarrow>
          (case la_new_table api h of (a, h1) \<Rightarrow>
             (case v of
                VMap None \<Rightarrow> Inr (LTable a, h1)
              | VMap (Some kvs) \<Rightarrow> map_sum id (Pair (LTable a)) (marshal_entries env api kt vt a kvs tags h1)
              | _ \<Rightarrow> Inl MPanic))
      | GSlice t \<Rightarrow>
          (case la_new_table api h of (a, h1) \<Rightarrow>
             (case v of
                VSlice xs \<Rightarrow> map_sum id (Pair (LTable a)) (marshal_items env api t a 1 xs tags h1)
              | _ \<Rightarrow> Inl MPanic))
      | GPtr t \<Rightarrow>
          (if ''UserData'' \<in> set tags
           then (case la_new_udata api (case v of VUd u \<Rightarrow> u | _ \<Rightarrow> ge_box env v) h of
                   (a, h1) \<Rightarrow> Inr (LUserData a, h1))
           else (case la_new_table api h of (a, h1) \<Rightarrow>
                   (case t of
                      GStruct fs \<Rightarrow>
                        (case v of
                           VPtr (Some (VStruct xs)) \<Rightarrow> map_sum id (Pair (LTable a)) (structToTable env api fs a xs h1)
                         | _ \<Rightarrow> Inl MPanic)
                    | _ \<Rightarrow> Inl MPanic)))
      | _ \<Rightarrow> Inl (CannotCast (kind_name ty)))"
| "marshal_entries env api kt vt a [] tags h = Inr h"
| "marshal_entries env api kt vt a ((k, x) # kvs) tags h =
     (case marshalValue env api kt k tags h of
        Inl e \<Rightarrow> Inl e
      | Inr (lk, h1) \<Rightarrow>
          (case marshalValue env api vt x tags h1 of
             Inl e \<Rightarrow> Inl e
           | Inr (lx, h2) \<Rightarrow> marshal_entries env api kt vt a kvs tags (la_set api a lk lx h2)))"
| "marshal_items env api t a i [] tags h = Inr h"
| "marshal_items env api t a i (x # xs) tags h =
     (case marshalValue env api t x tags h of
        Inl e \<Rightarrow> Inl e
      | Inr (lx, h1) \<Rightarrow> marshal_items env api t a (Suc i) xs tags (la_set api a (index_key i) lx h1))"
| "structToTable env api [] a xs h = Inr h"
| "structToTable env api (f # fs) a [] h = Inr h"
| "structToTable env api ((tags, ft) # fs) a (x # xs) h =
     (if hd tags = ''-'' then structToTable env api fs a xs h
      else (case marshalValue env api ft x tags h of
              Inl e \<Rightarrow> Inl e
            | Inr (lx, h1) \<Rightarrow> structToTable env api fs a xs (la_set api a (LString (hd tags)) lx h1)))"
  by pat_completeness auto

termination
  by (relation "measure (case_sum
      (case_sum (\<lambda>(env, api, ty, v, tags, h). size v)
        (\<lambda>(env, api, kt, vt, a, kvs, tags, h). size_list (size_prod size size) kvs))
      (case_sum (\<lambda>(env, api, t, a, i, xs, tags, h). size_list size xs)
        (\<lambda>(env, api, fs, a, xs, h). size_list size xs)))") auto

text \<open>
  \<open>Marshal\<close> of a value in an interface: \<open>None\<close> is the nil interface, otherwise the value comes with its type.
  \<open>MustMarshal\<close> raises the error.
\<close>

definition go_Marshal ::
    "'u go_env \<Rightarrow> ('h, 'u) lua_api \<Rightarrow> (gotype \<times> 'u goval) option \<Rightarrow> 'h \<Rightarrow> marshal_error + (lval \<times> 'h)" where
  "go_Marshal env api x h = (case x of None \<Rightarrow> Inr (LNil, h) | Some (ty, v) \<Rightarrow> marshalValue env api ty v [] h)"

text \<open>\<open>MarshalMap\<close>, for the entries in the order of the iteration.\<close>

fun marshal_map_entries ::
    "'u go_env \<Rightarrow> ('h, 'u) lua_api \<Rightarrow> addr \<Rightarrow> (string \<times> (gotype \<times> 'u goval) option) list \<Rightarrow> 'h \<Rightarrow> marshal_error + 'h" where
  "marshal_map_entries env api a [] h = Inr h"
| "marshal_map_entries env api a ((k, x) # kvs) h =
     (case go_Marshal env api x h of
        Inl e \<Rightarrow> Inl e
      | Inr (lx, h1) \<Rightarrow> marshal_map_entries env api a kvs (la_set api a (LString k) lx h1))"

definition MarshalMap ::
    "'u go_env \<Rightarrow> ('h, 'u) lua_api \<Rightarrow> (string \<times> (gotype \<times> 'u goval) option) list \<Rightarrow> 'h \<Rightarrow> marshal_error + (lval \<times> 'h)" where
  "MarshalMap env api m h =
     (case la_new_table api h of (a, h1) \<Rightarrow> map_sum id (Pair (LTable a)) (marshal_map_entries env api a m h1))"

declare marshalValue.simps [simp del]

subsection \<open>Marshalled values read back\<close>










lemma live_index [simp]: "lval_live api h (index_key i)"
  by (simp add: lval_live_def index_key_def)









subsection \<open>Properties of typed conversion\<close>










text \<open>A nested struct behind a nil pointer panics instead of being allocated.\<close>

lemma nested_nil_panics:
  assumes "la_get api h a (LString n) = LTable b" and "n \<noteq> ''-''" and "n \<noteq> ''UserData''"
  shows "Unmarshal env api h (GPtr (GStruct [([n], GPtr (GStruct fs))])) (VPtr (Some (VStruct [VPtr None]))) (LTable a)
    = Inl MPanic"
  using assms by (simp add: Unmarshal_def unmarshalValue.simps)

end
