(* ===== verification/Untyped.thy ===== *)
theory Untyped
  imports Marshal Object
begin

text \<open>
  The untyped half of \<open>pkg/core/helpers/marshal.go\<close>, \<open>UnmarshalToMap\<close>, which turns the arguments of SQL
  statements and Redis commands into Go values, and \<open>Clone\<close>, with \<open>Clone\<close> of
  \<open>pkg/core/object/go_object.go\<close>.  Both recurse over tables without remembering where they have been, so they
  carry a bound on the depth; \<open>None\<close> is a recursion that exceeds it.
\<close>

datatype untyped =
    UTBool bool | UTString string | UTNumber lua_number | UTSlice "untyped list" | UTMap "(string \<times> untyped) list"

text \<open>A loop that stops at the first error, and does not end when one of its rounds does not.\<close>

fun all_results :: "('e + 'a) option list \<Rightarrow> ('e + 'a list) option" where
  "all_results [] = Some (Inr [])"
| "all_results (None # rs) = None"
| "all_results (Some (Inl e) # rs) = Some (Inl e)"
| "all_results (Some (Inr x) # rs) = map_option (map_sum id (Cons x)) (all_results rs)"

text \<open>The error is the type that is not supported, nil among them.\<close>

primrec UnmarshalToMap :: "('h, 'u) lua_api \<Rightarrow> 'h \<Rightarrow> nat \<Rightarrow> lval \<Rightarrow> (lua_type + untyped) option" where
  "UnmarshalToMap api h 0 v = None"
| "UnmarshalToMap api h (Suc n) v =
     (case v of
        LBool b \<Rightarrow> Some (Inr (UTBool b))
      | LString s \<Rightarrow> Some (Inr (UTString s))
      | LNumber x \<Rightarrow> Some (Inr (UTNumber x))
      | LTable a \<Rightarrow>
          (if 0 < la_len api h a
           then map_option (map_sum id UTSlice)
                  (all_results (map (\<lambda>i. UnmarshalToMap api h n (la_get api h a (index_key (Suc i)))) [0..<la_len api h a]))
           else map_option (map_sum id (\<lambda>kvs. UTMap (fold (\<lambda>(k, x). AList.update k x) kvs [])))
                  (all_results
                    (map (\<lambda>e. map_option (map_sum id (Pair (la_tostring api (fst e)))) (UnmarshalToMap api h n (snd e)))
                       (la_entries api h a))))
      | _ \<Rightarrow> Some (Inl (ltype v)))"

text \<open>\<open>MustUnmarshalToMap\<close> raises the error, so a caller's argument list is converted up to the first one.\<close>

definition unmarshal_args :: "('h, 'u) lua_api \<Rightarrow> 'h \<Rightarrow> nat \<Rightarrow> lval list \<Rightarrow> (lua_type + untyped list) option" where
  "unmarshal_args api h n vs = all_results (map (UnmarshalToMap api h n) vs)"

text \<open>\<open>Clone\<close> and \<open>cloneTable\<close>; functions, threads and channels become nil.\<close>

fun clone_entries ::
    "('h, 'u) lua_api \<Rightarrow> (lval \<Rightarrow> 'h \<Rightarrow> (lval \<times> 'h) option) \<Rightarrow> addr \<Rightarrow> (lval \<times> lval) list \<Rightarrow> 'h \<Rightarrow> 'h option" where
  "clone_entries api f t [] h = Some h"
| "clone_entries api f t ((k, v) # es) h =
     (case f k h of
        None \<Rightarrow> None
      | Some (k', h1) \<Rightarrow>
          (case f v h1 of None \<Rightarrow> None | Some (v', h2) \<Rightarrow> clone_entries api f t es (la_set api t k' v' h2)))"

primrec helpers_Clone :: "('h, 'u) lua_api \<Rightarrow> nat \<Rightarrow> lval \<Rightarrow> 'h \<Rightarrow> (lval \<times> 'h) option" where
  "helpers_Clone api 0 v h = None"
| "helpers_Clone api (Suc n) v h =
     (case v of
        LNumber x \<Rightarrow> Some (v, h)
      | LBool b \<Rightarrow> Some (v, h)
      | LString s \<Rightarrow> Some (v, h)
      | LTable a \<Rightarrow>
          (case la_new_table api h of
             (t, h1) \<Rightarrow> map_option (Pair (LTable t)) (clone_entries api (helpers_Clone api n) t (la_entries api h a) h1))
      | LUserData a \<Rightarrow> (case la_new_udata api (la_udata api h a) h of (u, h1) \<Rightarrow> Some (LUserData u, h1))
      | _ \<Rightarrow> Some (LNil, h))"

subsection \<open>Ends of the recursion\<close>

lemma all_results_Some:
  "(\<forall>r \<in> set rs. r \<noteq> None) \<Longrightarrow> \<exists>r. all_results rs = Some r"
proof (induction rs)
  case (Cons r rs)
  then show ?case by (cases r; cases "the r") auto
qed simp


text \<open>The tables in a table.\<close>

definition table_edges :: "('h, 'u) lua_api \<Rightarrow> 'h \<Rightarrow> (addr \<times> addr) set" where
  "table_edges api h = {(b, a). \<exists>k. (k, LTable b) \<in> set (la_entries api h a)}"

lemma common_bound:
  assumes "finite A" and "\<forall>x \<in> A. \<exists>n. \<forall>m \<ge> n. P x m"
  shows "\<exists>n::nat. \<forall>x \<in> A. \<forall>m \<ge> n. P x m"
  using assms
proof (induction A)
  case (insert x A)
  then obtain n k where "\<forall>y \<in> A. \<forall>m \<ge> n. P y m" "\<forall>m \<ge> k. P x m" by auto
  then have "\<forall>y \<in> insert x A. \<forall>m \<ge> max n k. P y m" by auto
  then show ?case by blast
qed simp

lemma unmarshal_leaf:
  assumes "\<forall>a. v \<noteq> LTable a" and "0 < m"
  shows "UnmarshalToMap api h m v \<noteq> None"
  using assms by (cases m; cases v) auto

lemma unmarshal_returns:
  assumes "lua_heap api" and "la_ok api h" and "wf (table_edges api h)"
  shows "\<exists>n. \<forall>m \<ge> n. UnmarshalToMap api h m (LTable a) \<noteq> None"
  using assms(3)
proof (induction a rule: wf_induct_rule)
  case (less a)
  let ?A = "insert LNil (snd ` set (la_entries api h a))"
  have "\<exists>n. \<forall>m \<ge> n. UnmarshalToMap api h m v \<noteq> None" if "v \<in> ?A" for v
  proof (cases "\<exists>b. v = LTable b")
    case True
    then obtain b where v: "v = LTable b" by blast
    with that have "(b, a) \<in> table_edges api h" by (force simp: table_edges_def)
    from less.IH [OF this] v show ?thesis by simp
  next
    case False
    then show ?thesis using unmarshal_leaf [of v _ api h] by (intro exI [of _ 1]) auto
  qed
  then obtain n where n: "\<forall>v \<in> ?A. \<forall>m \<ge> n. UnmarshalToMap api h m v \<noteq> None"
    using common_bound [of ?A "\<lambda>v m. UnmarshalToMap api h m v \<noteq> None"] by auto
  have get: "la_get api h a k \<in> ?A" for k
  proof (cases "map_of (la_entries api h a) k")
    case None
    then show ?thesis by (simp add: lua_heap.get_entries [OF assms(1,2)])
  next
    case (Some v)
    from map_of_SomeD [OF this] Some show ?thesis by (force simp: lua_heap.get_entries [OF assms(1,2)])
  qed
  have "UnmarshalToMap api h m (LTable a) \<noteq> None" if "m \<ge> Suc n" for m
  proof -
    obtain p where m: "m = Suc p" "p \<ge> n" using \<open>m \<ge> Suc n\<close> by (cases m) auto
    have vals: "UnmarshalToMap api h p v \<noteq> None" if "v \<in> ?A" for v using n m(2) that by blast
    have "\<exists>r. all_results (map (\<lambda>i. UnmarshalToMap api h p (la_get api h a (index_key (Suc i)))) [0..<la_len api h a]) = Some r"
      by (rule all_results_Some) (use vals get in auto)
    moreover have "\<exists>r. all_results (map (\<lambda>e. map_option (map_sum id (Pair (la_tostring api (fst e))))
        (UnmarshalToMap api h p (snd e))) (la_entries api h a)) = Some r"
      by (rule all_results_Some) (use vals in auto)
    ultimately show ?thesis using m(1) by auto
  qed
  then show ?case by blast
qed

text \<open>A table that is its own only entry.\<close>

lemma unmarshal_cycle:
  assumes "la_entries api h a = [(k, LTable a)]" and "la_len api h a = 0"
  shows "UnmarshalToMap api h n (LTable a) = None"
  by (induction n) (use assms in simp_all)

lemma clone_cycle:
  assumes "lua_heap api"
  shows "la_ok api h \<Longrightarrow> a \<in> la_live api h \<Longrightarrow> la_entries api h a = [(LString s, LTable a)] \<Longrightarrow>
    helpers_Clone api n (LTable a) h = None"
proof (induction n arbitrary: h)
  case (Suc n)
  obtain t h1 where n: "la_new_table api h = (t, h1)" by (cases "la_new_table api h")
  from lua_heap.new_table [OF assms Suc.prems(1) n] Suc.prems have
    "la_ok api h1" "a \<in> la_live api h1" "la_entries api h1 a = [(LString s, LTable a)]" by auto
  from Suc.IH [OF this] show ?case using n Suc.prems(3) by (cases n) auto
qed simp

subsection \<open>Agreement with the JSON reading\<close>
















subsection \<open>Properties\<close>

text \<open>
  C30: the conversion of arguments ends on every table that does not contain itself, at any level; a depth that is
  enough for it exists.  On a table that is its own only entry no depth is enough: the recursion of the code, and with
  it the stack, grows without end.
\<close>

theorem UnmarshalToMap_ends:
  assumes "lua_heap api" and "la_ok api h"
  shows "(wf (table_edges api h) \<longrightarrow> (\<exists>n. \<forall>m \<ge> n. UnmarshalToMap api h m v \<noteq> None))
    \<and> (\<forall>a k m. la_entries api h a = [(LString k, LTable a)] \<longrightarrow> UnmarshalToMap api h m (LTable a) = None)"
proof (intro conjI impI allI)
  assume wf: "wf (table_edges api h)"
  show "\<exists>n. \<forall>m \<ge> n. UnmarshalToMap api h m v \<noteq> None"
  proof (cases "\<exists>a. v = LTable a")
    case True
    with unmarshal_returns [OF assms wf] show ?thesis by blast
  next
    case False
    then show ?thesis using unmarshal_leaf [of v _ api h] by (intro exI [of _ 1]) auto
  qed
next
  fix a k m assume e: "la_entries api h a = [(LString k, LTable a)]"
  have "la_len api h a = 0"
  proof (rule ccontr)
    assume "la_len api h a \<noteq> 0"
    then show False
      using lua_heap.len_border [OF assms, of a] e
      by (simp add: lua_heap.get_entries [OF assms] index_key_def)
  qed
  from unmarshal_cycle [OF e this] show "UnmarshalToMap api h m (LTable a) = None" .
qed

definition own_heap :: "unit alist_heap" where
  "own_heap = empty_heap\<lparr>ah_next := 1, ah_tables := (\<lambda>_. [])(0 := [(LString ''me'', LTable 0)])\<rparr>"

lemma UnmarshalToMap_ends_witness:
  "UnmarshalToMap (alist_api (\<lambda>_. [])) own_heap 1000 (LTable 0) = None"
proof -
  have "la_ok (alist_api (\<lambda>_. [])) own_heap"
    by (auto simp: alist_api_simps alist_ok_def own_heap_def empty_heap_def below_def key_ok_def)
  moreover have "la_entries (alist_api (\<lambda>_. [])) own_heap 0 = [(LString ''me'', LTable 0)]"
    by (simp add: alist_api_simps own_heap_def)
  ultimately show ?thesis using UnmarshalToMap_ends [OF alist.lua_heap_axioms] by blast
qed



end
