(* ===== verification/Module_World.thy ===== *)
theory Module_World
  imports Params Object Exec_Context Resource_Pool
begin

text \<open>
  What the Lua modules share: the Go functions they register, the Go values behind their user data, the state
  their calls change, and the helpers \<open>core.Lua\<close>, \<open>core.GoFunctionCallback\<close> and \<open>ec.Guard\<close> on Lua values.

  The interpreter and the operating system are arguments: \<open>interp\<close> are gopher-lua's tables, its closures, the
  call of a Lua function, the values it accepts as strings and numbers, Go's conversion of a float64 to an integer,
  the largest slice it allocates and the deepest recursion of its stack; \<open>io_api\<close> are the reads, writes and
  closes of the handles of files, connections and clients, over a state \<open>'x\<close> of their own.
\<close>

type_synonym handle = nat

datatype go_fn =
    FObjSet | FObjGet | FRead | FWrite | FClose
  | FConnQuery | FConnExec | FConnBegin | FConnClose
  | FTxQuery | FTxExec | FTxCommit | FTxRollback
  | FRedisCall
  | FNetStart | FNetStop | FWsStart | FWsStop | FReadFrame | FWriteFrame
  | FHttpStart | FHttpStop | FSetStatus | FSetHeader | FGetHeader | FFinish
  | FNextTick | FTickStop | FToString | FFormat

datatype go_val =
    GReader nat handle | GWriter nat handle | GCloser nat handle rref
  | GFile handle | GConn handle string | GTx handle handle | GRedis handle
  | GNetConn handle | GWsConn handle bool | GServer nat
  | GUserData addr | GHttpRequest handle | GHttpResponse handle | GResponseWriter handle nat
  | GTicker nat | GTimestamp int | GEnv string

text \<open>What the release callback of a resource does with its handle.\<close>

datatype release = CloseHandle handle | CloseOrPanic handle | CloseAndFinish handle nat

text \<open>
  The structs behind server objects, which the Lua functions and goroutines share: the servers of the modules
  network and websocket, with the goroutine of every listener, and the servers of the module http.  A nil channel,
  a nil \<open>http.Server\<close> and a nil resource are \<open>None\<close>.
\<close>

datatype accept_loop = LoopTop handle | Accepting handle | LoopEnded

record net_server =
  ns_network :: string
  ns_addr :: string
  ns_handler :: addr
  ns_exit :: "unit chan option"
  ns_loops :: "accept_loop list"

record http_server =
  hs_addr :: string
  hs_handler :: addr
  hs_server :: "handle option"
  hs_resource :: "rref option"

text \<open>
  The channel of one entry on which the goroutine of an HTTP request waits for the end of its handler, and what that
  goroutine has taken from it; it takes one value.
\<close>

record finish =
  fn_chan :: "string option chan"
  fn_taken :: "string option option"

text \<open>
  The state: objects and heap, the pool of resources with their callbacks, the servers, the channels on which the
  handlers of HTTP requests wait, the rest of the world, and whether a goroutine has panicked, which ends the
  process, or waits for ever for a channel nobody reads.
\<close>

record ('h, 'x) world =
  w_os :: "('h, go_val) objects"
  w_pool :: pool
  w_release :: "rref \<Rightarrow> release"
  w_servers :: "net_server list"
  w_https :: "http_server list"
  w_finish :: "finish list"
  w_ext :: 'x
  w_dead :: bool
  w_hung :: bool

record ('h, 'x) interp =
  in_api :: "('h, unit) lua_api"
  in_closure :: "go_fn \<Rightarrow> addr \<Rightarrow> addr"
  in_invoke :: "addr \<Rightarrow> lval list \<Rightarrow> ('h, 'x) world body"
  in_int :: "lua_number \<Rightarrow> int"
  in_string :: "lval \<Rightarrow> string option"
  in_number :: "lval \<Rightarrow> lua_number option"
  in_alloc :: int
  in_depth :: nat

datatype io_error = EOF | IOErr string

record 'x io_api =
  io_read :: "handle \<Rightarrow> string \<Rightarrow> 'x \<Rightarrow> (string \<times> int \<times> io_error option) \<times> 'x"
  io_write :: "handle \<Rightarrow> string \<Rightarrow> 'x \<Rightarrow> (int \<times> string option) \<times> 'x"
  io_close :: "handle \<Rightarrow> 'x \<Rightarrow> string option \<times> 'x"

text \<open>How a Go function that Lua calls ends: it raises, panics, or returns values; before that it may have handed calls on.\<close>

datatype lua_fail = BadArgs check_error | LuaError string | GoPanic

type_synonym ('h, 'x) module_result = "('h, 'x) world \<times> ('h, 'x) world call list \<times> (lua_fail + lval list)"

definition int_value :: "int \<Rightarrow> lval" where
  "int_value i = LNumber (Fin (of_int i))"

text \<open>The numbers and strings that checked parameters hold.\<close>

fun par_int :: "('h, 'x) interp \<Rightarrow> param \<Rightarrow> int" where
  "par_int ip (NumberType x) = in_int ip x"
| "par_int ip p = 0"

fun par_string :: "param \<Rightarrow> string" where
  "par_string (StringType s) = s"
| "par_string p = []"

subsection \<open>Calls and callbacks\<close>

definition lua_function :: "('h, 'x) interp \<Rightarrow> lval \<Rightarrow> (lval list \<Rightarrow> ('h, 'x) world body) option" where
  "lua_function ip v = (case v of LFunction f \<Rightarrow> Some (in_invoke ip f) | _ \<Rightarrow> None)"

text \<open>\<open>core.Lua(cb, args...)\<close>\<close>

definition core_Lua :: "('h, 'x) interp \<Rightarrow> lval \<Rightarrow> lval list \<Rightarrow> ('h, 'x) world call" where
  "core_Lua ip cb args = CallLua (map_option (\<lambda>f. f args) (lua_function ip cb))"

fun arg_value :: "lval lua_arg \<Rightarrow> lval" where
  "arg_value ANil = LNil"
| "arg_value (AError e) = LString e"
| "arg_value (AValue v) = v"

definition callback_call ::
    "('h, 'x) interp \<Rightarrow> lval \<Rightarrow> (('h, 'x) world \<Rightarrow> ('h, 'x) world \<times> (string + lval)) \<Rightarrow> ('h, 'x) world call" where
  "callback_call ip cb fn = GoFunctionCallback (map_option (\<lambda>f as. f (map arg_value as)) (lua_function ip cb)) fn"

text \<open>\<open>utils.CallLuaFunction\<close> within a scoped call.\<close>

definition CallLuaFunction :: "('h, 'x) interp \<Rightarrow> lval \<Rightarrow> lval list \<Rightarrow> ('h, 'x) world body" where
  "CallLuaFunction ip cb args w = (case lua_function ip cb of None \<Rightarrow> (w, [], None) | Some f \<Rightarrow> f args w)"

lemma run_core_Lua: "run_body (core_Lua ip cb args) w = CallLuaFunction ip cb args w"
  by (simp add: core_Lua_def CallLuaFunction_def split: option.splits)

subsection \<open>Resources\<close>

text \<open>
  \<open>core.NewResource\<close> and \<open>ec.Guard\<close>.  \<open>Guard\<close> waits while the pool's channel is full, so the pool's goroutine
  runs first, and when that has stopped the caller waits for ever.
\<close>

definition guard_wait :: "rref \<Rightarrow> pool \<Rightarrow> pool option" where
  "guard_wait r p =
     (case ec_Guard r p of
        Some q \<Rightarrow> Some q
      | None \<Rightarrow> (case pool_goroutine p of None \<Rightarrow> None | Some p1 \<Rightarrow> ec_Guard r p1))"

definition new_resource :: "string \<Rightarrow> release \<Rightarrow> ('h, 'x) world \<Rightarrow> rref \<times> ('h, 'x) world" where
  "new_resource name act w =
     (case NewResource name False (w_pool w) of
        (r, p) \<Rightarrow> (r, w\<lparr>w_pool := p, w_release := (w_release w)(r := act)\<rparr>))"

definition Guard :: "rref \<Rightarrow> ('h, 'x) world \<Rightarrow> ('h, 'x) world" where
  "Guard r w =
     (case guard_wait r (w_pool w) of None \<Rightarrow> w\<lparr>w_hung := True\<rparr> | Some p \<Rightarrow> w\<lparr>w_pool := p\<rparr>)"

text \<open>
  \<open>ch <- err\<close> on the channel of a request: a send on a full one waits until the goroutine of the request has taken
  its value, and for ever when it has done so before.
\<close>

definition finish_take :: "finish \<Rightarrow> finish option" where
  "finish_take f =
     (if fn_taken f \<noteq> None then None
      else (case chan_get (fn_chan f) of
              None \<Rightarrow> None | Some (v, c) \<Rightarrow> Some (f\<lparr>fn_chan := c, fn_taken := Some v\<rparr>)))"

definition finish_put :: "string option \<Rightarrow> finish \<Rightarrow> finish option" where
  "finish_put v f = map_option (\<lambda>c. f\<lparr>fn_chan := c\<rparr>) (chan_put v (fn_chan f))"

definition finish_send :: "string option \<Rightarrow> finish \<Rightarrow> finish option" where
  "finish_send v f =
     (case finish_put v f of
        Some g \<Rightarrow> Some g
      | None \<Rightarrow> (case finish_take f of None \<Rightarrow> None | Some g \<Rightarrow> finish_put v g))"

definition send_finish :: "nat \<Rightarrow> string option \<Rightarrow> ('h, 'x) world \<Rightarrow> ('h, 'x) world" where
  "send_finish k v w =
     (case finish_send v (w_finish w ! k) of
        None \<Rightarrow> w\<lparr>w_hung := True\<rparr>
      | Some f \<Rightarrow> w\<lparr>w_finish := (w_finish w)[k := f]\<rparr>)"

text \<open>The release callbacks, and the end of \<open>ec.Close\<close> with the callbacks it runs.\<close>

definition run_release :: "'x io_api \<Rightarrow> release \<Rightarrow> ('h, 'x) world \<Rightarrow> ('h, 'x) world" where
  "run_release io act w =
     (case act of
        CloseHandle h \<Rightarrow> (case io_close io h (w_ext w) of (e, x) \<Rightarrow> w\<lparr>w_ext := x\<rparr>)
      | CloseOrPanic h \<Rightarrow>
          (case io_close io h (w_ext w) of (e, x) \<Rightarrow> w\<lparr>w_ext := x, w_dead := (w_dead w \<or> e \<noteq> None)\<rparr>)
      | CloseAndFinish h ch \<Rightarrow> (case io_close io h (w_ext w) of (e, x) \<Rightarrow> send_finish ch None (w\<lparr>w_ext := x\<rparr>)))"

fun run_callback :: "'x io_api \<Rightarrow> callback \<Rightarrow> ('h, 'x) world \<Rightarrow> ('h, 'x) world" where
  "run_callback io (ReleaseRun r) w = run_release io (w_release w r) w"
| "run_callback io (AfterRun r) w = w"

definition context_close :: "'x io_api \<Rightarrow> ('h, 'x) world \<Rightarrow> ('h, 'x) world option" where
  "context_close io w =
     (case close_resources (w_pool w) of
        None \<Rightarrow> None
      | Some p \<Rightarrow> Some (fold (run_callback io) (drop (length (pl_log (w_pool w))) (pl_log p)) (w\<lparr>w_pool := p\<rparr>)))"

subsection \<open>Objects of a module\<close>

text \<open>\<open>L.NewUserData\<close> with a value, and a closure over it.\<close>

definition new_closure ::
    "('h, 'x) interp \<Rightarrow> go_fn \<Rightarrow> go_val \<Rightarrow> ('h, 'x) world \<Rightarrow> addr \<times> ('h, 'x) world" where
  "new_closure ip f g w =
     (case new_udata (in_api ip) g (w_os w) of (ud, s) \<Rightarrow> (in_closure ip f ud, w\<lparr>w_os := s\<rparr>))"

definition new_protected ::
    "('h, 'x) interp \<Rightarrow> (string \<times> go_fn) list \<Rightarrow> (string \<times> lval) list \<Rightarrow> go_val \<Rightarrow> ('h, 'x) world \<Rightarrow>
     go_val object \<times> ('h, 'x) world" where
  "new_protected ip funcs props g w =
     (case object_NewProtected (in_api ip) (in_closure ip FObjSet) (in_closure ip FObjGet) (in_closure ip)
             funcs props g (w_os w) of
        (ob, s) \<Rightarrow> (ob, w\<lparr>w_os := s\<rparr>))"

definition new_readonly ::
    "('h, 'x) interp \<Rightarrow> (string \<times> go_fn) list \<Rightarrow> (string \<times> lval) list \<Rightarrow> go_val \<Rightarrow> ('h, 'x) world \<Rightarrow>
     go_val object \<times> ('h, 'x) world" where
  "new_readonly ip funcs props g w =
     (case object_NewReadOnly (in_api ip) (in_closure ip FObjSet) (in_closure ip FObjGet) (in_closure ip)
             funcs props g (w_os w) of
        (ob, s) \<Rightarrow> (ob, w\<lparr>w_os := s\<rparr>))"

definition new_plain ::
    "('h, 'x) interp \<Rightarrow> (string \<times> go_fn) list \<Rightarrow> (string \<times> lval) list \<Rightarrow> go_val \<Rightarrow> ('h, 'x) world \<Rightarrow>
     go_val object \<times> ('h, 'x) world" where
  "new_plain ip funcs props g w =
     (case object_New (in_api ip) (in_closure ip FObjSet) (in_closure ip FObjGet) (in_closure ip)
             funcs props g (w_os w) of
        (ob, s) \<Rightarrow> (ob, w\<lparr>w_os := s\<rparr>))"

text \<open>\<open>obj.SetFunction(name, f)\<close> on an object that Lua already knows.\<close>

definition set_function :: "string \<Rightarrow> addr \<Rightarrow> go_val object \<Rightarrow> ('h, 'x) world \<Rightarrow> go_val object \<times> ('h, 'x) world" where
  "set_function name f ob w =
     (let ob' = SetFunction name f ob in (ob', w\<lparr>w_os := store_object ob' (w_os w)\<rparr>))"

text \<open>\<open>L.CheckString\<close>, \<open>L.CheckNumber\<close> and \<open>L.CheckFunction\<close>\<close>

definition CheckString :: "('h, 'x) interp \<Rightarrow> lval list \<Rightarrow> nat \<Rightarrow> lua_fail + string" where
  "CheckString ip args i =
     (case in_string ip (get_arg args i) of
        Some s \<Rightarrow> Inr s | None \<Rightarrow> Inl (BadArgs (BadType i LTString (ltype (get_arg args i)))))"

definition CheckNumber :: "('h, 'x) interp \<Rightarrow> lval list \<Rightarrow> nat \<Rightarrow> lua_fail + lua_number" where
  "CheckNumber ip args i =
     (case in_number ip (get_arg args i) of
        Some x \<Rightarrow> Inr x | None \<Rightarrow> Inl (BadArgs (BadType i LTNumber (ltype (get_arg args i)))))"

definition CheckFunction :: "lval list \<Rightarrow> nat \<Rightarrow> lua_fail + addr" where
  "CheckFunction args i =
     (case get_arg args i of
        LFunction f \<Rightarrow> Inr f | v \<Rightarrow> Inl (BadArgs (BadType i LTFunction (ltype v))))"

text \<open>\<open>object.Value(L.CheckUserData(1))\<close>\<close>

definition self_value :: "('h, 'x) world \<Rightarrow> lval list \<Rightarrow> lua_fail + go_val" where
  "self_value w args =
     (if ltype (get_arg args 1) \<noteq> LTUserData then Inl (BadArgs (BadType 1 LTUserData (ltype (get_arg args 1))))
      else map_sum LuaError id (object_GoValue (os_udata (w_os w)) (get_arg args 1)))"

subsection \<open>Lemmas\<close>

lemma object_constructor_value:
  "object_NewProtected api sf gf cl funcs props g s = (ob, s') \<Longrightarrow>
     os_udata s' (ob_userData ob) = UDObject ob \<and> ob_go ob = g \<and> ob_protected ob \<and> \<not> ob_readonly ob
     \<and> ob_methods ob = closures cl (ob_userData ob) funcs \<and> ob_properties ob = props"
  by (auto simp: object_NewProtected_def newObject_def new_udata_def new_object_table_def store_object_def Let_def
        split: prod.splits)

lemma new_protected_value:
  assumes "new_protected ip funcs props g w = (ob, w')"
  shows "os_udata (w_os w') (ob_userData ob) = UDObject ob" "ob_go ob = g" "ob_protected ob" "\<not> ob_readonly ob"
    "ob_methods ob = closures (in_closure ip) (ob_userData ob) funcs" "ob_properties ob = props"
    "w_pool w' = w_pool w" "w_release w' = w_release w" "w_ext w' = w_ext w" "w_dead w' = w_dead w" "w_hung w' = w_hung w"
  using assms by (auto simp: new_protected_def dest!: object_constructor_value split: prod.splits)

lemma new_closure_frame [frame_simps]:
  "w_pool (snd (new_closure ip f g w)) = w_pool w" "w_release (snd (new_closure ip f g w)) = w_release w"
  "w_ext (snd (new_closure ip f g w)) = w_ext w" "w_dead (snd (new_closure ip f g w)) = w_dead w"
  "w_hung (snd (new_closure ip f g w)) = w_hung w"
  by (simp_all add: new_closure_def split: prod.splits)

lemma set_function_frame [frame_simps]:
  "w_pool (snd (set_function n a ob w)) = w_pool w" "w_release (snd (set_function n a ob w)) = w_release w"
  "w_ext (snd (set_function n a ob w)) = w_ext w" "w_dead (snd (set_function n a ob w)) = w_dead w"
  "w_hung (snd (set_function n a ob w)) = w_hung w"
  "ob_userData (fst (set_function n a ob w)) = ob_userData ob"
  by (simp_all add: set_function_def Let_def SetFunction_def)

text \<open>What \<open>object.Value\<close> finds behind an object that was just made.\<close>

lemma self_value_object:
  "os_udata (w_os w) a = UDObject ob \<Longrightarrow> self_value w (LUserData a # args) = Inr (ob_go ob)"
  by (simp add: self_value_def get_arg_def object_GoValue_def object_Get_def)

end
