(* ===== verification/Stream.thy ===== *)
theory Stream
  imports Module_World
begin

text \<open>
  \<open>pkg/core/stream\<close>: the functions \<open>read\<close>, \<open>write\<close> and \<open>close\<close> of every handle, and \<open>pkg/core/fs/fs.go\<close>'s
  \<open>fs.open\<close>, which makes a handle of them.  As methods they start at the second argument.
\<close>

definition method_start :: "bool \<Rightarrow> nat" where
  "method_start is_method = (if is_method then 2 else 1)"

definition NewReader :: "('h, 'x) interp \<Rightarrow> handle \<Rightarrow> bool \<Rightarrow> ('h, 'x) world \<Rightarrow> addr \<times> ('h, 'x) world" where
  "NewReader ip fd is_method = new_closure ip FRead (GReader (method_start is_method) fd)"

definition NewWriter :: "('h, 'x) interp \<Rightarrow> handle \<Rightarrow> bool \<Rightarrow> ('h, 'x) world \<Rightarrow> addr \<times> ('h, 'x) world" where
  "NewWriter ip fd is_method = new_closure ip FWrite (GWriter (method_start is_method) fd)"

definition NewCloser ::
    "('h, 'x) interp \<Rightarrow> rref \<Rightarrow> handle \<Rightarrow> bool \<Rightarrow> ('h, 'x) world \<Rightarrow> addr \<times> ('h, 'x) world" where
  "NewCloser ip r fd is_method = new_closure ip FClose (GCloser (method_start is_method) fd r)"

text \<open>
  \<open>read(size, cb?)\<close>.  A negative or too large size panics in the goroutine, which has no recovery.  The callback
  gets the whole buffer as a string, and the number of bytes.
\<close>

definition read_args :: "string \<Rightarrow> int \<Rightarrow> io_error option \<Rightarrow> lval list" where
  "read_args buf n err = (case err of Some (IOErr e) \<Rightarrow> [LString e] | _ \<Rightarrow> [LNil, LString buf, int_value n])"

definition read_body :: "('h, 'x) interp \<Rightarrow> 'x io_api \<Rightarrow> handle \<Rightarrow> int \<Rightarrow> lval \<Rightarrow> ('h, 'x) world body" where
  "read_body ip io fd len cb w =
     (if len < 0 \<or> in_alloc ip < len then (w\<lparr>w_dead := True\<rparr>, [], None)
      else (case io_read io fd (replicate (nat len) (CHR 0x00)) (w_ext w) of
              ((buf, n, err), x) \<Rightarrow>
                (w\<lparr>w_ext := x\<rparr>, [core_Lua ip cb (read_args buf n err)], None)))"

definition lRead :: "('h, 'x) interp \<Rightarrow> 'x io_api \<Rightarrow> go_val \<Rightarrow> lval list \<Rightarrow> ('h, 'x) world \<Rightarrow> ('h, 'x) module_result" where
  "lRead ip io uv args w =
     (case uv of
        GReader start fd \<Rightarrow>
          (case Check start 1 args [param_Number []] of
             Inl e \<Rightarrow> (w, [], Inl (BadArgs e))
           | Inr (cb, ps) \<Rightarrow> (w, [CallGo (read_body ip io fd (par_int ip (ps ! 0)) cb)], Inr []))
      | _ \<Rightarrow> (w, [], Inl (LuaError ''expected io.Reader'')))"

text \<open>\<open>write(buf, cb?)\<close>\<close>

definition write_body :: "('h, 'x) interp \<Rightarrow> 'x io_api \<Rightarrow> handle \<Rightarrow> string \<Rightarrow> lval \<Rightarrow> ('h, 'x) world body" where
  "write_body ip io fd buf cb w =
     (case io_write io fd buf (w_ext w) of
        ((n, err), x) \<Rightarrow>
          (w\<lparr>w_ext := x\<rparr>,
           [case err of Some e \<Rightarrow> core_Lua ip cb [LString e] | None \<Rightarrow> core_Lua ip cb [LNil, int_value n]],
           None))"

definition lWrite :: "('h, 'x) interp \<Rightarrow> 'x io_api \<Rightarrow> go_val \<Rightarrow> lval list \<Rightarrow> ('h, 'x) world \<Rightarrow> ('h, 'x) module_result" where
  "lWrite ip io uv args w =
     (case uv of
        GWriter start fd \<Rightarrow>
          (case Check start 1 args [param_String []] of
             Inl e \<Rightarrow> (w, [], Inl (BadArgs e))
           | Inr (cb, ps) \<Rightarrow> (w, [CallGo (write_body ip io fd (par_string (ps ! 0)) cb)], Inr []))
      | _ \<Rightarrow> (w, [], Inl (LuaError ''expected io.Writer'')))"

text \<open>\<open>close(cb?)\<close>: closes the handle, then cancels its resource; the last argument is the callback.\<close>

definition close_fn :: "'x io_api \<Rightarrow> handle \<Rightarrow> rref \<Rightarrow> ('h, 'x) world \<Rightarrow> ('h, 'x) world \<times> (string + lval)" where
  "close_fn io fd r w =
     (case io_close io fd (w_ext w) of
        (err, x) \<Rightarrow>
          (w\<lparr>w_ext := x, w_pool := resource_Cancel r (w_pool w)\<rparr>,
           case err of Some e \<Rightarrow> Inl e | None \<Rightarrow> Inr LNil))"

definition lClose :: "('h, 'x) interp \<Rightarrow> 'x io_api \<Rightarrow> go_val \<Rightarrow> lval list \<Rightarrow> ('h, 'x) world \<Rightarrow> ('h, 'x) module_result" where
  "lClose ip io uv args w =
     (case uv of
        GCloser start fd r \<Rightarrow> (w, [callback_call ip (get_arg args (length args)) (close_fn io fd r)], Inr [])
      | _ \<Rightarrow> (w, [], Inl (LuaError ''expected io.Closer'')))"

subsection \<open>Attaching them to an object\<close>

text \<open>\<open>obj.SetFunction(name, stream.NewX(...))\<close>\<close>

definition attach ::
    "string \<Rightarrow> (('h, 'x) world \<Rightarrow> addr \<times> ('h, 'x) world) \<Rightarrow> go_val object \<times> ('h, 'x) world \<Rightarrow>
     go_val object \<times> ('h, 'x) world" where
  "attach name mk = (\<lambda>(ob, w). let (f, w1) = mk w in set_function name f ob w1)"

lemma New_frame [frame_simps]:
  "w_pool (snd (NewReader ip fd m w)) = w_pool w" "w_pool (snd (NewWriter ip fd m w)) = w_pool w"
  "w_pool (snd (NewCloser ip r fd m w)) = w_pool w" "w_ext (snd (NewReader ip fd m w)) = w_ext w"
  "w_ext (snd (NewWriter ip fd m w)) = w_ext w" "w_ext (snd (NewCloser ip r fd m w)) = w_ext w"
  "w_release (snd (NewReader ip fd m w)) = w_release w" "w_release (snd (NewWriter ip fd m w)) = w_release w"
  "w_release (snd (NewCloser ip r fd m w)) = w_release w"
  by (simp_all add: NewReader_def NewWriter_def NewCloser_def frame_simps)

lemma attach_frame:
  assumes "w_pool (snd (mk (snd s))) = w_pool (snd s)" "w_ext (snd (mk (snd s))) = w_ext (snd s)"
    "w_release (snd (mk (snd s))) = w_release (snd s)"
  shows "w_pool (snd (attach n mk s)) = w_pool (snd s)" "w_ext (snd (attach n mk s)) = w_ext (snd s)"
    "w_release (snd (attach n mk s)) = w_release (snd s)"
    "ob_userData (fst (attach n mk s)) = ob_userData (fst s)"
  using assms by (simp_all add: attach_def frame_simps case_prod_beta Let_def)

subsection \<open>A resource that is cancelled before the pool has linked it\<close>

text \<open>A new pool with one guarded resource that its goroutine has not linked yet.\<close>

definition one_guarded :: "nat \<Rightarrow> string \<Rightarrow> pool" where
  "one_guarded n name =
     (NewResourcePool n)\<lparr>
       pl_res := (\<lambda>_. resource0)(0 := \<lparr>rs_name = name, rs_released = False, rs_has_after = False,
                                      rs_node = None, rs_pool = True\<rparr>),
       pl_rfresh := 1, pl_cache := (make_chan n)\<lparr>ch_buf := [0]\<rparr>\<rparr>"

lemma guarded_fresh:
  assumes "w_pool w = NewResourcePool n" and "0 < n" and "new_resource name act w = (r, w1)"
  shows "r = 0" and "w_pool (Guard r w1) = one_guarded n name"
    and "w_release w1 r = act" and "w_ext w1 = w_ext w" and "w_release (Guard r w1) = w_release w1" and "w_ext (Guard r w1) = w_ext w"
  using assms
  by (auto simp: new_resource_def NewResource_def Guard_def guard_wait_def ec_Guard_def pool_Insert_def setPool_def
       one_guarded_def NewResourcePool_def make_chan_def chan_put_def chan_send_def Let_def)

lemma cancelled_unlinked: "rs_node (pl_res p r) = None \<Longrightarrow> resource_Cancel r p = p"
  by (simp add: resource_Cancel_def)

lemma closed_before_link:
  assumes "w_pool w = NewResourcePool n" and "0 < n" and "new_resource name act w = (r, w1)"
    and w2: "w_pool w2 = w_pool (Guard r w1)" "w_release w2 r = act"
  shows "resource_Cancel r (w_pool w2) = w_pool w2"
    and "\<exists>p q. pool_goroutine (w_pool w2) = Some p
      \<and> context_close io (w2\<lparr>w_pool := p\<rparr>) = Some (run_release io act (w2\<lparr>w_pool := q\<rparr>))"
proof -
  note g = guarded_fresh [OF assms(1-3)]
  show "resource_Cancel r (w_pool w2) = w_pool w2"
    by (rule cancelled_unlinked) (simp add: w2(1) g(2) one_guarded_def resource0_def)
  have p: "w_pool w2 = one_guarded n name"
    using g w2 by simp
  have [simp]: "w_release w2 0 = act" using w2 g by simp
  obtain p1 where p1: "pool_goroutine (w_pool w2) = Some p1" "pl_tail p1 = Some 0" "nd_prev (pl_nodes p1 0) = None"
     "nd_next (pl_nodes p1 0) = None" "nd_resource (pl_nodes p1 0) = 0" "pl_log p1 = []" "pl_running p1" "\<not> rs_released (pl_res p1 0)" "\<not> rs_has_after (pl_res p1 0)"
    by (simp add: p one_guarded_def pool_eval node0_def)
  have "\<exists>q. close_resources p1 = Some q \<and> pl_log q = [ReleaseRun 0]"
    using p1 by (simp add: close_resources_def pool_Close_def pool_ForEach_def find_head.simps walk_nodes.simps
        release_and_detach_def resource_Release_def setPool_def setNode_def Let_def)
  then obtain q where "close_resources p1 = Some q" "pl_log q = [ReleaseRun 0]" by blast
  then have "context_close io (w2\<lparr>w_pool := p1\<rparr>) = Some (run_release io act (w2\<lparr>w_pool := q\<rparr>))"
    by (simp add: context_close_def p1(6))
  with p1(1) show "\<exists>p q. pool_goroutine (w_pool w2) = Some p
      \<and> context_close io (w2\<lparr>w_pool := p\<rparr>) = Some (run_release io act (w2\<lparr>w_pool := q\<rparr>))" by blast
qed

subsection \<open>Properties\<close>

lemma Check_one_number:
  "Check 2 1 [self, LNumber x, LFunction f] [param_Number []] = Inr (LFunction f, [NumberType x])"
  by (simp add: Check_def get_arg_def param_Number_def)

text \<open>
  C23: reading.  A read that a script asks for delivers to its callback, once, the error of the reader, or nil, the
  buffer and the number of bytes read; the buffer has the size that was asked for even when fewer bytes were read.
  A negative size, or one that cannot be allocated, ends the process.
\<close>

theorem read_delivers:
  assumes contract: "\<And>b x b' n e x'. io_read io fd b x = ((b', n, e), x') \<Longrightarrow> length b' = length b \<and> 0 \<le> n \<and> n \<le> int (length b)"
  shows "\<exists>body. lRead ip io (GReader 2 fd) [self, LNumber x, LFunction f] w = (w, [CallGo body], Inr [])
    \<and> (if in_int ip x < 0 \<or> in_alloc ip < in_int ip x then body w1 = (w1\<lparr>w_dead := True\<rparr>, [], None)
       else \<exists>buf n err x' cb.
         io_read io fd (replicate (nat (in_int ip x)) (CHR 0x00)) (w_ext w1) = ((buf, n, err), x')
         \<and> int (length buf) = in_int ip x \<and> n \<le> int (length buf)
         \<and> body w1 = (w1\<lparr>w_ext := x'\<rparr>, [cb], None)
         \<and> run_body cb = in_invoke ip f (case err of Some (IOErr e) \<Rightarrow> [LString e]
                                           | _ \<Rightarrow> [LNil, LString buf, int_value n]))"
proof -
  let ?body = "read_body ip io fd (in_int ip x) (LFunction f)"
  have "lRead ip io (GReader 2 fd) [self, LNumber x, LFunction f] w = (w, [CallGo ?body], Inr [])"
    by (simp add: lRead_def Check_one_number [simplified])
  moreover have "if in_int ip x < 0 \<or> in_alloc ip < in_int ip x then ?body w1 = (w1\<lparr>w_dead := True\<rparr>, [], None)
       else \<exists>buf n err x' cb.
         io_read io fd (replicate (nat (in_int ip x)) (CHR 0x00)) (w_ext w1) = ((buf, n, err), x')
         \<and> int (length buf) = in_int ip x \<and> n \<le> int (length buf)
         \<and> ?body w1 = (w1\<lparr>w_ext := x'\<rparr>, [cb], None)
         \<and> run_body cb = in_invoke ip f (case err of Some (IOErr e) \<Rightarrow> [LString e]
                                           | _ \<Rightarrow> [LNil, LString buf, int_value n])"
  proof (cases "in_int ip x < 0 \<or> in_alloc ip < in_int ip x")
    case False
    obtain buf n err x' where r: "io_read io fd (replicate (nat (in_int ip x)) (CHR 0x00)) (w_ext w1) = ((buf, n, err), x')"
      by (metis prod_cases3 surj_pair)
    from contract [OF this] False have "int (length buf) = in_int ip x" "n \<le> int (length buf)" by auto
    with r False show ?thesis
      by (auto simp: read_body_def read_args_def core_Lua_def lua_function_def split: option.splits io_error.splits)
  qed (simp add: read_body_def)
  ultimately show ?thesis by blast
qed

text \<open>A reader over a string, as a test double.\<close>

definition string_io :: "string io_api" where
  "string_io =
     \<lparr>io_read = (\<lambda>fd b x. let n = min (length b) (length x) in
                   ((take n x @ drop n b, int n, if x = [] then Some EOF else None), drop n x)),
      io_write = (\<lambda>fd b x. ((int (length b), None), x @ b)),
      io_close = (\<lambda>fd x. (None, x))\<rparr>"

definition toy_interp :: "(unit alist_heap, 'x) interp" where
  "toy_interp =
     \<lparr>in_api = alist_api (\<lambda>_. []), in_closure = (\<lambda>f a. a), in_invoke = (\<lambda>f args w. (w, [], None)),
      in_int = (\<lambda>x. case x of Fin r \<Rightarrow> \<lfloor>r\<rfloor> | _ \<Rightarrow> 0),
      in_string = (\<lambda>v. case v of LString s \<Rightarrow> Some s | _ \<Rightarrow> None),
      in_number = (\<lambda>v. case v of LNumber x \<Rightarrow> Some x | _ \<Rightarrow> None), in_alloc = 2 ^ 40, in_depth = 100\<rparr>"

definition toy_world :: "'x \<Rightarrow> (unit alist_heap, 'x) world" where
  "toy_world x =
     \<lparr>w_os = \<lparr>os_heap = empty_heap, os_udata = (\<lambda>_. UDValue (GEnv [])), os_meta = Map.empty\<rparr>,
      w_pool = NewResourcePool 64, w_release = (\<lambda>_. CloseHandle 0), w_servers = [], w_https = [], w_finish = [], w_ext = x, w_dead = False, w_hung = False\<rparr>"

lemma read_delivers_witness:
  "\<exists>body cb. lRead toy_interp string_io (GReader 2 7) [LUserData 0, LNumber (Fin 4), LFunction 5] (toy_world ''ab'')
       = (toy_world ''ab'', [CallGo body], Inr [])
     \<and> body (toy_world ''ab'') = (toy_world [], [cb], None)"
proof -
  have "length b' = length b \<and> 0 \<le> n \<and> n \<le> int (length b)"
    if "io_read string_io 7 b x = ((b', n, e), x')" for b x b' n e x'
    using that by (auto simp: string_io_def Let_def min_def split: if_splits)
  from read_delivers [where io = string_io and fd = 7 and ip = toy_interp and self = "LUserData 0" and x = "Fin 4" and f = 5
      and w = "toy_world ''ab''" and ?w1.0 = "toy_world ''ab''", OF this]
  show ?thesis by (fastforce simp: toy_interp_def string_io_def toy_world_def Let_def)
qed

end
