(* ===== verification/Time_Module.thy ===== *)
theory Time_Module
  imports Module_World Rpc_Types "HOL-Library.Sublist"
begin

text \<open>
  \<open>pkg/core/time/time.go\<close>: timestamps, timeouts and tickers.  An instant is a number of nanoseconds; the
  calendar fields and the formatting of an instant in the local zone are arguments.  A ticker's Go channel holds one
  instant, and a tick that finds it full is dropped; every \<open>next_tick\<close> is a goroutine that waits for the channel.
\<close>

record calendar =
  cl_year :: int
  cl_month :: int
  cl_day :: int
  cl_weekday :: int
  cl_hour :: int
  cl_minute :: int
  cl_second :: int
  cl_nanosecond :: int

definition Layout :: string where
  "Layout = ''2006-01-02T15:04:05.000Z07:00''"

definition timestampFuncs :: "(string \<times> go_fn) list" where
  "timestampFuncs = [(''__tostring'', FToString), (''format'', FFormat)]"

definition timestamp_properties :: "(instant \<Rightarrow> calendar) \<Rightarrow> instant \<Rightarrow> (string \<times> lval) list" where
  "timestamp_properties cal t =
     [(''year'', int_value (cl_year (cal t))), (''month'', int_value (cl_month (cal t))),
      (''day'', int_value (cl_day (cal t))), (''weekday'', int_value (cl_weekday (cal t))),
      (''hour'', int_value (cl_hour (cal t))), (''minute'', int_value (cl_minute (cal t))),
      (''second'', int_value (cl_second (cal t))),
      (''millisecond'', int_value (go_div (cl_nanosecond (cal t)) 1000000)),
      (''milliunix'', int_value (go_div t 1000000))]"

definition time_New ::
    "('h, 'x) interp \<Rightarrow> (instant \<Rightarrow> calendar) \<Rightarrow> instant \<Rightarrow> ('h, 'x) world \<Rightarrow> go_val object \<times> ('h, 'x) world" where
  "time_New ip cal t = new_plain ip timestampFuncs (timestamp_properties cal t) (GTimestamp t)"

text \<open>\<open>checkTimestamp\<close> and \<open>checkTicker\<close>: the assertion of the type of the Go value panics.\<close>

definition checkTimestamp :: "('h, 'x) world \<Rightarrow> lval list \<Rightarrow> lua_fail + instant" where
  "checkTimestamp w args =
     (case self_value w args of
        Inl e \<Rightarrow> Inl e | Inr g \<Rightarrow> (case g of GTimestamp t \<Rightarrow> Inr t | _ \<Rightarrow> Inl GoPanic))"

definition checkTicker :: "('h, 'x) world \<Rightarrow> lval list \<Rightarrow> lua_fail + nat" where
  "checkTicker w args =
     (case self_value w args of
        Inl e \<Rightarrow> Inl e | Inr g \<Rightarrow> (case g of GTicker k \<Rightarrow> Inr k | _ \<Rightarrow> Inl GoPanic))"

definition lNow :: "('h, 'x) interp \<Rightarrow> (instant \<Rightarrow> calendar) \<Rightarrow> instant \<Rightarrow> ('h, 'x) world \<Rightarrow> ('h, 'x) module_result" where
  "lNow ip cal now w = (let (ob, w1) = time_New ip cal now w in (w1, [], Inr [obj_Value ob]))"

definition timestampToString ::
    "(instant \<Rightarrow> string \<Rightarrow> string) \<Rightarrow> lval list \<Rightarrow> ('h, 'x) world \<Rightarrow> ('h, 'x) module_result" where
  "timestampToString fmt args w =
     (w, [], map_sum id (\<lambda>t. [LString (fmt t Layout)]) (checkTimestamp w args))"

definition timestampFormat ::
    "('h, 'x) interp \<Rightarrow> (instant \<Rightarrow> string \<Rightarrow> string) \<Rightarrow> lval list \<Rightarrow> ('h, 'x) world \<Rightarrow> ('h, 'x) module_result" where
  "timestampFormat ip fmt args w =
     (w, [],
      case checkTimestamp w args of
        Inl e \<Rightarrow> Inl e
      | Inr t \<Rightarrow> map_sum id (\<lambda>s. [LString (fmt t s)]) (CheckString ip args 2))"

subsection \<open>Timeouts\<close>

text \<open>\<open>time.timeout\<close>: a goroutine that sleeps for a duration and then hands over a call.\<close>

definition lTimeout ::
    "('h, 'x) interp \<Rightarrow> lval list \<Rightarrow> check_error + duration \<times> ('h, 'x) world call" where
  "lTimeout ip args =
     (case Check 1 1 args [param_Number []] of
        Inl e \<Rightarrow> Inl e
      | Inr (cb, ps) \<Rightarrow> Inr (duration_of_ms (par_int ip (ps ! 0)), core_Lua ip cb []))"

subsection \<open>Tickers\<close>

text \<open>
  A ticker: its period, its channel, whether it has been stopped, and the callbacks of the goroutines that wait.
  The last two fields are history: the instants it has fired, and what the callbacks were given.
\<close>

record ticker =
  tk_period :: duration
  tk_chan :: "instant chan"
  tk_stopped :: bool
  tk_waiting :: "lval list"
  tk_fired :: "instant list"
  tk_served :: "(lval \<times> instant) list"

text \<open>\<open>time.NewTicker\<close> panics for a period that is not positive, which the multiplication can produce.\<close>

definition NewTicker :: "duration \<Rightarrow> ticker option" where
  "NewTicker d =
     (if d \<le> 0 then None
      else Some \<lparr>tk_period = d, tk_chan = make_chan 1, tk_stopped = False, tk_waiting = [], tk_fired = [],
                 tk_served = []\<rparr>)"

definition tickerFuncs :: "(string \<times> go_fn) list" where
  "tickerFuncs = [(''next_tick'', FNextTick), (''stop'', FTickStop)]"

definition lTick ::
    "('h, 'x) interp \<Rightarrow> lval list \<Rightarrow> ticker list \<Rightarrow> ('h, 'x) world \<Rightarrow> ticker list \<times> ('h, 'x) module_result" where
  "lTick ip args tks w =
     (case get_arg args 1 of
        LNumber x \<Rightarrow>
          (let ms = in_int ip x in
           if ms \<le> 0 then (tks, w, [], Inl (LuaError ''time.tick(ms): repeat period should be larger than 0''))
           else (case NewTicker (duration_of_ms ms) of
                   None \<Rightarrow> (tks, w, [], Inl GoPanic)
                 | Some tk \<Rightarrow>
                     (let (ob, w1) = new_readonly ip tickerFuncs [(''period'', int_value (duration_of_ms ms))]
                                       (GTicker (length tks)) w
                      in (tks @ [tk], w1, [], Inr [obj_Value ob]))))
      | v \<Rightarrow> (tks, w, [], Inl (BadArgs (BadType 1 LTNumber (ltype v)))))"


definition tick_wait :: "lval \<Rightarrow> ticker \<Rightarrow> ticker" where
  "tick_wait cb tk = tk\<lparr>tk_waiting := tk_waiting tk @ [cb]\<rparr>"


text \<open>What the goroutine hands over then: the callback with a timestamp object.\<close>

definition served_call ::
    "('h, 'x) interp \<Rightarrow> (instant \<Rightarrow> calendar) \<Rightarrow> lval \<times> instant \<Rightarrow> ('h, 'x) world \<Rightarrow> ('h, 'x) world \<times> ('h, 'x) world call" where
  "served_call ip cal = (\<lambda>(cb, t) w. let (ob, w1) = time_New ip cal t w in (w1, core_Lua ip cb [obj_Value ob]))"

definition tick_stop :: "ticker \<Rightarrow> ticker" where
  "tick_stop tk = tk\<lparr>tk_stopped := True\<rparr>"

text \<open>The Lua functions on the ticker behind an object.\<close>

definition lTickerNextTick ::
    "lval list \<Rightarrow> ticker list \<Rightarrow> ('h, 'x) world \<Rightarrow> ticker list \<times> ('h, 'x) module_result" where
  "lTickerNextTick args tks w =
     (case checkTicker w args of
        Inl e \<Rightarrow> (tks, w, [], Inl e)
      | Inr k \<Rightarrow> (tks[k := tick_wait (get_arg args 2) (tks ! k)], w, [], Inr []))"

definition lTickerStop ::
    "lval list \<Rightarrow> ticker list \<Rightarrow> ('h, 'x) world \<Rightarrow> ticker list \<times> ('h, 'x) module_result" where
  "lTickerStop args tks w =
     (case checkTicker w args of
        Inl e \<Rightarrow> (tks, w, [], Inl e)
      | Inr k \<Rightarrow> (tks[k := tick_stop (tks ! k)], w, [], Inr []))"

subsection \<open>Runs of a ticker\<close>













subsection \<open>Properties\<close>



text \<open>A period of more than about 292 years wraps around, and \<open>time.NewTicker\<close> panics.\<close>

lemma lTick_overflow:
  "in_int ip x = 2 ^ 62 \<Longrightarrow> snd (snd (snd (lTick ip [LNumber x] tks w))) = Inl GoPanic"
  by (simp add: lTick_def get_arg_def NewTicker_def duration_of_ms_def wrap64_def millisecond_def)

end
