(* ===== verification/Fs.thy ===== *)
theory Fs
  imports Stream Time_Module
begin

text \<open>
  \<open>pkg/core/fs/fs.go\<close>: files and directories.  The operating system's calls are \<open>files_api\<close>; every function
  checks its arguments and hands the work to a Go goroutine, whose result or error goes to the callback.
\<close>

record file_info =
  fi_name :: string
  fi_isdir :: bool
  fi_mode :: int
  fi_size :: int
  fi_modtime :: instant

record 'x files_api =
  os_open :: "string \<Rightarrow> int \<Rightarrow> int \<Rightarrow> 'x \<Rightarrow> (string + handle) \<times> 'x"
  os_remove :: "string \<Rightarrow> 'x \<Rightarrow> string option \<times> 'x"
  os_remove_all :: "string \<Rightarrow> 'x \<Rightarrow> string option \<times> 'x"
  os_stat :: "string \<Rightarrow> 'x \<Rightarrow> (string + file_info) \<times> 'x"
  os_read_dir :: "string \<Rightarrow> 'x \<Rightarrow> (string + file_info list) \<times> 'x"
  os_mkdir :: "string \<Rightarrow> int \<Rightarrow> 'x \<Rightarrow> string option \<times> 'x"
  os_mkdir_all :: "string \<Rightarrow> int \<Rightarrow> 'x \<Rightarrow> string option \<times> 'x"

text \<open>The flags: Go's constants of package \<open>os\<close> on Linux.\<close>

definition fs_flags :: "(string \<times> int) list" where
  "fs_flags =
     [(''READ_ONLY'', 0), (''WRITE_ONLY'', 1), (''READ_WRITE'', 2), (''APPEND'', 1024), (''CREATE'', 64),
      (''EXCL'', 128), (''SYNC'', 1052672), (''TRUNC'', 512)]"

text \<open>\<open>tb.RawSetString(k, v)\<close> for some keys.\<close>

definition set_fields :: "('h, 'u) lua_api \<Rightarrow> addr \<Rightarrow> (string \<times> lval) list \<Rightarrow> 'h \<Rightarrow> 'h" where
  "set_fields api t kvs h = fold (\<lambda>(k, v). la_set api t (LString k) v) kvs h"

definition lFlags :: "('h, 'x) interp \<Rightarrow> ('h, 'x) world \<Rightarrow> ('h, 'x) module_result" where
  "lFlags ip w =
     (let (t, h) = la_new_table (in_api ip) (os_heap (w_os w));
          h1 = set_fields (in_api ip) t (map (\<lambda>(k, i). (k, int_value i)) fs_flags) h
      in (w\<lparr>w_os := (w_os w)\<lparr>os_heap := h1\<rparr>\<rparr>, [], Inr [LTable t]))"

subsection \<open>Opening\<close>

definition open_fn ::
    "('h, 'x) interp \<Rightarrow> 'x files_api \<Rightarrow> string \<Rightarrow> int \<Rightarrow> int \<Rightarrow> ('h, 'x) world \<Rightarrow> ('h, 'x) world \<times> (string + lval)" where
  "open_fn ip fs path flag perm w =
     (case os_open fs path flag perm (w_ext w) of
        (Inl e, x) \<Rightarrow> (w\<lparr>w_ext := x\<rparr>, Inl e)
      | (Inr fd, x) \<Rightarrow>
          (let (r, w1) = new_resource (''*os.File: '' @ path) (CloseHandle fd) (w\<lparr>w_ext := x\<rparr>);
               w2 = Guard r w1;
               s = attach ''read'' (NewReader ip fd True) (new_protected ip [] [] (GFile fd) w2);
               s1 = attach ''write'' (NewWriter ip fd True) s;
               (ob, w3) = attach ''close'' (NewCloser ip r fd True) s1
           in (w3, Inr (obj_Value ob))))"

definition lOpen ::
    "('h, 'x) interp \<Rightarrow> 'x files_api \<Rightarrow> lval list \<Rightarrow> ('h, 'x) world \<Rightarrow> ('h, 'x) module_result" where
  "lOpen ip fs args w =
     (case Check 1 1 args [param_String [], param_Number [], param_Number []] of
        Inl e \<Rightarrow> (w, [], Inl (BadArgs e))
      | Inr (cb, ps) \<Rightarrow>
          (w, [callback_call ip cb (open_fn ip fs (par_string (ps ! 0)) (par_int ip (ps ! 1)) (par_int ip (ps ! 2)))],
           Inr []))"

subsection \<open>Functions on paths\<close>

text \<open>A call of the operating system that gives an error or nothing, as the work of a callback.\<close>

definition nil_fn :: "('x \<Rightarrow> string option \<times> 'x) \<Rightarrow> ('h, 'x) world \<Rightarrow> ('h, 'x) world \<times> (string + lval)" where
  "nil_fn op w =
     (case op (w_ext w) of (err, x) \<Rightarrow> (w\<lparr>w_ext := x\<rparr>, case err of Some e \<Rightarrow> Inl e | None \<Rightarrow> Inr LNil))"

text \<open>\<open>cb := params.Check(L, 1, 1, ..., path)\<close>, then the work on the path.\<close>

definition path_call ::
    "('h, 'x) interp \<Rightarrow> (string \<Rightarrow> ('h, 'x) world \<Rightarrow> ('h, 'x) world \<times> (string + lval)) \<Rightarrow> lval list \<Rightarrow> ('h, 'x) world \<Rightarrow>
     ('h, 'x) module_result" where
  "path_call ip fn args w =
     (case Check 1 1 args [param_String []] of
        Inl e \<Rightarrow> (w, [], Inl (BadArgs e))
      | Inr (cb, ps) \<Rightarrow> (w, [callback_call ip cb (fn (par_string (ps ! 0)))], Inr []))"

definition lRemove :: "('h, 'x) interp \<Rightarrow> 'x files_api \<Rightarrow> lval list \<Rightarrow> ('h, 'x) world \<Rightarrow> ('h, 'x) module_result" where
  "lRemove ip fs = path_call ip (\<lambda>path. nil_fn (os_remove fs path))"

definition lRemoveAll :: "('h, 'x) interp \<Rightarrow> 'x files_api \<Rightarrow> lval list \<Rightarrow> ('h, 'x) world \<Rightarrow> ('h, 'x) module_result" where
  "lRemoveAll ip fs = path_call ip (\<lambda>path. nil_fn (os_remove_all fs path))"

definition createStat ::
    "('h, 'x) interp \<Rightarrow> (instant \<Rightarrow> calendar) \<Rightarrow> file_info \<Rightarrow> ('h, 'x) world \<Rightarrow> lval \<times> ('h, 'x) world" where
  "createStat ip cal info w =
     (let (t, h) = la_new_table (in_api ip) (os_heap (w_os w));
          h1 = set_fields (in_api ip) t
                 [(''name'', LString (fi_name info)), (''isdir'', LBool (fi_isdir info)),
                  (''mode'', int_value (fi_mode info)), (''size'', int_value (fi_size info))] h;
          (ob, w1) = time_New ip cal (fi_modtime info) (w\<lparr>w_os := (w_os w)\<lparr>os_heap := h1\<rparr>\<rparr>);
          h2 = la_set (in_api ip) t (LString ''timestamp'') (obj_Value ob) (os_heap (w_os w1))
      in (LTable t, w1\<lparr>w_os := (w_os w1)\<lparr>os_heap := h2\<rparr>\<rparr>))"

definition stat_fn ::
    "('h, 'x) interp \<Rightarrow> (instant \<Rightarrow> calendar) \<Rightarrow> 'x files_api \<Rightarrow> string \<Rightarrow> ('h, 'x) world \<Rightarrow> ('h, 'x) world \<times> (string + lval)" where
  "stat_fn ip cal fs path w =
     (case os_stat fs path (w_ext w) of
        (Inl e, x) \<Rightarrow> (w\<lparr>w_ext := x\<rparr>, Inl e)
      | (Inr info, x) \<Rightarrow> (let (v, w1) = createStat ip cal info (w\<lparr>w_ext := x\<rparr>) in (w1, Inr v)))"

definition lStat ::
    "('h, 'x) interp \<Rightarrow> (instant \<Rightarrow> calendar) \<Rightarrow> 'x files_api \<Rightarrow> lval list \<Rightarrow> ('h, 'x) world \<Rightarrow> ('h, 'x) module_result" where
  "lStat ip cal fs = path_call ip (stat_fn ip cal fs)"

text \<open>\<open>t.Append(createStat(L, info))\<close> for every entry, in the order of the names.\<close>

fun append_stats ::
    "('h, 'x) interp \<Rightarrow> (instant \<Rightarrow> calendar) \<Rightarrow> addr \<Rightarrow> file_info list \<Rightarrow> ('h, 'x) world \<Rightarrow> ('h, 'x) world" where
  "append_stats ip cal t [] w = w"
| "append_stats ip cal t (info # infos) w =
     (let (v, w1) = createStat ip cal info w
      in append_stats ip cal t infos
           (w1\<lparr>w_os := (w_os w1)\<lparr>os_heap := la_append (in_api ip) t v (os_heap (w_os w1))\<rparr>\<rparr>))"

definition read_dir_fn ::
    "('h, 'x) interp \<Rightarrow> (instant \<Rightarrow> calendar) \<Rightarrow> 'x files_api \<Rightarrow> string \<Rightarrow> ('h, 'x) world \<Rightarrow> ('h, 'x) world \<times> (string + lval)" where
  "read_dir_fn ip cal fs path w =
     (case os_read_dir fs path (w_ext w) of
        (Inl e, x) \<Rightarrow> (w\<lparr>w_ext := x\<rparr>, Inl e)
      | (Inr infos, x) \<Rightarrow>
          (let (t, h) = la_new_table (in_api ip) (os_heap (w_os w))
           in (append_stats ip cal t infos (w\<lparr>w_ext := x, w_os := (w_os w)\<lparr>os_heap := h\<rparr>\<rparr>), Inr (LTable t))))"

definition lReadDir ::
    "('h, 'x) interp \<Rightarrow> (instant \<Rightarrow> calendar) \<Rightarrow> 'x files_api \<Rightarrow> lval list \<Rightarrow> ('h, 'x) world \<Rightarrow> ('h, 'x) module_result" where
  "lReadDir ip cal fs = path_call ip (read_dir_fn ip cal fs)"

text \<open>
  \<open>mkdir\<close> and \<open>mkdir_all\<close> with the mode \<open>os.ModeDir | os.ModePerm\<close> by default, which is 2147484159 and exact in a
  float64; \<open>os.FileMode\<close> keeps the low 32 bits of the number.
\<close>

definition dir_mode :: int where
  "dir_mode = 2 ^ 31 + 511"

definition mkdir_call ::
    "('h, 'x) interp \<Rightarrow> (string \<Rightarrow> int \<Rightarrow> 'x \<Rightarrow> string option \<times> 'x) \<Rightarrow> lval list \<Rightarrow> ('h, 'x) world \<Rightarrow> ('h, 'x) module_result" where
  "mkdir_call ip op args w =
     (case Check 1 1 args [param_String [], param_Number [Fin (of_int dir_mode)]] of
        Inl e \<Rightarrow> (w, [], Inl (BadArgs e))
      | Inr (cb, ps) \<Rightarrow>
          (w, [callback_call ip cb (nil_fn (op (par_string (ps ! 0)) (par_int ip (ps ! 1) mod 2 ^ 32)))], Inr []))"

definition lMkdir :: "('h, 'x) interp \<Rightarrow> 'x files_api \<Rightarrow> lval list \<Rightarrow> ('h, 'x) world \<Rightarrow> ('h, 'x) module_result" where
  "lMkdir ip fs = mkdir_call ip (os_mkdir fs)"

definition lMkdirAll :: "('h, 'x) interp \<Rightarrow> 'x files_api \<Rightarrow> lval list \<Rightarrow> ('h, 'x) world \<Rightarrow> ('h, 'x) module_result" where
  "lMkdirAll ip fs = mkdir_call ip (os_mkdir_all fs)"

subsection \<open>Properties\<close>

lemma open_fn_opened:
  assumes "os_open fs path flag perm (w_ext w) = (Inr fd, x)"
    and "new_resource (''*os.File: '' @ path) (CloseHandle fd) (w\<lparr>w_ext := x\<rparr>) = (r, w1)"
  shows "\<exists>w2 (ob :: go_val object). open_fn ip fs path flag perm w = (w2, Inr (obj_Value ob)) \<and> w_pool w2 = w_pool (Guard r w1)
    \<and> w_ext w2 = w_ext (Guard r w1) \<and> w_release w2 = w_release (Guard r w1)"
proof -
  obtain ob0 v0 where p: "new_protected ip [] [] (GFile fd) (Guard r w1) = (ob0, v0)" by fastforce
  let ?s = "attach ''close'' (NewCloser ip r fd True) (attach ''write'' (NewWriter ip fd True)
              (attach ''read'' (NewReader ip fd True) (ob0, v0)))"
  have "open_fn ip fs path flag perm w = (snd ?s, Inr (obj_Value (fst ?s)))"
    using assms p by (simp add: open_fn_def Let_def case_prod_beta)
  moreover have "w_pool (snd ?s) = w_pool (Guard r w1)" "w_ext (snd ?s) = w_ext (Guard r w1)"
    "w_release (snd ?s) = w_release (Guard r w1)"
    using new_protected_value [OF p] by (simp_all add: attach_frame New_frame)
  ultimately show ?thesis by (intro exI [of _ "snd ?s"] exI [of _ "fst ?s"] conjI)
qed

text \<open>
  a file that is closed too early is closed twice.  When a script opens a file and closes it before the pool's
  goroutine has linked its resource, the cancellation has no effect: the resource is linked afterwards, and closing
  the context closes the handle again.
\<close>

theorem early_close_closes_twice:
  assumes "w_pool w = NewResourcePool n" and "0 < n" and "os_open fs path flag perm (w_ext w) = (Inr fd, x)"
  shows "\<exists>w1 v p w2. open_fn ip fs path flag perm w = (w1, Inr v)
    \<and> pool_goroutine (w_pool (fst (close_fn io fd 0 w1))) = Some p
    \<and> context_close io ((fst (close_fn io fd 0 w1))\<lparr>w_pool := p\<rparr>) = Some w2
    \<and> w_ext w2 = snd (io_close io fd (snd (io_close io fd x)))"
proof -
  obtain r v0 where new: "new_resource (''*os.File: '' @ path) (CloseHandle fd) (w\<lparr>w_ext := x\<rparr>) = (r, v0)" by fastforce
  have pool: "w_pool (w\<lparr>w_ext := x\<rparr>) = NewResourcePool n" using assms(1) by simp
  note g = guarded_fresh [OF pool assms(2) new]
  obtain w1 and ob :: "go_val object" where o: "open_fn ip fs path flag perm w = (w1, Inr (obj_Value ob))"
    "w_pool w1 = w_pool (Guard r v0)" "w_ext w1 = w_ext (Guard r v0)" "w_release w1 = w_release (Guard r v0)"
    using open_fn_opened [OF assms(3) new, of ip] by blast
  note w1 = o(1,2) o(3) [unfolded g(6)] o(4) [unfolded g(5)]
  let ?w2 = "fst (close_fn io fd 0 w1)"
  have w2: "w_pool ?w2 = w_pool (Guard r v0)" "w_release ?w2 r = CloseHandle fd" "w_ext ?w2 = snd (io_close io fd x)"
    using w1 g(1,3) closed_before_link(1) [OF pool assms(2) new w1(2)]
    by (simp_all add: close_fn_def split: prod.splits)
  from closed_before_link(2) [OF pool assms(2) new w2(1,2), of io] obtain p q where
    "pool_goroutine (w_pool ?w2) = Some p"
    "context_close io (?w2\<lparr>w_pool := p\<rparr>) = Some (run_release io (CloseHandle fd) (?w2\<lparr>w_pool := q\<rparr>))" by blast
  with w1(1) w2(3) show ?thesis
    by (auto simp: run_release_def split: prod.splits)
qed

text \<open>A file system whose state counts the closes.\<close>

definition counting_io :: "nat io_api" where
  "counting_io = \<lparr>io_read = (\<lambda>fd b x. ((b, 0, Some EOF), x)), io_write = (\<lambda>fd b x. ((int (length b), None), x)),
                  io_close = (\<lambda>fd x. (None, Suc x))\<rparr>"

definition open_all :: "nat files_api" where
  "open_all =
     \<lparr>os_open = (\<lambda>p fl pm x. (Inr 3, x)), os_remove = (\<lambda>p x. (None, x)), os_remove_all = (\<lambda>p x. (None, x)),
      os_stat = (\<lambda>p x. (Inl ''no such file'', x)), os_read_dir = (\<lambda>p x. (Inr [], x)),
      os_mkdir = (\<lambda>p m x. (None, x)), os_mkdir_all = (\<lambda>p m x. (None, x))\<rparr>"

lemma early_close_closes_twice_witness:
  "\<exists>w1 v p w2. open_fn toy_interp open_all ''f'' 0 0 (toy_world 0) = (w1, Inr v)
    \<and> context_close counting_io ((fst (close_fn counting_io 3 0 w1))\<lparr>w_pool := p\<rparr>) = Some w2 \<and> w_ext w2 = 2"
proof -
  have "w_pool (toy_world (0::nat)) = NewResourcePool 64" by (simp add: toy_world_def)
  moreover have "os_open open_all ''f'' 0 0 (w_ext (toy_world (0::nat))) = (Inr 3, 0)"
    by (simp add: open_all_def toy_world_def)
  ultimately obtain w1 v p w2 where "open_fn toy_interp open_all ''f'' 0 0 (toy_world 0) = (w1, Inr v)"
    "context_close counting_io ((fst (close_fn counting_io 3 0 w1))\<lparr>w_pool := p\<rparr>) = Some w2"
    "w_ext w2 = snd (io_close counting_io 3 (snd (io_close counting_io 3 0)))"
    using early_close_closes_twice [of "toy_world (0::nat)" 64 open_all "''f''" 0 0 3 0 toy_interp counting_io]
    by fastforce
  moreover have "io_close counting_io 3 x = (None, Suc x)" for x by (simp add: counting_io_def)
  ultimately have "w_ext w2 = 2" by simp
  with \<open>open_fn toy_interp open_all ''f'' 0 0 (toy_world 0) = (w1, Inr v)\<close>
    \<open>context_close counting_io ((fst (close_fn counting_io 3 0 w1))\<lparr>w_pool := p\<rparr>) = Some w2\<close>
  show ?thesis by (intro exI [of _ w1] exI [of _ v] exI [of _ p] exI [of _ w2] conjI)
qed

end
