(* ===== verification/Sql_Redis.thy ===== *)
theory Sql_Redis
  imports Stream Untyped
begin

text \<open>
  \<open>pkg/core/sql/sql.go\<close> and \<open>pkg/core/redis/redis.go\<close>: connections, statements, transactions and commands.  The
  drivers are \<open>sql_api\<close> and \<open>redis_api\<close>, whose results are Go values with their types; the parsing of addresses is
  Go's.  Arguments are converted by \<open>UnmarshalToMap\<close>, results by \<open>Marshal\<close> and \<open>MarshalMap\<close>.
\<close>

type_synonym any = "(gotype \<times> unit goval) option"

text \<open>The part of a URL that is used.\<close>

record url =
  url_scheme :: string
  url_user :: string
  url_host :: string
  url_path :: string
  url_query :: string
  url_password :: "string option"

text \<open>
  The rows of a query: an error of its own, the columns, for each row the error of \<open>Scan\<close> or the values, and the
  error of \<open>Close\<close>.
\<close>

record rows =
  rw_err :: "string option"
  rw_cols :: "string + string list"
  rw_rows :: "(string + any list) list"
  rw_close :: "string option"

record exec_result =
  xr_insert_id :: "string + int"
  xr_affected :: "string + int"

record 'x sql_api =
  sq_open :: "string \<Rightarrow> string \<Rightarrow> 'x \<Rightarrow> (string + handle) \<times> 'x"
  sq_query :: "handle \<Rightarrow> string \<Rightarrow> untyped list \<Rightarrow> 'x \<Rightarrow> (string + rows) \<times> 'x"
  sq_exec :: "handle \<Rightarrow> string \<Rightarrow> untyped list \<Rightarrow> 'x \<Rightarrow> (string + exec_result) \<times> 'x"
  sq_begin :: "handle \<Rightarrow> 'x \<Rightarrow> (string + handle) \<times> 'x"
  sq_commit :: "handle \<Rightarrow> 'x \<Rightarrow> string option \<times> 'x"
  sq_rollback :: "handle \<Rightarrow> 'x \<Rightarrow> string option \<times> 'x"

fun marshal_text :: "marshal_error \<Rightarrow> string" where
  "marshal_text (CannotCast k) = k @ '' unable to be casted to lua''"
| "marshal_text (BadDuration e) = e"
| "marshal_text (CannotAssign t k) = k"
| "marshal_text MPanic = []"

fun type_name :: "lua_type \<Rightarrow> string" where
  "type_name LTNil = ''nil''"
| "type_name LTBool = ''boolean''"
| "type_name LTNumber = ''number''"
| "type_name LTString = ''string''"
| "type_name LTFunction = ''function''"
| "type_name LTUserData = ''userdata''"
| "type_name LTThread = ''thread''"
| "type_name LTTable = ''table''"
| "type_name LTChannel = ''channel''"

subsection \<open>Opening a connection\<close>

definition connFuncs :: "(string \<times> go_fn) list" where
  "connFuncs = [(''query'', FConnQuery), (''exec'', FConnExec), (''begin'', FConnBegin), (''close'', FConnClose)]"

definition data_source :: "url \<Rightarrow> string" where
  "data_source u = url_user u @ ''@tcp('' @ url_host u @ '')'' @ url_path u @ ''?'' @ url_query u"

definition sql_open_fn ::
    "('h, 'x) interp \<Rightarrow> 'x sql_api \<Rightarrow> url \<Rightarrow> string \<Rightarrow> ('h, 'x) world \<Rightarrow> ('h, 'x) world \<times> (string + lval)" where
  "sql_open_fn ip sq u uid w =
     (case sq_open sq (url_scheme u) (data_source u) (w_ext w) of
        (Inl e, x) \<Rightarrow> (w\<lparr>w_ext := x\<rparr>, Inl e)
      | (Inr db, x) \<Rightarrow>
          (let (r, w1) = new_resource ''sql.Conn'' (CloseHandle db) (w\<lparr>w_ext := x\<rparr>);
               s = new_protected ip connFuncs [] (GConn db uid) (Guard r w1);
               (ob, w2) = attach ''close'' (NewCloser ip r db True) s
           in (w2, Inr (obj_Value ob))))"

definition sql_lOpen ::
    "('h, 'x) interp \<Rightarrow> 'x sql_api \<Rightarrow> (string \<Rightarrow> string + url) \<Rightarrow> string \<Rightarrow> lval list \<Rightarrow> ('h, 'x) world \<Rightarrow>
     ('h, 'x) module_result" where
  "sql_lOpen ip sq parse uid args w =
     (case Check 1 1 args [param_String []] of
        Inl e \<Rightarrow> (w, [], Inl (BadArgs e))
      | Inr (cb, ps) \<Rightarrow>
          (case parse (par_string (ps ! 0)) of
             Inl e \<Rightarrow> (w, [], Inl (LuaError e))
           | Inr u \<Rightarrow> (w, [callback_call ip cb (sql_open_fn ip sq u uid)], Inr [])))"

subsection \<open>Statements\<close>

text \<open>
  The arguments of \<open>query\<close>, \<open>exec\<close> and of a Redis command: those from \<open>first\<close> on up to the last one, which is the
  callback.  Too few arguments make a slice of negative length, which panics; a table that contains itself
  overflows the stack.
\<close>

definition statement_args ::
    "('h, 'x) interp \<Rightarrow> nat \<Rightarrow> lval list \<Rightarrow> ('h, 'x) world \<Rightarrow> (lua_fail + untyped list) option" where
  "statement_args ip first args w =
     (if length args < first then Some (Inl GoPanic)
      else map_option (map_sum (\<lambda>t. LuaError (type_name t @ '' is not supported'')) id)
             (unmarshal_args (in_api ip) (os_heap (w_os w)) (in_depth ip)
                (map (get_arg args) [first..<length args])))"

text \<open>\<open>m[colName] = *val\<close> for the columns of every row, up to the first error of \<open>Scan\<close>.\<close>

definition row_map :: "string list \<Rightarrow> any list \<Rightarrow> (string \<times> any) list" where
  "row_map cols vals = fold (\<lambda>(c, v). AList.update c v) (zip cols vals) []"

fun scan_rows :: "string list \<Rightarrow> (string + any list) list \<Rightarrow> string + (string \<times> any) list list" where
  "scan_rows cols [] = Inr []"
| "scan_rows cols (Inl e # rs) = Inl e"
| "scan_rows cols (Inr vals # rs) = map_sum id (Cons (row_map cols vals)) (scan_rows cols rs)"

fun append_maps ::
    "unit go_env \<Rightarrow> ('h, unit) lua_api \<Rightarrow> addr \<Rightarrow> (string \<times> any) list list \<Rightarrow> 'h \<Rightarrow> marshal_error + 'h" where
  "append_maps env api t [] h = Inr h"
| "append_maps env api t (m # ms) h =
     (case MarshalMap env api m h of
        Inl e \<Rightarrow> Inl e
      | Inr (v, h1) \<Rightarrow> append_maps env api t ms (la_append api t v h1))"

text \<open>The scoped call with the result: an error of the conversion goes to the callback, a panic ends the process.\<close>

definition with_heap :: "'h \<Rightarrow> ('h, 'x) world \<Rightarrow> ('h, 'x) world" where
  "with_heap h w = w\<lparr>w_os := (w_os w)\<lparr>os_heap := h\<rparr>\<rparr>"

definition give_result ::
    "('h, 'x) interp \<Rightarrow> lval \<Rightarrow> marshal_error + (lval \<times> 'h) \<Rightarrow> ('h, 'x) world body" where
  "give_result ip cb res w =
     (case res of
        Inl MPanic \<Rightarrow> (w\<lparr>w_dead := True\<rparr>, [], None)
      | Inl e \<Rightarrow> CallLuaFunction ip cb [LString (marshal_text e)] w
      | Inr (v, h) \<Rightarrow> CallLuaFunction ip cb [LNil, v] (with_heap h w))"

definition query_result ::
    "('h, 'x) interp \<Rightarrow> unit go_env \<Rightarrow> lval \<Rightarrow> (string \<times> any) list list \<Rightarrow> ('h, 'x) world body" where
  "query_result ip env cb items w =
     (let (t, h) = la_new_table (in_api ip) (os_heap (w_os w))
      in give_result ip cb (map_sum id (Pair (LTable t)) (append_maps env (in_api ip) t items h)) w)"

definition query_body ::
    "('h, 'x) interp \<Rightarrow> unit go_env \<Rightarrow> 'x sql_api \<Rightarrow> handle \<Rightarrow> string \<Rightarrow> untyped list \<Rightarrow> lval \<Rightarrow> ('h, 'x) world body" where
  "query_body ip env sq db q args cb w =
     (case sq_query sq db q args (w_ext w) of
        (Inl e, x) \<Rightarrow> (w\<lparr>w_ext := x\<rparr>, [core_Lua ip cb [LString e]], None)
      | (Inr rs, x) \<Rightarrow>
          (w\<lparr>w_ext := x\<rparr>,
           [case rw_err rs of
              Some e \<Rightarrow> core_Lua ip cb [LString e]
            | None \<Rightarrow>
                (case rw_cols rs of
                   Inl e \<Rightarrow> core_Lua ip cb [LString e]
                 | Inr cols \<Rightarrow>
                     (case scan_rows cols (rw_rows rs) of
                        Inl e \<Rightarrow> core_Lua ip cb [LString e]
                      | Inr items \<Rightarrow> CallScoped (query_result ip env cb items)))],
           rw_close rs))"

definition query ::
    "('h, 'x) interp \<Rightarrow> unit go_env \<Rightarrow> 'x sql_api \<Rightarrow> handle \<Rightarrow> lval list \<Rightarrow> ('h, 'x) world \<Rightarrow> ('h, 'x) module_result" where
  "query ip env sq db args w =
     (case CheckString ip args 2 of
        Inl e \<Rightarrow> (w, [], Inl e)
      | Inr q \<Rightarrow>
          (case statement_args ip 3 args w of
             None \<Rightarrow> (w\<lparr>w_dead := True\<rparr>, [], Inl GoPanic)
           | Some (Inl e) \<Rightarrow> (w, [], Inl e)
           | Some (Inr vs) \<Rightarrow>
               (w, [CallGo (query_body ip env sq db q vs (get_arg args (length args)))], Inr [])))"

definition exec_table ::
    "('h, 'x) interp \<Rightarrow> lval \<Rightarrow> int \<Rightarrow> int \<Rightarrow> ('h, 'x) world body" where
  "exec_table ip cb uid affected w =
     (let (t, h) = la_new_table (in_api ip) (os_heap (w_os w));
          h1 = la_set (in_api ip) t (LString ''last_inserted_id'') (int_value uid) h;
          h2 = la_set (in_api ip) t (LString ''rows_affected'') (int_value affected) h1
      in CallLuaFunction ip cb [LNil, LTable t] (with_heap h2 w))"

definition exec_body ::
    "('h, 'x) interp \<Rightarrow> 'x sql_api \<Rightarrow> handle \<Rightarrow> string \<Rightarrow> untyped list \<Rightarrow> lval \<Rightarrow> ('h, 'x) world body" where
  "exec_body ip sq db q args cb w =
     (case sq_exec sq db q args (w_ext w) of
        (res, x) \<Rightarrow>
          (w\<lparr>w_ext := x\<rparr>,
           [case res of
              Inl e \<Rightarrow> core_Lua ip cb [LString e]
            | Inr r \<Rightarrow>
                (case xr_insert_id r of
                   Inl e \<Rightarrow> core_Lua ip cb [LString e]
                 | Inr uid \<Rightarrow>
                     (case xr_affected r of
                        Inl e \<Rightarrow> core_Lua ip cb [LString e]
                      | Inr n \<Rightarrow> CallScoped (exec_table ip cb uid n)))],
           None))"

definition exec ::
    "('h, 'x) interp \<Rightarrow> 'x sql_api \<Rightarrow> handle \<Rightarrow> lval list \<Rightarrow> ('h, 'x) world \<Rightarrow> ('h, 'x) module_result" where
  "exec ip sq db args w =
     (case CheckString ip args 2 of
        Inl e \<Rightarrow> (w, [], Inl e)
      | Inr q \<Rightarrow>
          (case statement_args ip 3 args w of
             None \<Rightarrow> (w\<lparr>w_dead := True\<rparr>, [], Inl GoPanic)
           | Some (Inl e) \<Rightarrow> (w, [], Inl e)
           | Some (Inr vs) \<Rightarrow> (w, [CallGo (exec_body ip sq db q vs (get_arg args (length args)))], Inr [])))"

subsection \<open>Connections and transactions\<close>

definition checkConn :: "('h, 'x) world \<Rightarrow> lval list \<Rightarrow> lua_fail + handle" where
  "checkConn w args =
     (case self_value w args of Inl e \<Rightarrow> Inl e | Inr g \<Rightarrow> (case g of GConn db uid \<Rightarrow> Inr db | _ \<Rightarrow> Inl GoPanic))"

text \<open>\<open>checkTx\<close> looks for the transaction in the user data itself, not behind the object there.\<close>

definition checkTx :: "('h, 'x) world \<Rightarrow> lval list \<Rightarrow> lua_fail + handle" where
  "checkTx w args =
     (case get_arg args 1 of
        LUserData a \<Rightarrow> (case os_udata (w_os w) a of UDValue (GTx conn tx) \<Rightarrow> Inr tx | _ \<Rightarrow> Inl (LuaError ''expected tx''))
      | v \<Rightarrow> Inl (BadArgs (BadType 1 LTUserData (ltype v))))"

definition on_handle ::
    "lua_fail + handle \<Rightarrow> (handle \<Rightarrow> ('h, 'x) module_result) \<Rightarrow> ('h, 'x) world \<Rightarrow> ('h, 'x) module_result" where
  "on_handle c f w = (case c of Inl e \<Rightarrow> (w, [], Inl e) | Inr fd \<Rightarrow> f fd)"

definition lConnQuery ::
    "('h, 'x) interp \<Rightarrow> unit go_env \<Rightarrow> 'x sql_api \<Rightarrow> lval list \<Rightarrow> ('h, 'x) world \<Rightarrow> ('h, 'x) module_result" where
  "lConnQuery ip env sq args w = on_handle (checkConn w args) (\<lambda>db. query ip env sq db args w) w"

definition lConnExec :: "('h, 'x) interp \<Rightarrow> 'x sql_api \<Rightarrow> lval list \<Rightarrow> ('h, 'x) world \<Rightarrow> ('h, 'x) module_result" where
  "lConnExec ip sq args w = on_handle (checkConn w args) (\<lambda>db. exec ip sq db args w) w"

definition txFuncs :: "(string \<times> go_fn) list" where
  "txFuncs = [(''query'', FTxQuery), (''exec'', FTxExec), (''commit'', FTxCommit), (''rollback'', FTxRollback)]"

definition begin_fn ::
    "('h, 'x) interp \<Rightarrow> 'x sql_api \<Rightarrow> handle \<Rightarrow> ('h, 'x) world \<Rightarrow> ('h, 'x) world \<times> (string + lval)" where
  "begin_fn ip sq db w =
     (case sq_begin sq db (w_ext w) of
        (Inl e, x) \<Rightarrow> (w\<lparr>w_ext := x\<rparr>, Inl e)
      | (Inr tx, x) \<Rightarrow>
          (let (ob, w1) = new_protected ip txFuncs [] (GTx db tx) (w\<lparr>w_ext := x\<rparr>) in (w1, Inr (obj_Value ob))))"

definition lConnBegin :: "('h, 'x) interp \<Rightarrow> 'x sql_api \<Rightarrow> lval list \<Rightarrow> ('h, 'x) world \<Rightarrow> ('h, 'x) module_result" where
  "lConnBegin ip sq args w =
     on_handle (checkConn w args) (\<lambda>db. (w, [callback_call ip (get_arg args 2) (begin_fn ip sq db)], Inr [])) w"

text \<open>The result of an operation without a value.\<close>

definition nil_result :: "('x \<Rightarrow> string option \<times> 'x) \<Rightarrow> ('h, 'x) world \<Rightarrow> ('h, 'x) world \<times> (string + lval)" where
  "nil_result op w =
     (case op (w_ext w) of (err, x) \<Rightarrow> (w\<lparr>w_ext := x\<rparr>, case err of Some e \<Rightarrow> Inl e | None \<Rightarrow> Inr LNil))"

definition lConnClose :: "('h, 'x) interp \<Rightarrow> 'x io_api \<Rightarrow> lval list \<Rightarrow> ('h, 'x) world \<Rightarrow> ('h, 'x) module_result" where
  "lConnClose ip io args w =
     on_handle (checkConn w args)
       (\<lambda>db. (w, [callback_call ip (get_arg args 2) (nil_result (io_close io db))], Inr [])) w"

definition lTxQuery ::
    "('h, 'x) interp \<Rightarrow> unit go_env \<Rightarrow> 'x sql_api \<Rightarrow> lval list \<Rightarrow> ('h, 'x) world \<Rightarrow> ('h, 'x) module_result" where
  "lTxQuery ip env sq args w = on_handle (checkTx w args) (\<lambda>tx. query ip env sq tx args w) w"

definition lTxExec :: "('h, 'x) interp \<Rightarrow> 'x sql_api \<Rightarrow> lval list \<Rightarrow> ('h, 'x) world \<Rightarrow> ('h, 'x) module_result" where
  "lTxExec ip sq args w = on_handle (checkTx w args) (\<lambda>tx. exec ip sq tx args w) w"

definition lTxCommit :: "('h, 'x) interp \<Rightarrow> 'x sql_api \<Rightarrow> lval list \<Rightarrow> ('h, 'x) world \<Rightarrow> ('h, 'x) module_result" where
  "lTxCommit ip sq args w =
     on_handle (checkTx w args)
       (\<lambda>tx. (w, [callback_call ip (get_arg args 2) (nil_result (sq_commit sq tx))], Inr [])) w"

definition lTxRollback :: "('h, 'x) interp \<Rightarrow> 'x sql_api \<Rightarrow> lval list \<Rightarrow> ('h, 'x) world \<Rightarrow> ('h, 'x) module_result" where
  "lTxRollback ip sq args w =
     on_handle (checkTx w args)
       (\<lambda>tx. (w, [callback_call ip (get_arg args 2) (nil_result (sq_rollback sq tx))], Inr [])) w"

subsection \<open>Redis\<close>

record redis_options =
  ro_addr :: string
  ro_db :: int
  ro_password :: string

record 'x redis_api =
  rd_client :: "redis_options \<Rightarrow> 'x \<Rightarrow> handle \<times> 'x"
  rd_do :: "handle \<Rightarrow> untyped list \<Rightarrow> 'x \<Rightarrow> (string + any) \<times> 'x"

text \<open>The options of an address; \<open>parse_db\<close> is \<open>strconv.ParseInt\<close> with 32 bits.\<close>

definition redis_options_of :: "(string \<Rightarrow> string + int) \<Rightarrow> url \<Rightarrow> string + redis_options" where
  "redis_options_of parse_db u =
     (if url_scheme u \<noteq> ''redis'' then Inl (''uri schema \"'' @ url_scheme u @ ''\" is not supported'')
      else
        (let pw = (case url_password u of None \<Rightarrow> [] | Some p \<Rightarrow> p) in
         if url_path u = [] then Inr \<lparr>ro_addr = url_host u, ro_db = 0, ro_password = pw\<rparr>
         else (case parse_db (tl (url_path u)) of
                 Inl e \<Rightarrow> Inl (''unable to parse db \"'' @ tl (url_path u) @ ''\": '' @ e)
               | Inr db \<Rightarrow> Inr \<lparr>ro_addr = url_host u, ro_db = db, ro_password = pw\<rparr>)))"

text \<open>The resource of a client is made but not guarded.\<close>

definition lRedisNew ::
    "('h, 'x) interp \<Rightarrow> 'x redis_api \<Rightarrow> (string \<Rightarrow> string + url) \<Rightarrow> (string \<Rightarrow> string + int) \<Rightarrow> lval list \<Rightarrow> ('h, 'x) world \<Rightarrow>
     ('h, 'x) module_result" where
  "lRedisNew ip rd parse parse_db args w =
     (case CheckString ip args 1 of
        Inl e \<Rightarrow> (w, [], Inl e)
      | Inr s \<Rightarrow>
          (case parse s of
             Inl e \<Rightarrow> (w, [], Inl (LuaError (''unable to parse \"'' @ s @ ''\": '' @ e)))
           | Inr u \<Rightarrow>
               (case redis_options_of parse_db u of
                  Inl e \<Rightarrow> (w, [], Inl (LuaError e))
                | Inr opts \<Rightarrow>
                    (let (c, x) = rd_client rd opts (w_ext w);
                         (ob, w1) = new_protected ip [(''call'', FRedisCall)] [] (GRedis c) (w\<lparr>w_ext := x\<rparr>);
                         (r, w2) = new_resource ''*redis.Client'' (CloseHandle c) w1;
                         (ob2, w3) = attach ''close'' (NewCloser ip r c True) (ob, w2)
                     in (w3, [], Inr [obj_Value ob2])))))"

definition redis_body ::
    "('h, 'x) interp \<Rightarrow> unit go_env \<Rightarrow> 'x redis_api \<Rightarrow> handle \<Rightarrow> untyped list \<Rightarrow> lval \<Rightarrow> ('h, 'x) world body" where
  "redis_body ip env rd c args cb w =
     (case rd_do rd c args (w_ext w) of
        (res, x) \<Rightarrow>
          (w\<lparr>w_ext := x\<rparr>,
           [case res of
              Inl e \<Rightarrow> core_Lua ip cb [LString e]
            | Inr v \<Rightarrow>
                CallScoped (\<lambda>w1. give_result ip cb (go_Marshal env (in_api ip) v (os_heap (w_os w1))) w1)],
           None))"

text \<open>A client of another kind is a nil pointer, which panics after the arguments have been converted.\<close>

definition lCall ::
    "('h, 'x) interp \<Rightarrow> unit go_env \<Rightarrow> 'x redis_api \<Rightarrow> lval list \<Rightarrow> ('h, 'x) world \<Rightarrow> ('h, 'x) module_result" where
  "lCall ip env rd args w =
     (case self_value w args of
        Inl e \<Rightarrow> (w, [], Inl e)
      | Inr g \<Rightarrow>
          (case statement_args ip 2 args w of
             None \<Rightarrow> (w\<lparr>w_dead := True\<rparr>, [], Inl GoPanic)
           | Some (Inl e) \<Rightarrow> (w, [], Inl e)
           | Some (Inr vs) \<Rightarrow>
               (case g of
                  GRedis c \<Rightarrow> (w, [CallGo (redis_body ip env rd c vs (get_arg args (length args)))], Inr [])
                | _ \<Rightarrow> (w, [], Inl GoPanic))))"

subsection \<open>Properties\<close>

lemma begin_fn_value:
  assumes "begin_fn ip sq db w = (w1, Inr v)"
  shows "\<exists>a ob. v = LUserData a \<and> os_udata (w_os w1) a = UDObject ob"
proof -
  from assms obtain tx x where sq: "sq_begin sq db (w_ext w) = (Inr tx, x)"
    by (auto simp: begin_fn_def split: prod.splits sum.splits)
  obtain ob w2 where ob: "new_protected ip txFuncs [] (GTx db tx) (w\<lparr>w_ext := x\<rparr>) = (ob, w2)" by fastforce
  with assms sq have "w1 = w2" "v = LUserData (ob_userData ob)"
    by (auto simp: begin_fn_def obj_Value_def)
  with new_protected_value(1) [OF ob] show ?thesis by blast
qed

text \<open>
  transactions cannot be used.  Whatever value \<open>begin\<close> gave to its callback, each of its functions raises
  \<open>expected tx\<close>, because \<open>checkTx\<close> does not look behind the object; nothing can be committed or rolled back.
\<close>

theorem transactions_always_raise:
  assumes "begin_fn ip sq db w = (w1, Inr v)"
  shows "lTxQuery ip env sq (v # args) w1 = (w1, [], Inl (LuaError ''expected tx''))
    \<and> lTxExec ip sq (v # args) w1 = (w1, [], Inl (LuaError ''expected tx''))
    \<and> lTxCommit ip sq (v # args) w1 = (w1, [], Inl (LuaError ''expected tx''))
    \<and> lTxRollback ip sq (v # args) w1 = (w1, [], Inl (LuaError ''expected tx''))"
proof -
  from begin_fn_value [OF assms] have "checkTx w1 (v # args) = Inl (LuaError ''expected tx'')"
    by (auto simp: checkTx_def get_arg_def)
  then show ?thesis by (simp add: lTxQuery_def lTxExec_def lTxCommit_def lTxRollback_def on_handle_def)
qed

text \<open>A database that answers every query with one row of one column, and accepts everything.\<close>

definition one_row_sql :: "any \<Rightarrow> unit sql_api" where
  "one_row_sql v =
     \<lparr>sq_open = (\<lambda>d s x. (Inr 1, x)),
      sq_query = (\<lambda>db q vs x. (Inr \<lparr>rw_err = None, rw_cols = Inr [''name''], rw_rows = [Inr [v]], rw_close = None\<rparr>, x)),
      sq_exec = (\<lambda>db q vs x. (Inr \<lparr>xr_insert_id = Inr 0, xr_affected = Inr 0\<rparr>, x)),
      sq_begin = (\<lambda>db x. (Inr 2, x)), sq_commit = (\<lambda>tx x. (None, x)), sq_rollback = (\<lambda>tx x. (None, x))\<rparr>"

lemma transactions_always_raise_witness:
  "\<exists>w1 v. begin_fn toy_interp (one_row_sql None) 1 (toy_world ()) = (w1, Inr v)
     \<and> lTxCommit toy_interp (one_row_sql None) [v] w1 = (w1, [], Inl (LuaError ''expected tx''))"
proof -
  obtain ob w1 where "new_protected toy_interp txFuncs [] (GTx 1 2) ((toy_world ())\<lparr>w_ext := ()\<rparr>) = (ob, w1)"
    by fastforce
  then have b: "begin_fn toy_interp (one_row_sql None) 1 (toy_world ()) = (w1, Inr (obj_Value ob))"
    by (simp add: begin_fn_def one_row_sql_def)
  from transactions_always_raise [OF b, of toy_env "[]"] b show ?thesis by blast
qed

subsection \<open>Results that cannot be converted\<close>

lemma bytes_not_marshalled:
  "go_Marshal env api (Some (GSlice (GOther k), VSlice (x # xs))) h = Inl (CannotCast k)"
  by (simp add: go_Marshal_def marshalValue.simps split: prod.splits)

lemma MarshalMap_bytes:
  "(c, Some (GSlice (GOther k), VSlice (x # xs))) \<in> set m \<Longrightarrow>
     (\<And>c v h. (c, v) \<in> set m \<Longrightarrow> go_Marshal env api v h \<noteq> Inl (CannotCast k) \<Longrightarrow> \<exists>r. go_Marshal env api v h = Inr r) \<Longrightarrow>
     MarshalMap env api m h = Inl (CannotCast k)"
proof -
  assume c: "(c, Some (GSlice (GOther k), VSlice (x # xs))) \<in> set m"
    and others: "\<And>c v h. (c, v) \<in> set m \<Longrightarrow> go_Marshal env api v h \<noteq> Inl (CannotCast k) \<Longrightarrow> \<exists>r. go_Marshal env api v h = Inr r"
  have "marshal_map_entries env api a m h = Inl (CannotCast k)" for a h
    using c others
  proof (induction m arbitrary: h)
    case (Cons cv m)
    obtain c1 v where cv: "cv = (c1, v)" by fastforce
    show ?case
    proof (cases "go_Marshal env api v h = Inl (CannotCast k)")
      case False
      with Cons.prems(2) [of c1 v h] cv obtain lv h1 where r: "go_Marshal env api v h = Inr (lv, h1)" by fastforce
      with cv have "(c, Some (GSlice (GOther k), VSlice (x # xs))) \<in> set m"
        using Cons.prems(1) bytes_not_marshalled [of env api k x xs h] by auto
      moreover have "\<exists>r. go_Marshal env api v h = Inr r"
        if "(c, v) \<in> set m" "go_Marshal env api v h \<noteq> Inl (CannotCast k)" for c v h
        by (rule Cons.prems(2) [of c, OF _ that(2)]) (use that(1) in simp)
      ultimately show ?thesis using Cons.IH r cv by simp
    qed (simp add: cv)
  qed simp
  then show ?thesis by (simp add: MarshalMap_def split: prod.splits)
qed

text \<open>
  columns of bytes.  When a row of a query has a non-empty column that the driver gives as bytes, as MySQL's does for texts, and
  its other columns can be converted or are bytes as well, the callback gets an error instead of the rows.
\<close>

theorem byte_columns_fail:
  assumes "sq_query sq db q vs (w_ext w) = (Inr rs, x)" and "rw_err rs = None" and "rw_cols rs = Inr cols"
    and "scan_rows cols (rw_rows rs) = Inr (m # ms)"
    and "(c, Some (GSlice (GOther k), VSlice (y # ys))) \<in> set m"
    and "\<And>c v h. (c, v) \<in> set m \<Longrightarrow> go_Marshal env (in_api ip) v h \<noteq> Inl (CannotCast k) \<Longrightarrow>
           \<exists>r. go_Marshal env (in_api ip) v h = Inr r"
  shows "\<exists>cb. query_body ip env sq db q vs (LFunction f) w = (w\<lparr>w_ext := x\<rparr>, [cb], rw_close rs)
    \<and> (\<forall>w1. run_body cb w1 = in_invoke ip f [LString (k @ '' unable to be casted to lua'')] w1)"
proof -
  have "query_result ip env (LFunction f) (m # ms) w1 = in_invoke ip f [LString (k @ '' unable to be casted to lua'')] w1" for w1
    using MarshalMap_bytes [OF assms(5,6)]
    by (simp add: query_result_def give_result_def CallLuaFunction_def lua_function_def split: prod.splits)
  with assms(1-4) show ?thesis by (simp add: query_body_def)
qed

lemma byte_columns_fail_witness:
  "\<exists>cb. query_body toy_interp toy_env (one_row_sql (Some (GSlice (GOther ''uint8''), VSlice [VOther]))) 1 ''select'' [] (LFunction 5) (toy_world ())
       = (toy_world (), [cb], None)
     \<and> run_body cb (toy_world ()) = in_invoke toy_interp 5 [LString ''uint8 unable to be casted to lua''] (toy_world ())"
proof -
  let ?v = "Some (GSlice (GOther ''uint8''), VSlice [VOther]) :: any"
  have m: "scan_rows [''name''] [Inr [?v]] = Inr [[(''name'', ?v)]]" by (simp add: row_map_def)
  have "\<exists>cb. query_body toy_interp toy_env (one_row_sql ?v) 1 ''select'' [] (LFunction 5) (toy_world ())
       = ((toy_world ())\<lparr>w_ext := ()\<rparr>, [cb], rw_close \<lparr>rw_err = None, rw_cols = Inr [''name''], rw_rows = [Inr [?v]], rw_close = None\<rparr>)
     \<and> (\<forall>w1. run_body cb w1 = in_invoke toy_interp 5 [LString (''uint8'' @ '' unable to be casted to lua'')] w1)"
  proof (rule byte_columns_fail [where m = "[(''name'', ?v)]" and ms = "[]" and c = "''name''" and y = VOther and ys = "[]"])
    show "sq_query (one_row_sql ?v) 1 ''select'' [] (w_ext (toy_world ()))
        = (Inr \<lparr>rw_err = None, rw_cols = Inr [''name''], rw_rows = [Inr [?v]], rw_close = None\<rparr>, ())"
      by (simp add: one_row_sql_def)
    show "scan_rows [''name''] (rw_rows \<lparr>rw_err = None, rw_cols = Inr [''name''], rw_rows = [Inr [?v]], rw_close = None\<rparr>)
        = Inr [[(''name'', ?v)]]" using m by simp
  qed (auto simp: bytes_not_marshalled)
  then show ?thesis by (auto simp: toy_world_def)
qed

text \<open>A Redis reply that is a list, \<open>[]interface{}\<close> in Go, is not converted either.\<close>

lemma list_reply_fails:
  assumes "rd_do rd c vs (w_ext w) = (Inr (Some (GSlice (GOther ''interface''), VSlice (y # ys))), x)"
  shows "\<exists>cb. redis_body ip env rd c vs (LFunction f) w = (w\<lparr>w_ext := x\<rparr>, [cb], None)
    \<and> (\<forall>w1. run_body cb w1 = in_invoke ip f [LString ''interface unable to be casted to lua''] w1)"
  using assms by (simp add: redis_body_def give_result_def bytes_not_marshalled CallLuaFunction_def lua_function_def)

text \<open>A statement without a callback and arguments panics; with a callback missing its last argument is dropped.\<close>

lemma query_without_callback:
  "in_string ip q = Some s \<Longrightarrow> snd (snd (query ip env sq db [self, q] w)) = Inl GoPanic"
  by (simp add: query_def CheckString_def get_arg_def statement_args_def)

text \<open>The pool never knows the resource of a Redis client, so closing the context does not close it.\<close>

lemma redis_not_guarded:
  assumes "lRedisNew ip rd parse parse_db args w = (w1, cs, Inr vs)"
  shows "pl_cache (w_pool w1) = pl_cache (w_pool w) \<and> pl_nodes (w_pool w1) = pl_nodes (w_pool w)
    \<and> pl_tail (w_pool w1) = pl_tail (w_pool w)"
proof -
  from assms obtain c x ob v2 r v3 ob2 where
    n: "new_protected ip [(''call'', FRedisCall)] [] (GRedis c) (w\<lparr>w_ext := x\<rparr>) = (ob, v2)"
    and r: "new_resource ''*redis.Client'' (CloseHandle c) v2 = (r, v3)"
    and a: "attach ''close'' (NewCloser ip r c True) (ob, v3) = (ob2, w1)"
    by (auto simp: lRedisNew_def Let_def split: sum.splits prod.splits)
  have "w_pool (snd (attach ''close'' (NewCloser ip r c True) (ob, v3))) = w_pool v3"
    by (simp add: attach_frame New_frame)
  with a have "w_pool w1 = w_pool v3" by simp
  with new_protected_value(7) [OF n] r show ?thesis
    by (auto simp: new_resource_def NewResource_def Let_def)
qed

end
