(* ===== verification/Network.thy ===== *)
theory Network
  imports Stream
begin

text \<open>
  \<open>pkg/core/network\<close> and \<open>pkg/core/websocket\<close>: connections, clients, and servers whose goroutine accepts
  connections until it finds a message in the channel \<open>exit\<close>.  Listening, dialling, the websocket handshake and frames
  are \<open>net_api\<close>.  A server is known by its place in \<open>w_servers\<close>, a goroutine by its place in \<open>ns_loops\<close>.
\<close>

datatype opcode = OpText | OpBinary | OpOther

text \<open>A frame, and its payload with the mask applied.\<close>

record frame =
  fr_opcode :: opcode
  fr_masked :: bool
  fr_payload :: string
  fr_plain :: string

record 'x net_api =
  nt_listen :: "string \<Rightarrow> string \<Rightarrow> 'x \<Rightarrow> (string + handle) \<times> 'x"
  nt_dial :: "string \<Rightarrow> string \<Rightarrow> 'x \<Rightarrow> (string + handle) \<times> 'x"
  nt_remote :: "handle \<Rightarrow> string"
  nt_ws_dial :: "handle \<Rightarrow> string \<Rightarrow> 'x \<Rightarrow> string option \<times> 'x"
  nt_ws_accept :: "handle \<Rightarrow> 'x \<Rightarrow> string option \<times> 'x"
  nt_read_frame :: "handle \<Rightarrow> 'x \<Rightarrow> (string + frame) \<times> 'x"
  nt_write_frame :: "handle \<Rightarrow> string \<Rightarrow> 'x \<Rightarrow> string option \<times> 'x"

subsection \<open>Connections\<close>

text \<open>\<open>newConn\<close> of the two modules: they differ in the functions and in what the resource does on an error.\<close>

definition newConn :: "('h, 'x) interp \<Rightarrow> 'x net_api \<Rightarrow> handle \<Rightarrow> ('h, 'x) world \<Rightarrow> go_val object \<times> ('h, 'x) world" where
  "newConn ip nt c w =
     (let (ob, w1) = new_protected ip [] [(''remote_addr'', LString (nt_remote nt c))] (GNetConn c) w;
          (r, w2) = new_resource ''net.Conn'' (CloseHandle c) w1;
          s = attach ''write'' (NewWriter ip c True) (ob, Guard r w2);
          s1 = attach ''read'' (NewReader ip c True) s
      in attach ''close'' (NewCloser ip r c True) s1)"

definition ws_connFuncs :: "(string \<times> go_fn) list" where
  "ws_connFuncs = [(''read_frame'', FReadFrame), (''write_frame'', FWriteFrame)]"

definition ws_newConn ::
    "('h, 'x) interp \<Rightarrow> 'x net_api \<Rightarrow> handle \<Rightarrow> bool \<Rightarrow> ('h, 'x) world \<Rightarrow> go_val object \<times> ('h, 'x) world" where
  "ws_newConn ip nt c client w =
     (let (ob, w1) = new_protected ip ws_connFuncs [(''remote_addr'', LString (nt_remote nt c))] (GWsConn c client) w;
          (r, w2) = new_resource ''net.Conn'' (CloseOrPanic c) w1
      in attach ''close'' (NewCloser ip r c True) (ob, Guard r w2))"

subsection \<open>Clients\<close>

definition dial_fn ::
    "('h, 'x) interp \<Rightarrow> 'x net_api \<Rightarrow> string \<Rightarrow> string \<Rightarrow> ('h, 'x) world \<Rightarrow> ('h, 'x) world \<times> (string + lval)" where
  "dial_fn ip nt network addr w =
     (case nt_dial nt network addr (w_ext w) of
        (Inl e, x) \<Rightarrow> (w\<lparr>w_ext := x\<rparr>, Inl e)
      | (Inr c, x) \<Rightarrow> (let (ob, w1) = newConn ip nt c (w\<lparr>w_ext := x\<rparr>) in (w1, Inr (obj_Value ob))))"

definition lDial :: "('h, 'x) interp \<Rightarrow> 'x net_api \<Rightarrow> lval list \<Rightarrow> ('h, 'x) world \<Rightarrow> ('h, 'x) module_result" where
  "lDial ip nt args w =
     (case Check 1 2 args [param_String [], param_String [], param_Table []] of
        Inl e \<Rightarrow> (w, [], Inl (BadArgs e))
      | Inr (cb, ps) \<Rightarrow>
          (w, [callback_call ip cb (dial_fn ip nt (par_string (ps ! 0)) (par_string (ps ! 1)))], Inr []))"

text \<open>The scheme and host of a websocket address are Go's \<open>url.Parse\<close>.\<close>

definition ws_dial_fn ::
    "('h, 'x) interp \<Rightarrow> 'x net_api \<Rightarrow> string \<Rightarrow> string \<Rightarrow> ('h, 'x) world \<Rightarrow> ('h, 'x) world \<times> (string + lval)" where
  "ws_dial_fn ip nt host addr w =
     (case nt_dial nt ''tcp'' host (w_ext w) of
        (Inl e, x) \<Rightarrow> (w\<lparr>w_ext := x\<rparr>, Inl e)
      | (Inr c, x) \<Rightarrow>
          (case nt_ws_dial nt c addr x of
             (Some e, y) \<Rightarrow> (w\<lparr>w_ext := y\<rparr>, Inl e)
           | (None, y) \<Rightarrow>
               (let (ob, w1) = ws_newConn ip nt c True (w\<lparr>w_ext := y\<rparr>) in (w1, Inr (obj_Value ob)))))"

definition ws_lDial ::
    "('h, 'x) interp \<Rightarrow> 'x net_api \<Rightarrow> (string \<Rightarrow> string + (string \<times> string)) \<Rightarrow> lval list \<Rightarrow> ('h, 'x) world \<Rightarrow>
     ('h, 'x) module_result" where
  "ws_lDial ip nt parse args w =
     (case Check 1 1 args [param_String [], param_Table []] of
        Inl e \<Rightarrow> (w, [], Inl (BadArgs e))
      | Inr (cb, ps) \<Rightarrow>
          (case parse (par_string (ps ! 0)) of
             Inl e \<Rightarrow> (w, [], Inl (LuaError e))
           | Inr (scheme, host) \<Rightarrow>
               if scheme \<noteq> ''ws'' then (w, [], Inl (LuaError ''only ws:// protocol is supported''))
               else (w, [callback_call ip cb (ws_dial_fn ip nt host (par_string (ps ! 0)))], Inr [])))"

subsection \<open>Frames\<close>

text \<open>
  The goroutine of \<open>read_frame\<close> reads until it has a text frame: it answers binary frames and skips others, for
  ever if need be (\<open>None\<close>).
\<close>

partial_function (option) read_text :: "'x net_api \<Rightarrow> handle \<Rightarrow> 'x \<Rightarrow> ((string + frame) \<times> 'x) option" where
  "read_text nt c x =
     (case nt_read_frame nt c x of
        (Inl e, y) \<Rightarrow> Some (Inl e, y)
      | (Inr f, y) \<Rightarrow>
          if fr_opcode f = OpBinary then read_text nt c (snd (nt_write_frame nt c ''binary frame is not supported'' y))
          else if fr_opcode f \<noteq> OpText then read_text nt c y
          else Some (Inr f, y))"

definition frame_text :: "frame \<Rightarrow> string" where
  "frame_text f = (if fr_masked f then fr_plain f else fr_payload f)"

definition checkWsConn :: "('h, 'x) world \<Rightarrow> lval list \<Rightarrow> lua_fail + handle" where
  "checkWsConn w args =
     (case self_value w args of Inl e \<Rightarrow> Inl e | Inr g \<Rightarrow> (case g of GWsConn c b \<Rightarrow> Inr c | _ \<Rightarrow> Inl GoPanic))"

text \<open>What the goroutine hands over in the end; it does not run on a worker of the context.\<close>

definition read_frame_go ::
    "('h, 'x) interp \<Rightarrow> 'x net_api \<Rightarrow> handle \<Rightarrow> lval \<Rightarrow> ('h, 'x) world \<Rightarrow> (('h, 'x) world \<times> ('h, 'x) world call) option" where
  "read_frame_go ip nt c cb w =
     map_option (\<lambda>(res, x). (w\<lparr>w_ext := x\<rparr>,
         case res of Inl e \<Rightarrow> core_Lua ip cb [LString e] | Inr f \<Rightarrow> core_Lua ip cb [LNil, LString (frame_text f)]))
       (read_text nt c (w_ext w))"

text \<open>\<open>read_frame\<close>: the goroutine that it starts, with its connection and callback.\<close>

definition lConnReadFrame :: "lval list \<Rightarrow> ('h, 'x) world \<Rightarrow> lua_fail + (handle \<times> lval)" where
  "lConnReadFrame args w = map_sum id (\<lambda>c. (c, get_arg args 2)) (checkWsConn w args)"

definition write_frame_fn ::
    "'x net_api \<Rightarrow> handle \<Rightarrow> string \<Rightarrow> ('h, 'x) world \<Rightarrow> ('h, 'x) world \<times> (string + lval)" where
  "write_frame_fn nt c body w =
     (case nt_write_frame nt c body (w_ext w) of
        (err, x) \<Rightarrow> (w\<lparr>w_ext := x\<rparr>, case err of Some e \<Rightarrow> Inl e | None \<Rightarrow> Inr LNil))"

definition lConnWriteFrame :: "('h, 'x) interp \<Rightarrow> 'x net_api \<Rightarrow> lval list \<Rightarrow> ('h, 'x) world \<Rightarrow> ('h, 'x) module_result" where
  "lConnWriteFrame ip nt args w =
     (case checkWsConn w args of
        Inl e \<Rightarrow> (w, [], Inl e)
      | Inr c \<Rightarrow>
          (case CheckString ip args 2 of
             Inl e \<Rightarrow> (w, [], Inl e)
           | Inr body \<Rightarrow> (w, [callback_call ip (get_arg args 3) (write_frame_fn nt c body)], Inr [])))"

subsection \<open>Servers\<close>

definition new_server :: "string \<Rightarrow> string \<Rightarrow> addr \<Rightarrow> net_server" where
  "new_server network addr f = \<lparr>ns_network = network, ns_addr = addr, ns_handler = f, ns_exit = None, ns_loops = []\<rparr>"

definition push_server ::
    "('h, 'x) interp \<Rightarrow> (string \<times> go_fn) list \<Rightarrow> net_server \<Rightarrow> ('h, 'x) world \<Rightarrow> ('h, 'x) module_result" where
  "push_server ip funcs s w =
     (let (ob, w1) = new_protected ip funcs [] (GServer (length (w_servers w))) (w\<lparr>w_servers := w_servers w @ [s]\<rparr>)
      in (w1, [], Inr [obj_Value ob]))"

definition lCreateServer :: "('h, 'x) interp \<Rightarrow> lval list \<Rightarrow> ('h, 'x) world \<Rightarrow> ('h, 'x) module_result" where
  "lCreateServer ip args w =
     (case CheckString ip args 1 of
        Inl e \<Rightarrow> (w, [], Inl e)
      | Inr network \<Rightarrow>
          (case CheckString ip args 2 of
             Inl e \<Rightarrow> (w, [], Inl e)
           | Inr addr \<Rightarrow>
               (case CheckFunction args 3 of
                  Inl e \<Rightarrow> (w, [], Inl e)
                | Inr f \<Rightarrow> push_server ip [(''start'', FNetStart), (''stop'', FNetStop)] (new_server network addr f) w)))"

definition ws_lCreateServer :: "('h, 'x) interp \<Rightarrow> lval list \<Rightarrow> ('h, 'x) world \<Rightarrow> ('h, 'x) module_result" where
  "ws_lCreateServer ip args w =
     (case CheckString ip args 1 of
        Inl e \<Rightarrow> (w, [], Inl e)
      | Inr addr \<Rightarrow>
          (case CheckFunction args 2 of
             Inl e \<Rightarrow> (w, [], Inl e)
           | Inr f \<Rightarrow> push_server ip [(''start'', FWsStart), (''stop'', FWsStop)] (new_server ''tcp'' addr f) w))"

definition checkServer :: "('h, 'x) world \<Rightarrow> lval list \<Rightarrow> lua_fail + nat" where
  "checkServer w args =
     (case self_value w args of Inl e \<Rightarrow> Inl e | Inr g \<Rightarrow> (case g of GServer k \<Rightarrow> Inr k | _ \<Rightarrow> Inl GoPanic))"

text \<open>
  The start: in module network it makes the channel before it starts the goroutine; in module websocket the channel
  is never made.
\<close>

definition server_started :: "bool \<Rightarrow> handle \<Rightarrow> net_server \<Rightarrow> net_server" where
  "server_started makes_exit lis s =
     s\<lparr>ns_exit := (if makes_exit then Some (make_chan 1) else ns_exit s), ns_loops := ns_loops s @ [LoopTop lis]\<rparr>"

definition start_fn ::
    "'x net_api \<Rightarrow> bool \<Rightarrow> nat \<Rightarrow> ('h, 'x) world \<Rightarrow> ('h, 'x) world \<times> (string + lval)" where
  "start_fn nt makes_exit k w =
     (let s = w_servers w ! k in
      case nt_listen nt (ns_network s) (ns_addr s) (w_ext w) of
        (Inl e, x) \<Rightarrow> (w\<lparr>w_ext := x\<rparr>, Inl e)
      | (Inr lis, x) \<Rightarrow>
          (w\<lparr>w_ext := x, w_servers := (w_servers w)[k := server_started makes_exit lis s]\<rparr>, Inr LNil))"

definition lServerStart ::
    "('h, 'x) interp \<Rightarrow> 'x net_api \<Rightarrow> bool \<Rightarrow> lval list \<Rightarrow> ('h, 'x) world \<Rightarrow> ('h, 'x) module_result" where
  "lServerStart ip nt makes_exit args w =
     (case checkServer w args of
        Inl e \<Rightarrow> (w, [], Inl e)
      | Inr k \<Rightarrow> (w, [callback_call ip (get_arg args 2) (start_fn nt makes_exit k)], Inr []))"

text \<open>\<open>server.exit <- struct{}{}\<close>: it blocks on a nil channel, for ever, and on a full one.\<close>

definition server_stop :: "net_server \<Rightarrow> net_server option" where
  "server_stop s =
     (case ns_exit s of
        None \<Rightarrow> None
      | Some c \<Rightarrow> (case chan_put () c of None \<Rightarrow> None | Some d \<Rightarrow> Some (s\<lparr>ns_exit := Some d\<rparr>)))"

definition lServerStop :: "lval list \<Rightarrow> ('h, 'x) world \<Rightarrow> ('h, 'x) module_result option" where
  "lServerStop args w =
     (case checkServer w args of
        Inl e \<Rightarrow> Some (w, [], Inl e)
      | Inr k \<Rightarrow>
          map_option (\<lambda>s. (w\<lparr>w_servers := (w_servers w)[k := s]\<rparr>, [], Inr [])) (server_stop (w_servers w ! k)))"

text \<open>The goroutine: the select at the top, with the default case on a nil or empty channel, and what follows \<open>Accept\<close>.\<close>

definition loop_select :: "nat \<Rightarrow> net_server \<Rightarrow> net_server option" where
  "loop_select j s =
     (if j < length (ns_loops s)
      then (case ns_loops s ! j of
              LoopTop lis \<Rightarrow>
                (case Option.bind (ns_exit s) chan_get of
                   Some (u, c) \<Rightarrow> Some (s\<lparr>ns_exit := Some c, ns_loops := (ns_loops s)[j := LoopEnded]\<rparr>)
                 | None \<Rightarrow> Some (s\<lparr>ns_loops := (ns_loops s)[j := Accepting lis]\<rparr>))
            | _ \<Rightarrow> None)
      else None)"

definition loop_accepted :: "nat \<Rightarrow> bool \<Rightarrow> net_server \<Rightarrow> net_server option" where
  "loop_accepted j good s =
     (if j < length (ns_loops s)
      then (case ns_loops s ! j of
              Accepting lis \<Rightarrow> Some (s\<lparr>ns_loops := (ns_loops s)[j := if good then LoopTop lis else LoopEnded]\<rparr>)
            | _ \<Rightarrow> None)
      else None)"

text \<open>The calls the goroutine hands over after \<open>Accept\<close>, and the upgrade in module websocket.\<close>

definition accept_go ::
    "('h, 'x) interp \<Rightarrow> 'x net_api \<Rightarrow> nat \<Rightarrow> nat \<Rightarrow> string + handle \<Rightarrow> ('h, 'x) world \<Rightarrow>
     (('h, 'x) world \<times> ('h, 'x) world call) option" where
  "accept_go ip nt k j res w =
     (case loop_accepted j (\<exists>c. res = Inr c) (w_servers w ! k) of
        None \<Rightarrow> None
      | Some s \<Rightarrow>
          (let w1 = w\<lparr>w_servers := (w_servers w)[k := s]\<rparr> in
           Some (case res of
                   Inl e \<Rightarrow> (w1, RaiseError (''unable to accept connection: '' @ e))
                 | Inr c \<Rightarrow>
                     (let (ob, w2) = newConn ip nt c w1
                      in (w2, core_Lua ip (LFunction (ns_handler s)) [obj_Value ob])))))"

definition ws_accept_go ::
    "('h, 'x) interp \<Rightarrow> 'x net_api \<Rightarrow> nat \<Rightarrow> nat \<Rightarrow> string + handle \<Rightarrow> ('h, 'x) world \<Rightarrow>
     (('h, 'x) world \<times> ('h, 'x) world call) option" where
  "ws_accept_go ip nt k j res w =
     (case res of
        Inl e \<Rightarrow>
          map_option (\<lambda>s. (w\<lparr>w_servers := (w_servers w)[k := s]\<rparr>, RaiseError (''unable to accept connection: '' @ e)))
            (loop_accepted j False (w_servers w ! k))
      | Inr c \<Rightarrow>
          (case nt_ws_accept nt c (w_ext w) of
             (Some e, x) \<Rightarrow>
               map_option (\<lambda>s. (w\<lparr>w_ext := x, w_servers := (w_servers w)[k := s]\<rparr>,
                                RaiseError (''unable to upgrade connection: '' @ e)))
                 (loop_accepted j False (w_servers w ! k))
           | (None, x) \<Rightarrow>
               map_option (\<lambda>s. let (ob, w1) = ws_newConn ip nt c False
                                                (w\<lparr>w_ext := x, w_servers := (w_servers w)[k := s]\<rparr>)
                               in (w1, core_Lua ip (LFunction (ns_handler s)) [obj_Value ob]))
                 (loop_accepted j True (w_servers w ! k))))"

subsection \<open>Runs of one server\<close>

datatype server_event = SvStart handle | SvStop | SvSelect nat | SvAccept nat bool

fun server_step :: "bool \<Rightarrow> server_event \<Rightarrow> net_server \<Rightarrow> net_server option" where
  "server_step makes_exit (SvStart lis) s = Some (server_started makes_exit lis s)"
| "server_step makes_exit SvStop s = server_stop s"
| "server_step makes_exit (SvSelect j) s = loop_select j s"
| "server_step makes_exit (SvAccept j good) s = loop_accepted j good s"
















subsection \<open>Properties\<close>



lemma ws_exit_None: "run_events (server_step False) es s = Some t \<Longrightarrow> ns_exit s = None \<Longrightarrow> ns_exit t = None"
  by (rule run_events_inv [where I = "\<lambda>s. ns_exit s = None"])
    (auto simp: server_started_def server_stop_def loop_select_def loop_accepted_def
      elim!: server_step.elims split: option.splits if_splits accept_loop.splits)

text \<open>
  a websocket server cannot be stopped.  Its channel \<open>exit\<close> is never made, so \<open>stop\<close> blocks on the nil
  channel for ever, and with it the script and every callback, whatever the server has done before and does afterwards.
\<close>

theorem websocket_stop_blocks:
  assumes "w_servers w ! k = new_server ''tcp'' addr f" and "k < length (w_servers w)"
    and "run_events (server_step False) es (w_servers w ! k) = Some s"
    and "checkServer w1 args = Inr k" and "w_servers w1 = (w_servers w)[k := s]"
  shows "lServerStop args w1 = None"
proof -
  from ws_exit_None [OF assms(3)] assms(1) have "ns_exit s = None" by (simp add: new_server_def)
  with assms(2,4,5) show ?thesis by (simp add: lServerStop_def server_stop_def)
qed

lemma websocket_stop_blocks_witness:
  "\<exists>w :: (unit alist_heap, unit) world. checkServer w [LUserData 0] = Inr 0 \<and> lServerStop [LUserData 0] w = None"
proof -
  let ?new = "new_server ''tcp'' ''a'' 1"
  let ?s = "?new\<lparr>ns_loops := [Accepting 3]\<rparr>"
  let ?ob = "\<lparr>ob_methods = Map.empty, ob_properties = [], ob_table = Some 0, ob_go = GServer 0, ob_readonly = False,
               ob_protected = True, ob_userData = 0\<rparr> :: go_val object"
  let ?before = "(toy_world ())\<lparr>w_servers := [?new]\<rparr>"
  let ?now = "?before\<lparr>w_servers := [?s], w_os := (w_os ?before)\<lparr>os_udata := (\<lambda>_. UDObject ?ob)\<rparr>\<rparr>"
  have r: "run_events (server_step False) [SvStart 3, SvSelect 0] (w_servers ?before ! 0) = Some ?s"
    by (simp add: new_server_def server_started_def loop_select_def)
  have c: "checkServer ?now [LUserData 0] = Inr 0"
    by (simp add: checkServer_def self_value_def get_arg_def object_GoValue_def object_Get_def)
  have "lServerStop [LUserData 0] ?now = None"
    by (rule websocket_stop_blocks [where addr = "''a''" and f = 1, OF _ _ r c]) simp_all
  with c show ?thesis by blast
qed

text \<open>
  a websocket connection that is closed too early ends the process.  When a script dials and closes the connection before the
  pool's goroutine has linked its resource, closing the context closes the connection again, and the release callback
  panics on the error that a second close gives.
\<close>

theorem websocket_early_close_panics:
  assumes "w_pool w = NewResourcePool n" and "0 < n"
    and "nt_dial nt ''tcp'' host (w_ext w) = (Inr c, x)" and "nt_ws_dial nt c addr x = (None, y)"
    and "io_close io c (snd (io_close io c y)) = (Some e, z)"
  shows "\<exists>w1 v p w2. ws_dial_fn ip nt host addr w = (w1, Inr v)
    \<and> pool_goroutine (w_pool (fst (close_fn io c 0 w1))) = Some p
    \<and> context_close io ((fst (close_fn io c 0 w1))\<lparr>w_pool := p\<rparr>) = Some w2 \<and> w_dead w2"
proof -
  obtain ob w0 where ob: "new_protected ip ws_connFuncs [(''remote_addr'', LString (nt_remote nt c))] (GWsConn c True)
      (w\<lparr>w_ext := y\<rparr>) = (ob, w0)" by fastforce
  obtain r v0 where new: "new_resource ''net.Conn'' (CloseOrPanic c) w0 = (r, v0)" by fastforce
  have pool: "w_pool w0 = NewResourcePool n" "w_ext w0 = y" using new_protected_value [OF ob] assms(1) by simp_all
  note g = guarded_fresh [OF pool(1) assms(2) new]
  let ?s = "attach ''close'' (NewCloser ip r c True) (ob, Guard r v0)"
  have w1: "ws_dial_fn ip nt host addr w = (snd ?s, Inr (obj_Value (fst ?s)))"
    using assms(3,4) ob new by (simp add: ws_dial_fn_def ws_newConn_def Let_def case_prod_beta)
  have a: "w_pool (snd ?s) = w_pool (Guard r v0)" "w_ext (snd ?s) = y" "w_release (snd ?s) r = CloseOrPanic c"
    by (simp_all add: attach_frame New_frame g(3,5,6) g(4) pool(2) del: g(1))
  let ?w2 = "fst (close_fn io c 0 (snd ?s))"
  have w2: "w_pool ?w2 = w_pool (Guard r v0)" "w_release ?w2 r = CloseOrPanic c" "w_ext ?w2 = snd (io_close io c y)"
    using a g(1) closed_before_link(1) [OF pool(1) assms(2) new a(1,3)]
    by (simp_all add: close_fn_def split: prod.splits)
  from closed_before_link(2) [OF pool(1) assms(2) new w2(1,2), of io] obtain p q where
    "pool_goroutine (w_pool ?w2) = Some p"
    "context_close io (?w2\<lparr>w_pool := p\<rparr>) = Some (run_release io (CloseOrPanic c) (?w2\<lparr>w_pool := q\<rparr>))" by blast
  moreover have "w_dead (run_release io (CloseOrPanic c) (?w2\<lparr>w_pool := q\<rparr>))"
    using w2(3) assms(5) by (simp add: run_release_def)
  ultimately show ?thesis using w1 by blast
qed

text \<open>A network whose state lists the closed connections; closing one again is an error.\<close>

definition one_peer :: "handle list net_api" where
  "one_peer =
     \<lparr>nt_listen = (\<lambda>n a x. (Inr 9, x)), nt_dial = (\<lambda>n a x. (Inr 4, x)), nt_remote = (\<lambda>c. ''peer''),
      nt_ws_dial = (\<lambda>c a x. (None, x)), nt_ws_accept = (\<lambda>c x. (None, x)),
      nt_read_frame = (\<lambda>c x. (Inl ''closed'', x)), nt_write_frame = (\<lambda>c b x. (None, x))\<rparr>"

definition closing_io :: "handle list io_api" where
  "closing_io =
     \<lparr>io_read = (\<lambda>c b x. ((b, 0, Some EOF), x)), io_write = (\<lambda>c b x. ((int (length b), None), x)),
      io_close = (\<lambda>c x. if c \<in> set x then (Some ''use of closed network connection'', x) else (None, c # x))\<rparr>"

lemma websocket_early_close_panics_witness:
  "\<exists>w1 v p w2. ws_dial_fn toy_interp one_peer ''h'' ''ws://h'' (toy_world []) = (w1, Inr v)
    \<and> context_close closing_io ((fst (close_fn closing_io 4 0 w1))\<lparr>w_pool := p\<rparr>) = Some w2 \<and> w_dead w2"
proof -
  have "w_pool (toy_world ([]::handle list)) = NewResourcePool 64" by (simp add: toy_world_def)
  moreover have "nt_dial one_peer ''tcp'' ''h'' (w_ext (toy_world [])) = (Inr 4, [])"
    by (simp add: one_peer_def toy_world_def)
  moreover have "nt_ws_dial one_peer 4 ''ws://h'' [] = (None, [])" by (simp add: one_peer_def)
  moreover have "io_close closing_io 4 (snd (io_close closing_io 4 [])) = (Some ''use of closed network connection'', [4])"
    by (simp add: closing_io_def)
  ultimately show ?thesis
    using websocket_early_close_panics [of "toy_world []" 64 one_peer "''h''" 4 "[]" "''ws://h''" "[]" closing_io
        "''use of closed network connection''" "[4]" toy_interp] by auto
qed

end
