(* ===== verification/Http.thy ===== *)
theory Http
  imports Stream Marshal "HOL-Library.Sublist"
begin

text \<open>
  \<open>pkg/core/http\<close>: the client \<open>http.request\<close>, the objects of requests, responses and response writers, and servers.
  Go's \<open>net/http\<close> is \<open>http_api\<close>; a request that a server received runs on a goroutine of its own, which hands the
  handler to the context and waits on the channel \<open>finish\<close>.
\<close>

type_synonym headers = "(string \<times> string) list"

record out_request =
  oq_method :: string
  oq_url :: string
  oq_body :: "string option"
  oq_headers :: headers

record in_response =
  ip_body :: handle
  ip_status_code :: int
  ip_status :: string
  ip_headers :: headers

record in_request =
  iq_body :: handle
  iq_uri :: string
  iq_url :: string
  iq_method :: string
  iq_headers :: headers

record 'x http_api =
  ht_check :: "string \<Rightarrow> string \<Rightarrow> string option"
  ht_do :: "out_request \<Rightarrow> 'x \<Rightarrow> (string + in_response) \<times> 'x"
  ht_new_server :: "'x \<Rightarrow> handle \<times> 'x"
  ht_listen :: "string \<Rightarrow> string \<Rightarrow> 'x \<Rightarrow> (string + handle) \<times> 'x"
  ht_write_header :: "handle \<Rightarrow> int \<Rightarrow> 'x \<Rightarrow> 'x option"
  ht_header_set :: "handle \<Rightarrow> string \<Rightarrow> string \<Rightarrow> 'x \<Rightarrow> 'x"
  ht_header_get :: "handle \<Rightarrow> string \<Rightarrow> 'x \<Rightarrow> string"

subsection \<open>Objects\<close>

text \<open>\<open>helpers.MustMarshal(L, headers)\<close> for a map of strings.\<close>

definition marshal_headers ::
    "('h, 'x) interp \<Rightarrow> unit go_env \<Rightarrow> headers \<Rightarrow> ('h, 'x) world \<Rightarrow> lval \<times> ('h, 'x) world" where
  "marshal_headers ip env hs w =
     (case go_Marshal env (in_api ip) (Some (GMap GString GString, VMap (Some (map (\<lambda>(k, v). (VString k, VString v)) hs))))
             (os_heap (w_os w)) of
        Inl e \<Rightarrow> (LNil, w)
      | Inr (v, h) \<Rightarrow> (v, w\<lparr>w_os := (w_os w)\<lparr>os_heap := h\<rparr>\<rparr>))"

text \<open>The headers are strings, so the conversion does not fail.\<close>

lemma marshal_string_entries:
  "\<exists>h'. marshal_entries env api GString GString a (map (\<lambda>(k, v). (VString k, VString v)) hs) tags h = Inr h'"
  by (induction hs arbitrary: h) (auto simp: marshalValue.simps)

lemma headers_marshal:
  "\<exists>v h'. go_Marshal env api (Some (GMap GString GString, VMap (Some (map (\<lambda>(k, v). (VString k, VString v)) hs)))) h
     = Inr (v, h')"
proof -
  obtain a h1 where n: "la_new_table api h = (a, h1)" by fastforce
  obtain h' where "marshal_entries env api GString GString a (map (\<lambda>(k, v). (VString k, VString v)) hs) [] h1 = Inr h'"
    using marshal_string_entries [of env api a hs "[]" h1] by blast
  with n show ?thesis by (simp add: go_Marshal_def marshalValue.simps)
qed

text \<open>The Go value of these objects is itself user data, which holds the request or response.\<close>

definition boxed ::
    "('h, 'x) interp \<Rightarrow> (string \<times> lval) list \<Rightarrow> go_val \<Rightarrow> ('h, 'x) world \<Rightarrow> go_val object \<times> ('h, 'x) world" where
  "boxed ip props g w =
     (let (ud, s) = new_udata (in_api ip) g (w_os w) in new_protected ip [] props (GUserData ud) (w\<lparr>w_os := s\<rparr>))"

definition NewRequest ::
    "('h, 'x) interp \<Rightarrow> unit go_env \<Rightarrow> in_request \<Rightarrow> rref \<Rightarrow> ('h, 'x) world \<Rightarrow> go_val object \<times> ('h, 'x) world" where
  "NewRequest ip env q r w =
     (let (hs, w1) = marshal_headers ip env (iq_headers q) w;
          s = boxed ip [(''headers'', hs), (''request_uri'', LString (iq_uri q)), (''url'', LString (iq_url q)),
                        (''method'', LString (iq_method q))] (GHttpRequest (iq_body q)) w1;
          s1 = attach ''read'' (NewReader ip (iq_body q) True) s
      in attach ''close'' (NewCloser ip r (iq_body q) True) s1)"

definition NewResponse ::
    "('h, 'x) interp \<Rightarrow> unit go_env \<Rightarrow> in_response \<Rightarrow> rref \<Rightarrow> ('h, 'x) world \<Rightarrow> go_val object \<times> ('h, 'x) world" where
  "NewResponse ip env p r w =
     (let (hs, w1) = marshal_headers ip env (ip_headers p) w;
          s = boxed ip [(''headers'', hs), (''status_code'', int_value (ip_status_code p)),
                        (''status'', LString (ip_status p))] (GHttpResponse (ip_body p)) w1;
          s1 = attach ''read'' (NewReader ip (ip_body p) True) s
      in attach ''close'' (NewCloser ip r (ip_body p) True) s1)"

definition responseWriterFuncs :: "(string \<times> go_fn) list" where
  "responseWriterFuncs =
     [(''set_status'', FSetStatus), (''set'', FSetHeader), (''get'', FGetHeader), (''finish'', FFinish)]"

definition NewResponseWriter ::
    "('h, 'x) interp \<Rightarrow> handle \<Rightarrow> nat \<Rightarrow> ('h, 'x) world \<Rightarrow> go_val object \<times> ('h, 'x) world" where
  "NewResponseWriter ip wr ch w =
     attach ''write'' (NewWriter ip wr True) (new_protected ip responseWriterFuncs [] (GResponseWriter wr ch) w)"

definition checkResponseWriter :: "('h, 'x) world \<Rightarrow> lval list \<Rightarrow> lua_fail + (handle \<times> nat)" where
  "checkResponseWriter w args =
     (case self_value w args of
        Inl e \<Rightarrow> Inl e | Inr g \<Rightarrow> (case g of GResponseWriter wr ch \<Rightarrow> Inr (wr, ch) | _ \<Rightarrow> Inl GoPanic))"

definition lResponseWriterSetStatus ::
    "('h, 'x) interp \<Rightarrow> 'x http_api \<Rightarrow> lval list \<Rightarrow> ('h, 'x) world \<Rightarrow> ('h, 'x) module_result" where
  "lResponseWriterSetStatus ip ht args w =
     (case checkResponseWriter w args of
        Inl e \<Rightarrow> (w, [], Inl e)
      | Inr (wr, ch) \<Rightarrow>
          (case CheckNumber ip args 2 of
             Inl e \<Rightarrow> (w, [], Inl e)
           | Inr x \<Rightarrow>
               (case ht_write_header ht wr (in_int ip x) (w_ext w) of
                  None \<Rightarrow> (w, [], Inl GoPanic)
                | Some y \<Rightarrow> (w\<lparr>w_ext := y\<rparr>, [], Inr []))))"

definition lResponseWriterSet ::
    "('h, 'x) interp \<Rightarrow> 'x http_api \<Rightarrow> lval list \<Rightarrow> ('h, 'x) world \<Rightarrow> ('h, 'x) module_result" where
  "lResponseWriterSet ip ht args w =
     (case checkResponseWriter w args of
        Inl e \<Rightarrow> (w, [], Inl e)
      | Inr (wr, ch) \<Rightarrow>
          (case CheckString ip args 2 of
             Inl e \<Rightarrow> (w, [], Inl e)
           | Inr k \<Rightarrow>
               (case CheckString ip args 3 of
                  Inl e \<Rightarrow> (w, [], Inl e)
                | Inr v \<Rightarrow> (w\<lparr>w_ext := ht_header_set ht wr k v (w_ext w)\<rparr>, [], Inr []))))"

definition lResponseWriterGet ::
    "('h, 'x) interp \<Rightarrow> 'x http_api \<Rightarrow> lval list \<Rightarrow> ('h, 'x) world \<Rightarrow> ('h, 'x) module_result" where
  "lResponseWriterGet ip ht args w =
     (case checkResponseWriter w args of
        Inl e \<Rightarrow> (w, [], Inl e)
      | Inr (wr, ch) \<Rightarrow>
          (w, [], map_sum id (\<lambda>k. [LString (ht_header_get ht wr k (w_ext w))]) (CheckString ip args 2)))"

definition lResponseWriterFinish :: "lval list \<Rightarrow> ('h, 'x) world \<Rightarrow> ('h, 'x) module_result" where
  "lResponseWriterFinish args w =
     (case checkResponseWriter w args of
        Inl e \<Rightarrow> (w, [], Inl e) | Inr (wr, ch) \<Rightarrow> (send_finish ch None w, [], Inr []))"

subsection \<open>The client\<close>

text \<open>The body and the headers of the table of options.\<close>

definition option_body :: "('h, 'x) interp \<Rightarrow> 'h \<Rightarrow> addr \<Rightarrow> string option" where
  "option_body ip h t = (case la_get (in_api ip) h t (LString ''body'') of LString s \<Rightarrow> Some s | _ \<Rightarrow> None)"

definition option_headers :: "('h, 'x) interp \<Rightarrow> 'h \<Rightarrow> addr \<Rightarrow> headers" where
  "option_headers ip h t =
     (case la_get (in_api ip) h t (LString ''headers'') of
        LTable a \<Rightarrow> map (\<lambda>(k, v). (la_tostring (in_api ip) k, la_tostring (in_api ip) v)) (la_entries (in_api ip) h a)
      | _ \<Rightarrow> [])"

definition request_of ::
    "('h, 'x) interp \<Rightarrow> 'h \<Rightarrow> string \<Rightarrow> string \<Rightarrow> lval \<Rightarrow> out_request" where
  "request_of ip h method addr options =
     (case options of
        LTable t \<Rightarrow> \<lparr>oq_method = method, oq_url = addr, oq_body = option_body ip h t, oq_headers = option_headers ip h t\<rparr>
      | _ \<Rightarrow> \<lparr>oq_method = method, oq_url = addr, oq_body = None, oq_headers = []\<rparr>)"

definition request_fn ::
    "('h, 'x) interp \<Rightarrow> unit go_env \<Rightarrow> 'x http_api \<Rightarrow> out_request \<Rightarrow> ('h, 'x) world \<Rightarrow> ('h, 'x) world \<times> (string + lval)" where
  "request_fn ip env ht q w =
     (case ht_do ht q (w_ext w) of
        (Inl e, x) \<Rightarrow> (w\<lparr>w_ext := x\<rparr>, Inl e)
      | (Inr p, x) \<Rightarrow>
          (let (r, w1) = new_resource ''*http.Response'' (CloseHandle (ip_body p)) (w\<lparr>w_ext := x\<rparr>);
               (ob, w2) = NewResponse ip env p r (Guard r w1)
           in (w2, Inr (obj_Value ob))))"

definition lRequest ::
    "('h, 'x) interp \<Rightarrow> unit go_env \<Rightarrow> 'x http_api \<Rightarrow> lval list \<Rightarrow> ('h, 'x) world \<Rightarrow> ('h, 'x) module_result" where
  "lRequest ip env ht args w =
     (case Check 1 2 args [param_String [], param_String [], param_Table []] of
        Inl e \<Rightarrow> (w, [], Inl (BadArgs e))
      | Inr (cb, ps) \<Rightarrow>
          (let q = request_of ip (os_heap (w_os w)) (par_string (ps ! 0)) (par_string (ps ! 1)) (param_value (ps ! 2)) in
           case ht_check ht (oq_method q) (oq_url q) of
             Some e \<Rightarrow> (w, [core_Lua ip cb [LString e]], Inr [])
           | None \<Rightarrow> (w, [callback_call ip cb (request_fn ip env ht q)], Inr [])))"

subsection \<open>Servers\<close>

definition http_lCreateServer :: "('h, 'x) interp \<Rightarrow> lval list \<Rightarrow> ('h, 'x) world \<Rightarrow> ('h, 'x) module_result" where
  "http_lCreateServer ip args w =
     (case CheckString ip args 1 of
        Inl e \<Rightarrow> (w, [], Inl e)
      | Inr addr \<Rightarrow>
          (case CheckFunction args 2 of
             Inl e \<Rightarrow> (w, [], Inl e)
           | Inr f \<Rightarrow>
               (let s = \<lparr>hs_addr = addr, hs_handler = f, hs_server = None, hs_resource = None\<rparr>;
                    (ob, w1) = new_protected ip [(''start'', FHttpStart), (''stop'', FHttpStop)] []
                                 (GServer (length (w_https w))) (w\<lparr>w_https := w_https w @ [s]\<rparr>)
                in (w1, [], Inr [obj_Value ob]))))"

definition http_checkServer :: "('h, 'x) world \<Rightarrow> lval list \<Rightarrow> lua_fail + nat" where
  "http_checkServer w args =
     (case self_value w args of Inl e \<Rightarrow> Inl e | Inr g \<Rightarrow> (case g of GServer k \<Rightarrow> Inr k | _ \<Rightarrow> Inl GoPanic))"

text \<open>
  \<open>start\<close> makes the server and its resource, which it does not guard, and then listens; the goroutine that serves
  the listener is \<open>served\<close>: the error with which \<open>Serve\<close> always ends is raised in the script unless it has the text of
  a closed connection.
\<close>

definition http_start_fn ::
    "'x http_api \<Rightarrow> nat \<Rightarrow> ('h, 'x) world \<Rightarrow> ('h, 'x) world \<times> (string + lval)" where
  "http_start_fn ht k w =
     (case ht_listen ht ''tcp'' (hs_addr (w_https w ! k)) (w_ext w) of
        (Inl e, x) \<Rightarrow> (w\<lparr>w_ext := x\<rparr>, Inl e)
      | (Inr lis, x) \<Rightarrow> (w\<lparr>w_ext := x\<rparr>, Inr LNil))"

definition http_lServerStart ::
    "('h, 'x) interp \<Rightarrow> 'x http_api \<Rightarrow> lval list \<Rightarrow> ('h, 'x) world \<Rightarrow> ('h, 'x) module_result" where
  "http_lServerStart ip ht args w =
     (case http_checkServer w args of
        Inl e \<Rightarrow> (w, [], Inl e)
      | Inr k \<Rightarrow>
          (let (srv, x) = ht_new_server ht (w_ext w);
               (r, w1) = new_resource ''*http.Server'' (CloseHandle srv) (w\<lparr>w_ext := x\<rparr>);
               s = (w_https w ! k)\<lparr>hs_server := Some srv, hs_resource := Some r\<rparr>
           in (w1\<lparr>w_https := (w_https w1)[k := s]\<rparr>, [callback_call ip (get_arg args 2) (http_start_fn ht k)], Inr [])))"

fun contains :: "string \<Rightarrow> string \<Rightarrow> bool" where
  "contains p [] = (p = [])"
| "contains p (c # cs) = (prefix p (c # cs) \<or> contains p cs)"

definition served :: "string \<Rightarrow> ('h, 'x) world call list" where
  "served err = (if contains ''use of closed network connection'' err then [] else [RaiseError err])"

text \<open>\<open>stop\<close>: a server that was not started has a nil resource, which panics.\<close>

definition http_lServerStop :: "'x io_api \<Rightarrow> lval list \<Rightarrow> ('h, 'x) world \<Rightarrow> ('h, 'x) module_result" where
  "http_lServerStop io args w =
     (case http_checkServer w args of
        Inl e \<Rightarrow> (w, [], Inl e)
      | Inr k \<Rightarrow>
          (case (hs_resource (w_https w ! k), hs_server (w_https w ! k)) of
             (Some r, Some srv) \<Rightarrow>
               (let w1 = w\<lparr>w_pool := resource_Cancel r (w_pool w)\<rparr> in
                case io_close io srv (w_ext w1) of
                  (err, x) \<Rightarrow>
                    (w1\<lparr>w_ext := x\<rparr>, [], Inr [case err of Some e \<Rightarrow> LString e | None \<Rightarrow> LNil]))
           | _ \<Rightarrow> (w, [], Inl GoPanic)))"

subsection \<open>Requests of a server\<close>

text \<open>
  \<open>ServeHTTP\<close> up to its wait: the channel, the guarded resource and the scoped call, which hands the handler to the
  context with the channel as the place for its error.
\<close>

definition handler_call ::
    "('h, 'x) interp \<Rightarrow> unit go_env \<Rightarrow> addr \<Rightarrow> in_request \<Rightarrow> handle \<Rightarrow> nat \<Rightarrow> rref \<Rightarrow> ('h, 'x) world call" where
  "handler_call ip env f q wr ch r =
     CallScoped (\<lambda>w.
       let (req, w1) = NewRequest ip env q r w;
           (res, w2) = NewResponseWriter ip wr ch w1
       in (w2, [CallLuaRecoverable (in_invoke ip f [obj_Value req, obj_Value res]) (\<lambda>e. send_finish ch (Some e))], None))"

definition ServeHTTP_begin ::
    "('h, 'x) interp \<Rightarrow> unit go_env \<Rightarrow> addr \<Rightarrow> in_request \<Rightarrow> handle \<Rightarrow> ('h, 'x) world \<Rightarrow>
     (nat \<times> rref \<times> ('h, 'x) world) \<times> ('h, 'x) world call" where
  "ServeHTTP_begin ip env f q wr w =
     (let ch = length (w_finish w);
          w1 = w\<lparr>w_finish := w_finish w @ [\<lparr>fn_chan = make_chan 1, fn_taken = None\<rparr>]\<rparr>;
          (r, w2) = new_resource ''http.ResponseWriter'' (CloseAndFinish (iq_body q) ch) w1
      in ((ch, r, Guard r w2), handler_call ip env f q wr ch r))"

text \<open>After the wait: the body is closed, the resource cancelled, and an error answered with status 500 and its text.\<close>

definition ServeHTTP_end ::
    "'x io_api \<Rightarrow> 'x http_api \<Rightarrow> in_request \<Rightarrow> handle \<Rightarrow> nat \<Rightarrow> rref \<Rightarrow> ('h, 'x) world \<Rightarrow> ('h, 'x) world option" where
  "ServeHTTP_end io ht q wr ch r w =
     (case fn_taken (w_finish w ! ch) of
        None \<Rightarrow> None
      | Some v \<Rightarrow>
          (let x = snd (io_close io (iq_body q) (w_ext w));
               w1 = w\<lparr>w_ext := x, w_pool := resource_Cancel r (w_pool w)\<rparr>
           in case v of
                None \<Rightarrow> Some w1
              | Some e \<Rightarrow>
                  (case ht_write_header ht wr 500 x of
                     None \<Rightarrow> Some (w1\<lparr>w_dead := True\<rparr>)
                   | Some y \<Rightarrow> Some (w1\<lparr>w_ext := snd (io_write io wr e y)\<rparr>))))"

subsection \<open>The channel of a request\<close>

datatype finish_event = FnSend "string option" | FnTake

fun finish_step :: "finish_event \<Rightarrow> finish \<Rightarrow> finish option" where
  "finish_step (FnSend v) f = finish_send v f"
| "finish_step FnTake f = finish_take f"

fun sends :: "finish_event list \<Rightarrow> string option list" where
  "sends [] = []"
| "sends (FnSend v # es) = v # sends es"
| "sends (FnTake # es) = sends es"

definition taken_list :: "finish \<Rightarrow> string option list" where
  "taken_list f = (case fn_taken f of None \<Rightarrow> [] | Some v \<Rightarrow> [v])"

text \<open>What was sent is what was taken and what is in the channel.\<close>

definition finish_inv :: "string option list \<Rightarrow> finish \<Rightarrow> bool" where
  "finish_inv vs f \<longleftrightarrow>
     vs = taken_list f @ ch_buf (fn_chan f) \<and> ch_cap (fn_chan f) = 1 \<and> length (ch_buf (fn_chan f)) \<le> 1
     \<and> \<not> ch_closed (fn_chan f)"

lemma finish_take_inv: "finish_inv vs f \<Longrightarrow> finish_take f = Some g \<Longrightarrow> finish_inv vs g"
  by (auto simp: finish_inv_def finish_take_def taken_list_def chan_simps split: if_splits option.splits)

lemma finish_put_inv: "finish_inv vs f \<Longrightarrow> finish_put v f = Some g \<Longrightarrow> finish_inv (vs @ [v]) g"
  by (auto simp: finish_inv_def finish_put_def taken_list_def chan_simps)

lemma finish_send_inv: "finish_inv vs f \<Longrightarrow> finish_send v f = Some g \<Longrightarrow> finish_inv (vs @ [v]) g"
  by (auto simp: finish_send_def dest: finish_put_inv finish_take_inv split: option.splits)

lemma sends_append: "sends (es @ fs) = sends es @ sends fs"
  by (induction es rule: sends.induct) auto

lemma finish_inv_run:
  assumes "run_events finish_step es f = Some g" and "finish_inv [] f"
  shows "finish_inv (sends es) g"
proof -
  have "finish_inv (sends (h @ [e])) u" if "finish_inv (sends h) t" "finish_step e t = Some u" for h e t u
    using that by (cases e) (auto simp: sends_append finish_send_inv finish_take_inv)
  from run_events_history [where I = "\<lambda>h. finish_inv (sends h)" and h = "[]", OF this _ assms(1)] assms(2)
  show ?thesis by simp
qed

lemma finish_inv_full: "finish_inv vs f \<Longrightarrow> length vs = 2 \<Longrightarrow> finish_send v f = None"
  by (auto simp: finish_inv_def taken_list_def finish_send_def finish_put_def finish_take_def chan_put_def chan_send_def
      split: option.splits)

subsection \<open>Properties\<close>

text \<open>
  C24: the answer to a request.  Whatever the handler does, finish, raise or both and in every interleaving, the goroutine of the
  request ends with the first of these, at most two of them get through, and the third blocks the script for ever.
\<close>

theorem first_finish_answers:
  assumes "run_events finish_step es \<lparr>fn_chan = make_chan 1, fn_taken = None\<rparr> = Some f"
  shows "(\<forall>v. fn_taken f = Some v \<longrightarrow> sends es \<noteq> [] \<and> v = hd (sends es))
    \<and> length (sends es) \<le> 2 \<and> (length (sends es) = 2 \<longrightarrow> (\<forall>v. finish_send v f = None))"
proof -
  have "finish_inv [] \<lparr>fn_chan = make_chan 1, fn_taken = None\<rparr>"
    by (simp add: finish_inv_def taken_list_def make_chan_def)
  from finish_inv_run [OF assms this] have inv: "finish_inv (sends es) f" .
  then have s: "sends es = taken_list f @ ch_buf (fn_chan f)" "length (ch_buf (fn_chan f)) \<le> 1"
    by (simp_all add: finish_inv_def)
  moreover have "length (taken_list f) \<le> 1" by (simp add: taken_list_def split: option.splits)
  ultimately have "length (sends es) \<le> 2" by simp
  moreover have "\<forall>v. fn_taken f = Some v \<longrightarrow> sends es \<noteq> [] \<and> v = hd (sends es)"
    using s(1) by (auto simp: taken_list_def)
  ultimately show ?thesis using finish_inv_full [OF inv] by blast
qed

lemma first_finish_answers_witness:
  "\<exists>f. run_events finish_step [FnSend None, FnSend (Some ''error'')] \<lparr>fn_chan = make_chan 1, fn_taken = None\<rparr> = Some f
     \<and> fn_taken f = Some None \<and> finish_send None f = None"
proof -
  let ?f = "\<lparr>fn_chan = \<lparr>ch_buf = [Some ''error''], ch_cap = 1, ch_closed = False\<rparr>, fn_taken = Some None\<rparr>"
  have r: "run_events finish_step [FnSend None, FnSend (Some ''error'')] \<lparr>fn_chan = make_chan 1, fn_taken = None\<rparr> = Some ?f"
    by (simp add: finish_send_def finish_put_def finish_take_def make_chan_def chan_put_def chan_send_def chan_get_def
        chan_recv_def)
  from first_finish_answers [OF r] have "finish_send None ?f = None" by simp
  with r show ?thesis by (intro exI [of _ ?f]) simp
qed

text \<open>A handler that ends without an error or a finish leaves the goroutine of its request waiting.\<close>

lemma unfinished_request_waits:
  "ServeHTTP_begin ip env f q wr w = ((ch, r, w1), c) \<Longrightarrow> ServeHTTP_end io ht q wr ch r w1 = None"
  by (auto simp: ServeHTTP_begin_def Let_def ServeHTTP_end_def new_resource_def Guard_def
      split: prod.splits option.splits)

text \<open>Stopping a server makes \<open>Serve\<close> return \<open>http: Server closed\<close>, which is raised in the script.\<close>

lemma stop_is_reported: "served ''http: Server closed'' = [RaiseError ''http: Server closed'']"
  by (simp add: served_def)

text \<open>Stopping a server that was not started panics.\<close>

lemma stop_before_start:
  "http_checkServer w args = Inr k \<Longrightarrow> hs_resource (w_https w ! k) = None \<Longrightarrow> snd (snd (http_lServerStop io args w)) = Inl GoPanic"
  by (simp add: http_lServerStop_def)

end
