(* ===== verification/Core_Modules.thy ===== *)
theory Core_Modules
  imports Module_World "HOL-Library.Word"
begin

text \<open>
  The small modules: \<open>pkg/core/global\<close> (bit operations), \<open>pkg/core/log\<close>, \<open>pkg/core/env\<close>, and \<open>pkg/utils/lua.go\<close>, with
  which the modules enter the interpreter's table of loaded modules.
\<close>

subsection \<open>Global functions\<close>

definition bit_op ::
    "(int \<Rightarrow> int \<Rightarrow> int) \<Rightarrow> ('h, 'x) interp \<Rightarrow> lval list \<Rightarrow> ('h, 'x) world \<Rightarrow> ('h, 'x) module_result" where
  "bit_op f ip args w =
     (case CheckNumber ip args 1 of
        Inl e \<Rightarrow> (w, [], Inl e)
      | Inr x \<Rightarrow>
          (case CheckNumber ip args 2 of
             Inl e \<Rightarrow> (w, [], Inl e)
           | Inr y \<Rightarrow> (w, [], Inr [int_value (f (in_int ip x) (in_int ip y))])))"

definition lBitOr :: "('h, 'x) interp \<Rightarrow> lval list \<Rightarrow> ('h, 'x) world \<Rightarrow> ('h, 'x) module_result" where
  "lBitOr = bit_op or"

definition lBitAnd :: "('h, 'x) interp \<Rightarrow> lval list \<Rightarrow> ('h, 'x) world \<Rightarrow> ('h, 'x) module_result" where
  "lBitAnd = bit_op and"

definition lBitXor :: "('h, 'x) interp \<Rightarrow> lval list \<Rightarrow> ('h, 'x) world \<Rightarrow> ('h, 'x) module_result" where
  "lBitXor = bit_op xor"

definition lUUID :: "string \<Rightarrow> ('h, 'x) world \<Rightarrow> ('h, 'x) module_result" where
  "lUUID uid w = (w, [], Inr [LString uid])"

definition int64_range :: "int \<Rightarrow> bool" where
  "int64_range i \<longleftrightarrow> - (2 ^ 63) \<le> i \<and> i < 2 ^ 63"

lemma sint_of_int64: "int64_range i \<Longrightarrow> sint (word_of_int i :: 64 word) = i"
  by (simp add: int64_range_def signed_of_int signed_take_bit_int_eq_self_iff)

text \<open>Go's operations on \<open>int\<close>, 64 bits wide, are those on integers.\<close>

lemma bit_ops_machine:
  assumes "int64_range a" and "int64_range b"
  shows "sint (or (word_of_int a) (word_of_int b) :: 64 word) = or a b"
    and "sint (and (word_of_int a) (word_of_int b) :: 64 word) = and a b"
    and "sint (xor (word_of_int a) (word_of_int b) :: 64 word) = xor a b"
  using sint_of_int64 [OF assms(1)] sint_of_int64 [OF assms(2)]
  by (simp_all add: signed_or_eq signed_and_eq signed_xor_eq)

subsection \<open>Logging\<close>

datatype log_level = LDebug | LInfo | LWarn | LError | LFatal

definition lLogStringify :: "('h, 'x) interp \<Rightarrow> lval list \<Rightarrow> string" where
  "lLogStringify ip args = join '' '' (map (la_tostring (in_api ip)) args)"

text \<open>\<open>Fatal\<close> ends the process.\<close>

definition lLog ::
    "('h, 'x) interp \<Rightarrow> (log_level \<Rightarrow> string \<Rightarrow> 'x \<Rightarrow> 'x) \<Rightarrow> log_level \<Rightarrow> lval list \<Rightarrow> ('h, 'x) world \<Rightarrow> ('h, 'x) module_result" where
  "lLog ip sink level args w =
     (w\<lparr>w_ext := sink level (lLogStringify ip args) (w_ext w), w_dead := (w_dead w \<or> level = LFatal)\<rparr>, [], Inr [])"

subsection \<open>The environment\<close>

record env_record =
  en_node :: string
  en_worker :: int
  en_dir :: string
  en_args :: "string list"

text \<open>The arguments as a Lua list, and the read-only object.\<close>

definition env_args :: "('h, 'x) interp \<Rightarrow> string list \<Rightarrow> ('h, 'x) world \<Rightarrow> lval \<times> ('h, 'x) world" where
  "env_args ip as w =
     (let (t, h) = la_new_table (in_api ip) (os_heap (w_os w));
          h1 = fold (\<lambda>a. la_append (in_api ip) t (LString a)) as h
      in (LTable t, w\<lparr>w_os := (w_os w)\<lparr>os_heap := h1\<rparr>\<rparr>))"

definition env_object :: "('h, 'x) interp \<Rightarrow> env_record \<Rightarrow> ('h, 'x) world \<Rightarrow> go_val object \<times> ('h, 'x) world" where
  "env_object ip en w =
     (let (as, w1) = env_args ip (en_args en) w
      in new_readonly ip []
           [(''node'', LString (en_node en)), (''worker_id'', int_value (en_worker en)),
            (''worker_dir'', LString (en_dir en)), (''args'', as)] (GEnv (en_node en)) w1)"

subsection \<open>Loaded modules\<close>

text \<open>
  \<open>loaded\<close> is the table \<open>_LOADED\<close>, \<open>find_table\<close> gopher-lua's \<open>L.FindTable\<close>, which looks up or makes a table under a
  name.  A module that is already there is kept.
\<close>

definition RegisterLuaModuleObject :: "('h, unit) lua_api \<Rightarrow> addr \<Rightarrow> string \<Rightarrow> lval \<Rightarrow> 'h \<Rightarrow> 'h" where
  "RegisterLuaModuleObject api loaded name v h =
     (if la_get api h loaded (LString name) = LNil then la_set api loaded (LString name) v h else h)"

definition RegisterLuaModuleFunctions ::
    "('h, unit) lua_api \<Rightarrow> (addr \<Rightarrow> string \<Rightarrow> 'h \<Rightarrow> lval \<times> 'h) \<Rightarrow> addr \<Rightarrow> string \<Rightarrow> (string \<times> addr) list \<Rightarrow> 'h \<Rightarrow> string + 'h" where
  "RegisterLuaModuleFunctions api find_table loaded name funcs h =
     (if ltype (la_get api h loaded (LString name)) = LTTable then Inr h
      else (case find_table loaded name h of
              (LTable t, h1) \<Rightarrow>
                Inr (la_set api loaded (LString name) (LTable t)
                       (fold (\<lambda>(k, f). la_set api t (LString k) (LFunction f)) funcs h1))
            | (_, h1) \<Rightarrow> Inl (''name conflict for module('' @ name @ '')'')))"

text \<open>The functions of a module as closures over its user data.\<close>

definition RegisterLuaModule ::
    "('h, unit) lua_api \<Rightarrow> (addr \<Rightarrow> string \<Rightarrow> 'h \<Rightarrow> lval \<times> 'h) \<Rightarrow> ('f \<Rightarrow> addr) \<Rightarrow> addr \<Rightarrow> string \<Rightarrow> (string \<times> 'f) list \<Rightarrow>
     'h \<Rightarrow> string + 'h" where
  "RegisterLuaModule api find_table closure loaded name funcs =
     RegisterLuaModuleFunctions api find_table loaded name (map (\<lambda>(k, f). (k, closure f)) funcs)"

text \<open>\<open>RegisterLuaScriptModule\<close>: \<open>run\<close> is the script's result or error.\<close>

definition RegisterLuaScriptModule ::
    "('h, unit) lua_api \<Rightarrow> ('h \<Rightarrow> (string + lval) \<times> 'h) \<Rightarrow> addr \<Rightarrow> string \<Rightarrow> 'h \<Rightarrow> (string + unit) \<times> 'h" where
  "RegisterLuaScriptModule api run loaded name h =
     (if la_get api h loaded (LString name) = LNil
      then (case run h of
              (Inl e, h1) \<Rightarrow> (Inl (''unable to register module: '' @ e), h1)
            | (Inr v, h1) \<Rightarrow> (Inr (), la_set api loaded (LString name) v h1))
      else (Inr (), h))"

subsection \<open>Lemmas\<close>

text \<open>A module is registered once: what is there under its name stays.\<close>

lemma register_object_twice:
  assumes "lua_heap api" and "la_ok api h" and "loaded \<in> la_live api h" and "lval_live api h v" and "v \<noteq> LNil"
  shows "RegisterLuaModuleObject api loaded name u (RegisterLuaModuleObject api loaded name v h)
    = RegisterLuaModuleObject api loaded name v h"
proof (cases "la_get api h loaded (LString name) = LNil")
  case True
  have "key_ok (LString name)" by (simp add: key_ok_def)
  with lua_heap.set_entries [OF assms(1-3) this assms(5)]
    lua_heap.get_entries [OF assms(1) lua_heap.set_ok [OF assms(1-3) this _ assms(4)], of loaded "LString name"] True assms(5)
  show ?thesis by (simp add: RegisterLuaModuleObject_def lval_live_def)
qed (simp add: RegisterLuaModuleObject_def)

lemma env_object_readonly:
  "env_object ip en w = (ob, w1) \<Longrightarrow> ob_readonly ob \<and> ob_table ob = None"
  by (auto simp: env_object_def env_args_def new_readonly_def object_NewReadOnly_def newObject_def Let_def split: prod.splits)

end
