(* ===== verification/Runtime_Lua.thy ===== *)
theory Runtime_Lua
  imports Fs
begin

text \<open>
  The library that every worker loads before the script, \<open>runtime/global.lua\<close>, and \<open>fs.readfile\<close> of \<open>runtime/fs.lua\<close>:
  Lua code over the functions of the modules.  A function that goes on in callbacks is a step on its captured
  variables for every call of the callback.
\<close>

subsection \<open>Reading everything\<close>

text \<open>
  The callback \<open>more\<close> of \<open>readall\<close> on its captured \<open>buf\<close>: it hands arguments to the caller's callback, or reads on;
  arguments of other types than a reader gives raise an error in Lua.
\<close>

datatype more_result = MoreDone "lval list" | MoreRead string | MoreRaises

definition readall_size :: nat where
  "readall_size = 512"

definition read_more :: "string \<Rightarrow> lval list \<Rightarrow> more_result" where
  "read_more buf args =
     (if get_arg args 1 \<noteq> LNil then MoreDone [get_arg args 1]
      else (case (get_arg args 2, get_arg args 3) of
              (LString res, LNumber (Fin n)) \<Rightarrow>
                (let res' = (if n < of_nat readall_size then take (nat \<lfloor>n\<rfloor>) res else res);
                     buf' = buf @ res'
                 in if n \<le> 0 \<or> n < of_nat readall_size then MoreDone [LNil, LString buf'] else MoreRead buf')
            | _ \<Rightarrow> MoreRaises))"

text \<open>The rounds of \<open>readall\<close> on a handle: the arguments of the caller's callback in the end, if there is one.\<close>

partial_function (option) readall :: "'x io_api \<Rightarrow> handle \<Rightarrow> string \<Rightarrow> 'x \<Rightarrow> (lval list \<times> 'x) option" where
  "readall io fd buf x =
     (case io_read io fd (replicate readall_size (CHR 0x00)) x of
        ((b, n, err), y) \<Rightarrow>
          (case read_more buf (read_args b n err) of
             MoreDone args \<Rightarrow> Some (args, y)
           | MoreRead buf' \<Rightarrow> readall io fd buf' y
           | MoreRaises \<Rightarrow> None))"

subsection \<open>Reading a file\<close>

text \<open>
  \<open>fs.readfile\<close>: the file is opened without flag and mode, which are 0, and read once, with the size that \<open>stat\<close> gave;
  \<open>None\<close> when the read ends the process.
\<close>

definition readfile ::
    "('h, 'x) interp \<Rightarrow> 'x files_api \<Rightarrow> 'x io_api \<Rightarrow> string \<Rightarrow> 'x \<Rightarrow> (lval list \<times> 'x) option" where
  "readfile ip fs io path x =
     (case os_stat fs path x of
        (Inl e, x1) \<Rightarrow> Some ([LString e], x1)
      | (Inr info, x1) \<Rightarrow>
          (case os_open fs path 0 0 x1 of
             (Inl e, x2) \<Rightarrow> Some ([LString e], x2)
           | (Inr fd, x2) \<Rightarrow>
               (let len = in_int ip (Fin (of_int (fi_size info))) in
                if len < 0 \<or> in_alloc ip < len then None
                else (case io_read io fd (replicate (nat len) (CHR 0x00)) x2 of
                        ((b, n, err), x3) \<Rightarrow>
                          (let args = read_args b n err
                           in Some ([get_arg args 1, get_arg args 2], snd (io_close io fd x3)))))))"

subsection \<open>Callbacks in series and in parallel\<close>

text \<open>
  The captured variables of the two functions.  The last fields are history: which functions of the list were called, by their
  place from 1, and the calls of the caller's callback.
\<close>

record series =
  sr_index :: nat
  sr_started :: "nat list"
  sr_answers :: nat
  sr_called :: "lval list list"

definition series_callback :: "nat \<Rightarrow> series" where
  "series_callback n =
     (if n = 0 then \<lparr>sr_index = 0, sr_started = [], sr_answers = 0, sr_called = [[]]\<rparr>
      else \<lparr>sr_index = 1, sr_started = [1], sr_answers = 0, sr_called = []\<rparr>)"

text \<open>A call of the wrapped callback with an error and a result.\<close>

definition series_wrapped :: "nat \<Rightarrow> lval \<times> lval \<Rightarrow> series \<Rightarrow> series" where
  "series_wrapped n = (\<lambda>(err, res) s.
     if err \<noteq> LNil then s\<lparr>sr_called := sr_called s @ [[err]]\<rparr>
     else (let index = Suc (sr_index s) in
           if n < index then s\<lparr>sr_index := index, sr_called := sr_called s @ [[LNil, res]]\<rparr>
           else s\<lparr>sr_index := index, sr_started := sr_started s @ [index]\<rparr>))"

text \<open>The functions of the list answer once each, so there are no more answers than functions that were called.\<close>

definition series_step :: "nat \<Rightarrow> lval \<times> lval \<Rightarrow> series \<Rightarrow> series option" where
  "series_step n e s =
     (if sr_answers s < length (sr_started s)
      then Some (series_wrapped n e (s\<lparr>sr_answers := Suc (sr_answers s)\<rparr>)) else None)"

record parallel =
  pa_resolved :: bool
  pa_count :: nat
  pa_results :: "lval list"
  pa_called :: "(lval + lval list) list"

text \<open>The callback gets an error, or nil and the list; \<open>table.insert\<close> of nil does nothing.\<close>

definition parallel_callback :: "nat \<Rightarrow> parallel" where
  "parallel_callback n =
     \<lparr>pa_resolved = False, pa_count = 0, pa_results = [], pa_called = (if n = 0 then [Inr []] else [])\<rparr>"

definition parallel_wrapped :: "nat \<Rightarrow> lval \<times> lval \<Rightarrow> parallel \<Rightarrow> parallel" where
  "parallel_wrapped n = (\<lambda>(err, res) s.
     if pa_resolved s then s
     else if err \<noteq> LNil then s\<lparr>pa_resolved := True, pa_called := pa_called s @ [Inl err]\<rparr>
     else (let results = (if res = LNil then pa_results s else pa_results s @ [res]);
               cnt = Suc (pa_count s)
           in s\<lparr>pa_results := results, pa_count := cnt,
                pa_called := pa_called s @ (if cnt = n then [Inr results] else [])\<rparr>))"

subsection \<open>Lemmas\<close>

lemma read_more_chunk:
  "0 \<le> n \<Longrightarrow> n \<le> int (length b) \<Longrightarrow> length b = readall_size \<Longrightarrow> err = None \<or> err = Some EOF \<Longrightarrow>
     read_more buf (read_args b n err) =
       (if n < int readall_size then MoreDone [LNil, LString (buf @ take (nat n) b)] else MoreRead (buf @ b))"
  by (auto simp: read_more_def read_args_def get_arg_def int_value_def readall_size_def Let_def
      of_int_less_iff [of _ 512, simplified])

text \<open>A round is what \<open>reader:read(size, more)\<close> hands to the callback.\<close>

lemma readall_round:
  "io_read io fd (replicate readall_size (CHR 0x00)) (w_ext w) = ((b, n, err), y) \<Longrightarrow> int readall_size \<le> in_alloc ip \<Longrightarrow>
     read_body ip io fd (int readall_size) cb w = (w\<lparr>w_ext := y\<rparr>, [core_Lua ip cb (read_args b n err)], None)"
  by (simp add: read_body_def)

text \<open>A read that fills less than the buffer ends \<open>readall\<close>, at the end of the stream or not.\<close>

lemma readall_short:
  assumes "io_read io fd (replicate readall_size (CHR 0x00)) x = ((b, n, err), y)"
    and "0 \<le> n" and "n < int readall_size" and "length b = readall_size" and "err = None \<or> err = Some EOF"
  shows "readall io fd buf x = Some ([LNil, LString (buf @ take (nat n) b)], y)"
  using assms by (subst readall.simps) (simp add: read_more_chunk)

definition series_inv :: "nat \<Rightarrow> (lval \<times> lval) list \<Rightarrow> series \<Rightarrow> bool" where
  "series_inv n h s \<longleftrightarrow>
     sr_answers s = length h \<and> (\<forall>e \<in> set (butlast h). fst e = LNil)
     \<and> (if h \<noteq> [] \<and> fst (last h) \<noteq> LNil
        then sr_started s = [1..<Suc (length h)] \<and> sr_called s = [[fst (last h)]]
        else if length h = n
        then sr_started s = [1..<Suc n] \<and> sr_called s = [[LNil, snd (last h)]]
        else length h < n \<and> sr_index s = Suc (length h) \<and> sr_started s = [1..<Suc (Suc (length h))] \<and> sr_called s = [])"

lemma series_inv_step:
  assumes "series_inv n h s" and "series_step n e s = Some t"
  shows "series_inv n (h @ [e]) t"
proof -
  have less: "sr_answers s < length (sr_started s)" using assms(2) by (auto simp: series_step_def split: if_splits)
  with assms(1) have h: "h = [] \<or> fst (last h) = LNil" "length h < n" "sr_index s = Suc (length h)"
    "sr_started s = [1..<Suc (Suc (length h))]" "sr_called s = []" "sr_answers s = length h"
    by (auto simp: series_inv_def split: if_splits)
  have ok: "\<forall>e \<in> set h. fst e = LNil"
    using assms(1) h(1) by (cases h rule: rev_cases) (auto simp: series_inv_def)
  obtain err res where e: "e = (err, res)" by fastforce
  have t: "t = series_wrapped n e (s\<lparr>sr_answers := Suc (length h)\<rparr>)"
    using assms(2) h(6) by (auto simp: series_step_def split: if_splits)
  show ?thesis
  proof (cases "err = LNil \<and> Suc (length h) < n")
    case True
    with e t h ok show ?thesis by (simp add: series_inv_def series_wrapped_def del: upt_Suc) (simp add: upt_Suc)
  next
    case False
    with h(2) have "err \<noteq> LNil \<or> n = Suc (length h)" by auto
    with e t h ok show ?thesis by (auto simp: series_inv_def series_wrapped_def simp del: upt_Suc)
  qed
qed

lemma series_inv_run:
  assumes "run_events (series_step n) es (series_callback n) = Some s" and "0 < n"
  shows "series_inv n es s"
proof -
  have "series_inv n [] (series_callback n)" using assms(2) by (simp add: series_inv_def series_callback_def)
  from run_events_history [where I = "series_inv n" and h = "[]", OF series_inv_step this assms(1)] show ?thesis by simp
qed

text \<open>\<open>parallel_callback\<close> while there is no error, and after one.\<close>

abbreviation answered :: "lval \<times> lval \<Rightarrow> bool" where
  "answered e \<equiv> fst e = LNil"

definition results_of :: "(lval \<times> lval) list \<Rightarrow> lval list" where
  "results_of es = filter (\<lambda>v. v \<noteq> LNil) (map snd es)"

lemma parallel_answers:
  "length es \<le> n \<Longrightarrow> 0 < n \<Longrightarrow> list_all answered es \<Longrightarrow>
     fold (parallel_wrapped n) es (parallel_callback n) =
       \<lparr>pa_resolved = False, pa_count = length es, pa_results = results_of es,
        pa_called = (if length es = n then [Inr (results_of es)] else [])\<rparr>"
proof (induction es rule: rev_induct)
  case (snoc e es)
  then show ?case by (cases e) (auto simp: parallel_wrapped_def results_of_def Let_def)
qed (simp add: parallel_callback_def results_of_def)

lemma parallel_resolved: "pa_resolved s \<Longrightarrow> fold (parallel_wrapped n) es s = s"
  by (induction es) (auto simp: parallel_wrapped_def split: prod.splits)

lemma parallel_error:
  assumes "length (es @ e # fs) \<le> n" and "list_all answered es" and "\<not> answered e"
  shows "pa_called (fold (parallel_wrapped n) (es @ e # fs) (parallel_callback n)) = [Inl (fst e)]"
proof -
  have "length es < n" using assms(1) by simp
  with parallel_answers [of es n] assms(2) have s: "fold (parallel_wrapped n) es (parallel_callback n) =
     \<lparr>pa_resolved = False, pa_count = length es, pa_results = results_of es, pa_called = []\<rparr>" by simp
  let ?t = "parallel_wrapped n e (fold (parallel_wrapped n) es (parallel_callback n))"
  have "pa_resolved ?t \<and> pa_called ?t = [Inl (fst e)]"
    unfolding s using assms(3) by (cases e) (simp add: parallel_wrapped_def)
  with parallel_resolved [of ?t] show ?thesis by simp
qed

subsection \<open>Properties\<close>

text \<open>A reader that fills the buffer as long as there is something left, \<open>left\<close> being what is left to read.\<close>

definition full_reader :: "'x io_api \<Rightarrow> handle \<Rightarrow> ('x \<Rightarrow> string) \<Rightarrow> bool" where
  "full_reader io fd left \<longleftrightarrow>
     (\<forall>buf x b n err y. io_read io fd buf x = ((b, n, err), y) \<longrightarrow>
        n = int (min (length buf) (length (left x))) \<and> length b = length buf \<and> (err = None \<or> err = Some EOF)
        \<and> take (nat n) b = take (length buf) (left x) \<and> left y = drop (length buf) (left x))"

lemma full_readerD:
  assumes "full_reader io fd left" and "io_read io fd (replicate k c) x = ((b, n, err), y)"
  shows "n = int (min k (length (left x)))" "length b = k" "err = None \<or> err = Some EOF"
    "take (nat n) b = take k (left x)" "left y = drop k (left x)"
  using assms(1) [unfolded full_reader_def, rule_format, OF assms(2)] by auto

lemma full_reader_step:
  assumes "full_reader io fd left" and "io_read io fd (replicate readall_size (CHR 0x00)) x = ((b, n, err), y)"
  shows "read_more buf (read_args b n err) =
      (if length (left x) < readall_size then MoreDone [LNil, LString (buf @ left x)]
       else MoreRead (buf @ take readall_size (left x)))"
    and "left y = drop readall_size (left x)"
proof -
  note r = full_readerD [OF assms]
  show "left y = drop readall_size (left x)" by (rule r(5))
  show "read_more buf (read_args b n err) =
      (if length (left x) < readall_size then MoreDone [LNil, LString (buf @ left x)]
       else MoreRead (buf @ take readall_size (left x)))"
  proof (cases "length (left x) < readall_size")
    case True
    with r show ?thesis using read_more_chunk [OF _ _ r(2,3), of n buf] by auto
  next
    case False
    with r have "take readall_size b = take readall_size (left x)" "n = int readall_size" by auto
    with r(2) have "b = take readall_size (left x)" by simp
    with r False show ?thesis using read_more_chunk [OF _ _ r(2,3), of n buf] by auto
  qed
qed

text \<open>
  C27: reading everything.  On a reader that fills its buffer while there is something left, \<open>readall\<close> ends after finitely many
  rounds and gives its callback nil and all that was left, whatever its length.
\<close>

theorem readall_reads_everything:
  assumes "full_reader io fd left"
  shows "\<exists>y. readall io fd buf x = Some ([LNil, LString (buf @ left x)], y)"
proof (induction "length (left x)" arbitrary: buf x rule: less_induct)
  case less
  obtain b n err y where r: "io_read io fd (replicate readall_size (CHR 0x00)) x = ((b, n, err), y)" by (metis prod_cases3 surj_pair)
  note s = full_reader_step [OF assms r]
  show ?case
  proof (cases "length (left x) < readall_size")
    case True
    with r s(1) [of buf] show ?thesis by (subst readall.simps) simp
  next
    case False
    then have "length (left y) < length (left x)" by (simp add: s(2) readall_size_def)
    from less [OF this, of "buf @ take readall_size (left x)"] False r s show ?thesis
      by (subst readall.simps) simp
  qed
qed

lemma string_io_full: "full_reader string_io fd (\<lambda>x. x)"
  by (auto simp: full_reader_def string_io_def Let_def min_def split: if_splits)

lemma readall_reads_everything_witness:
  "\<exists>y. readall string_io 3 [] (replicate 600 (CHR ''a'')) = Some ([LNil, LString (replicate 600 (CHR ''a''))], y)"
  using readall_reads_everything [OF string_io_full, of 3 "[]" "replicate 600 (CHR ''a'')"] by simp

text \<open>
  callbacks in series.  The functions of the list are called in its order, each once and the next one only after the one
  before has answered without an error; the caller's callback is called exactly once, with the first error or with the
  result of the last function, as soon as that is known, and nothing is called after an error.
\<close>

theorem series_in_order:
  assumes "run_events (series_step n) es (series_callback n) = Some s" and "0 < n"
  shows "(\<forall>e \<in> set (butlast es). answered e)
    \<and> (if es \<noteq> [] \<and> \<not> answered (last es)
       then sr_started s = [1..<Suc (length es)] \<and> sr_called s = [[fst (last es)]]
       else if length es = n then sr_started s = [1..<Suc n] \<and> sr_called s = [[LNil, snd (last es)]]
       else length es < n \<and> sr_started s = [1..<Suc (Suc (length es))] \<and> sr_called s = [])"
  using series_inv_run [OF assms] by (auto simp: series_inv_def split: if_splits)

lemma series_in_order_witness:
  "\<exists>s. run_events (series_step 3) [(LNil, LNil), (LString ''e'', LNil)] (series_callback 3) = Some s
     \<and> sr_started s = [1, 2] \<and> sr_called s = [[LString ''e'']]"
proof -
  let ?s = "\<lparr>sr_index = 2, sr_started = [1, 2], sr_answers = 2, sr_called = [[LString ''e'']]\<rparr>"
  have r: "run_events (series_step 3) [(LNil, LNil), (LString ''e'', LNil)] (series_callback 3) = Some ?s"
    by (simp add: series_callback_def series_step_def series_wrapped_def Let_def)
  from series_in_order [OF r] have "sr_called ?s = [[LString ''e'']]" by simp
  with r show ?thesis by auto
qed

text \<open>
  callbacks in parallel.  However the answers of the functions are interleaved, the caller's callback is called at most
  once: with the first error, or, when all have answered without one, with their results in the order of the answers, in
  which results that are nil are missing.
\<close>

theorem parallel_first_error_or_all:
  assumes "length es \<le> n" and "0 < n"
  shows "pa_called (fold (parallel_wrapped n) es (parallel_callback n)) =
    (case find (\<lambda>e. \<not> answered e) es of
       Some e \<Rightarrow> [Inl (fst e)]
     | None \<Rightarrow> if length es = n then [Inr (results_of es)] else [])"
proof (cases "find (\<lambda>e. \<not> answered e) es")
  case None
  then have "list_all answered es" by (auto simp: find_None_iff list_all_iff)
  with parallel_answers [OF assms] None show ?thesis by simp
next
  case (Some e)
  then obtain i where i: "i < length es" "\<not> answered e" "e = es ! i" "\<forall>j < i. answered (es ! j)"
    by (auto simp: find_Some_iff)
  then have es: "es = take i es @ e # drop (Suc i) es" by (simp add: id_take_nth_drop)
  have "list_all answered (take i es)" using i by (auto simp: list_all_length)
  with parallel_error [of "take i es" e "drop (Suc i) es" n] es assms(1) i(2) Some show ?thesis by simp
qed

lemma parallel_first_error_or_all_witness:
  "pa_called (fold (parallel_wrapped 2) [(LNil, LNil), (LNil, LBool True)] (parallel_callback 2)) = [Inr [LBool True]]"
  using parallel_first_error_or_all [of "[(LNil, LNil), (LNil, LBool True)]" 2] by (simp add: results_of_def)

text \<open>\<open>readfile\<close> gives the content of a file whose size \<open>stat\<close> knows, and pads it when the file has become shorter.\<close>

lemma readfile_content:
  assumes "full_reader io fd left" and "os_stat fs path x = (Inr info, x1)" and "os_open fs path 0 0 x1 = (Inr fd, x2)"
    and "in_int ip (Fin (of_int (fi_size info))) = int (length (left x2))" and "int (length (left x2)) \<le> in_alloc ip"
  shows "\<exists>x3. readfile ip fs io path x = Some ([LNil, LString (left x2)], x3)"
proof -
  let ?buf = "replicate (length (left x2)) (CHR 0x00)"
  obtain b n err y where r: "io_read io fd ?buf x2 = ((b, n, err), y)" by (metis prod_cases3 surj_pair)
  note f = full_readerD [OF assms(1) r]
  then have "b = left x2" by simp
  with f assms r show ?thesis by (auto simp: readfile_def read_args_def get_arg_def Let_def)
qed

end
