(* ===== verification/Object_Clone.thy ===== *)
theory Object_Clone
  imports Object Untyped
begin

text \<open>
  \<open>Clone\<close> of \<open>pkg/core/object/go_object.go\<close>: a second object over the same Go value, with copies of the properties and of
  the table.  Copying goes through \<open>helpers.Clone\<close>, which makes new user data as well, so its heap here is the
  interpreter's whole state \<open>objects\<close>: \<open>objects_api\<close> lifts the operations on tables to it.
\<close>

definition objects_api :: "('h, unit) lua_api \<Rightarrow> (('h, 'g) objects, 'g udval) lua_api" where
  "objects_api api =
     \<lparr>la_ok = (\<lambda>s. la_ok api (os_heap s)), la_live = (\<lambda>s. la_live api (os_heap s)),
      la_new_table = (\<lambda>s. case la_new_table api (os_heap s) of (t, h) \<Rightarrow> (t, s\<lparr>os_heap := h\<rparr>)),
      la_entries = (\<lambda>s. la_entries api (os_heap s)), la_get = (\<lambda>s. la_get api (os_heap s)),
      la_len = (\<lambda>s. la_len api (os_heap s)),
      la_set = (\<lambda>t k v s. s\<lparr>os_heap := la_set api t k v (os_heap s)\<rparr>),
      la_append = (\<lambda>t v s. s\<lparr>os_heap := la_append api t v (os_heap s)\<rparr>),
      la_new_udata = (\<lambda>u s. case la_new_udata api () (os_heap s) of
          (a, h) \<Rightarrow> (a, s\<lparr>os_heap := h, os_udata := (os_udata s)(a := u)\<rparr>)),
      la_udata = os_udata, la_tostring = la_tostring api\<rparr>"

lemma objects_api_simps [simp]:
  "la_ok (objects_api api) s = la_ok api (os_heap s)" "la_live (objects_api api) s = la_live api (os_heap s)"
  "la_entries (objects_api api) s = la_entries api (os_heap s)" "la_get (objects_api api) s = la_get api (os_heap s)"
  "la_len (objects_api api) s = la_len api (os_heap s)"
  "la_new_table (objects_api api) s = (case la_new_table api (os_heap s) of (t, h) \<Rightarrow> (t, s\<lparr>os_heap := h\<rparr>))"
  "la_set (objects_api api) t k v s = s\<lparr>os_heap := la_set api t k v (os_heap s)\<rparr>"
  "la_append (objects_api api) t v s = s\<lparr>os_heap := la_append api t v (os_heap s)\<rparr>"
  "la_new_udata (objects_api api) u s =
     (case la_new_udata api () (os_heap s) of (a, h) \<Rightarrow> (a, s\<lparr>os_heap := h, os_udata := (os_udata s)(a := u)\<rparr>))"
  "la_udata (objects_api api) s = os_udata s" "la_tostring (objects_api api) v = la_tostring api v"
  by (simp_all add: objects_api_def)

lemma objects_live [simp]: "lval_live (objects_api api) s v = lval_live api (os_heap s) v"
  by (simp add: lval_live_def split: lval.splits)

text \<open>The lifted operations keep the laws of the interpreter's tables.\<close>

locale object_heap = lua_heap api for api :: "('h, unit) lua_api"

sublocale object_heap \<subseteq> objs: lua_heap "objects_api api :: (('h, 'g) objects, 'g udval) lua_api"
proof (unfold_locales, goal_cases)
  case (4 h a k)
  then show ?case using get_entries by simp
next
  case (5 h a h')
  then show ?case using new_table by (auto split: prod.splits)
next
  case (17 h u a h')
  then show ?case using new_udata by (auto split: prod.splits)
next
  case (18 s)
  then show ?case using tostring_string by simp
qed (simp_all add: live_finite entries_distinct entries_ok set_ok set_entries set_nil set_other set_live append_ok
      append_entries append_nil append_other append_live len_seq set_next len_border)

context object_heap
begin

lemma lifted: "lua_heap (objects_api api :: (('h, 'g) objects, 'g udval) lua_api)"
  by unfold_locales

end

lemmas lifted_heap = object_heap.lifted [OF object_heap.intro]

interpretation alist_objects: object_heap "alist_api str" for str :: "lval \<Rightarrow> string"
  by unfold_locales

subsection \<open>Clone\<close>

text \<open>
  \<open>gfunction\<close> is the Go function of a Lua function, which gets the clone's user data as its only captured value.
  A property or table that contains itself makes the recursion endless; a nil table, which an object that is not
  read-only does not have, panics.
\<close>

datatype ('h, 'g) clone_result =
    CloneDone lval "('h, 'g) objects" | CloneRaises string | CloneEndless | ClonePanics

fun clone_properties ::
    "('h, unit) lua_api \<Rightarrow> nat \<Rightarrow> (string \<times> lval) list \<Rightarrow> ('h, 'g) objects \<Rightarrow> ((string \<times> lval) list \<times> ('h, 'g) objects) option" where
  "clone_properties api n [] s = Some ([], s)"
| "clone_properties api n ((k, v) # kvs) s =
     (case helpers_Clone (objects_api api) n v s of
        None \<Rightarrow> None
      | Some (v', s1) \<Rightarrow>
          (case clone_properties api n kvs s1 of None \<Rightarrow> None | Some (kvs', s2) \<Rightarrow> Some ((k, v') # kvs', s2)))"

definition clone_table ::
    "('h, unit) lua_api \<Rightarrow> nat \<Rightarrow> addr \<Rightarrow> ('h, 'g) objects \<Rightarrow> (addr option \<times> ('h, 'g) objects) option" where
  "clone_table api n t s =
     (case helpers_Clone (objects_api api) n (LTable t) s of
        Some (LTable t', s') \<Rightarrow> Some (Some t', s') | _ \<Rightarrow> None)"

definition object_Clone ::
    "('h, unit) lua_api \<Rightarrow> (addr \<Rightarrow> addr) \<Rightarrow> (addr \<Rightarrow> addr) \<Rightarrow> ('f \<Rightarrow> addr \<Rightarrow> addr) \<Rightarrow> (addr \<Rightarrow> 'f) \<Rightarrow> nat \<Rightarrow> lval \<Rightarrow>
     ('h, 'g) objects \<Rightarrow> ('h, 'g) clone_result" where
  "object_Clone api set_fn get_fn closure gfunction n v s =
     (case object_Get (os_udata s) v of
        Inl e \<Rightarrow> CloneRaises e
      | Inr ob \<Rightarrow>
          (let (ud, s1) = new_udata api (ob_go ob) s;
               methods = (\<lambda>k. map_option (\<lambda>f. closure (gfunction f) ud) (ob_methods ob k))
           in case clone_properties api n (ob_properties ob) s1 of
                None \<Rightarrow> CloneEndless
              | Some (properties, s2) \<Rightarrow>
                  (if \<not> ob_readonly ob \<and> ob_table ob = None then ClonePanics
                   else (case (if ob_readonly ob then Some (None, s2) else clone_table api n (the (ob_table ob)) s2) of
                           None \<Rightarrow> CloneEndless
                         | Some (table, s3) \<Rightarrow>
                             (let (ob', s4) = newObject api set_fn get_fn ud methods properties (ob_go ob) table
                                                (ob_readonly ob) (ob_protected ob) s3
                              in CloneDone (obj_Value ob') s4)))))"

subsection \<open>Copies of flat tables\<close>

definition plain_value :: "lval \<Rightarrow> bool" where
  "plain_value v \<longleftrightarrow> ltype v \<in> {LTNumber, LTBool, LTString}"

lemma clone_plain: "plain_value v \<Longrightarrow> helpers_Clone api (Suc n) v h = Some (v, h)"
  by (cases v) (simp_all add: plain_value_def)

lemma plain_live: "plain_value v \<Longrightarrow> lval_live api h v" "plain_value v \<Longrightarrow> v \<noteq> LNil"
  by (cases v; simp add: plain_value_def lval_live_def)+

lemma clone_entries_flat:
  assumes "lua_heap api" and "la_ok api h" and "t \<in> la_live api h" and "distinct (map fst es)"
    and "\<forall>(k, v) \<in> set es. key_ok k \<and> plain_value k \<and> plain_value v"
  shows "\<exists>h'. clone_entries api (helpers_Clone api (Suc n)) t es h = Some h' \<and> la_ok api h' \<and> la_live api h' = la_live api h
    \<and> map_of (la_entries api h' t) = map_of (la_entries api h t) ++ map_of es
    \<and> (\<forall>b. b \<noteq> t \<longrightarrow> la_entries api h' b = la_entries api h b)"
  using assms(2-)
proof (induction es arbitrary: h)
  case (Cons e es)
  obtain k v where e: "e = (k, v)" by fastforce
  with Cons.prems have kv: "key_ok k" "plain_value k" "plain_value v" "k \<notin> fst ` set es" by auto
  let ?h = "la_set api t k v h"
  have ok: "la_ok api ?h" "t \<in> la_live api ?h"
    using lua_heap.set_ok [OF assms(1) Cons.prems(1,2) kv(1) plain_live(1) [OF kv(2)] plain_live(1) [OF kv(3)]] Cons.prems(2)
    by (simp_all add: lua_heap.set_live [OF assms(1)])
  have "distinct (map fst es)" "\<forall>(k, v) \<in> set es. key_ok k \<and> plain_value k \<and> plain_value v" using Cons.prems by auto
  from Cons.IH [OF ok this] obtain h' where h': "clone_entries api (helpers_Clone api (Suc n)) t es ?h = Some h'"
    "la_ok api h'" "la_live api h' = la_live api ?h" "map_of (la_entries api h' t) = map_of (la_entries api ?h t) ++ map_of es"
    "\<forall>b. b \<noteq> t \<longrightarrow> la_entries api h' b = la_entries api ?h b" by blast
  have "map_of (la_entries api ?h t) ++ map_of es = map_of (la_entries api h t) ++ map_of (e # es)"
    using kv(4) plain_live(2) [OF kv(3)]
    by (simp add: e lua_heap.set_entries [OF assms(1) Cons.prems(1,2) kv(1)] map_add_upd_left dom_map_of_conv_image_fst)
  with h'(4) have "map_of (la_entries api h' t) = map_of (la_entries api h t) ++ map_of (e # es)" by (rule trans)
  moreover have "clone_entries api (helpers_Clone api (Suc n)) t (e # es) h = Some h'"
    using h'(1) by (simp add: e clone_plain kv del: helpers_Clone.simps)
  moreover have "la_live api h' = la_live api h" "\<forall>b. b \<noteq> t \<longrightarrow> la_entries api h' b = la_entries api h b"
    using h'(3,5) by (simp_all add: lua_heap.set_live [OF assms(1)] lua_heap.set_other [OF assms(1)])
  ultimately show ?case using h'(2) by (intro exI [of _ h'] conjI)
qed simp

text \<open>The copy of a flat table has its entries, and is another table.\<close>

lemma clone_flat_table:
  assumes "lua_heap api" and "la_ok api h" and "a \<in> la_live api h"
    and "\<forall>(k, v) \<in> set (la_entries api h a). plain_value k \<and> plain_value v"
  shows "\<exists>t h'. helpers_Clone api (Suc (Suc n)) (LTable a) h = Some (LTable t, h') \<and> t \<notin> la_live api h \<and> la_ok api h'
    \<and> map_of (la_entries api h' t) = map_of (la_entries api h a)
    \<and> (\<forall>b. b \<noteq> t \<longrightarrow> la_entries api h' b = la_entries api h b) \<and> insert t (la_live api h) \<subseteq> la_live api h'"
proof -
  obtain t h1 where n: "la_new_table api h = (t, h1)" by (cases "la_new_table api h")
  note new = lua_heap.new_table [OF assms(1,2) n]
  have es: "distinct (map fst (la_entries api h a))"
    "\<forall>(k, v) \<in> set (la_entries api h a). key_ok k \<and> plain_value k \<and> plain_value v"
    using lua_heap.entries_distinct [OF assms(1,2)] lua_heap.entries_ok [OF assms(1,2)] assms(4) by blast+
  have "la_ok api h1" "t \<in> la_live api h1" using new by auto
  from clone_entries_flat [OF assms(1) this es, of n] obtain h' where
    "clone_entries api (helpers_Clone api (Suc n)) t (la_entries api h a) h1 = Some h'" "la_ok api h'"
    "map_of (la_entries api h' t) = map_of (la_entries api h a)"
    "\<forall>b. b \<noteq> t \<longrightarrow> la_entries api h' b = la_entries api h1 b" "la_live api h' = la_live api h1"
    using new by auto
  then show ?thesis using n new by (intro exI [of _ t] exI [of _ h']) simp
qed

lemma newObject_keeps_tables:
  assumes "lua_heap api" and "la_ok api (os_heap s)" and "b \<in> la_live api (os_heap s)"
    and "newObject api set_fn get_fn ud methods properties value table readonly protected s = (ob, s')"
  shows "la_entries api (os_heap s') b = la_entries api (os_heap s) b \<and> os_udata s' ud = UDObject ob
    \<and> ob = \<lparr>ob_methods = methods, ob_properties = properties, ob_table = table, ob_go = value, ob_readonly = readonly,
            ob_protected = protected, ob_userData = ud\<rparr>"
proof -
  obtain m h where m: "la_new_table api (os_heap s) = (m, h)" by fastforce
  have n: "m \<notin> la_live api (os_heap s)" "\<forall>b. b \<noteq> m \<longrightarrow> la_entries api h b = la_entries api (os_heap s) b"
    using lua_heap.new_table [OF assms(1,2) m] by blast+
  have b: "b \<noteq> m" using n(1) assms(3) by metis
  then show ?thesis
    using assms(4) m n(2) by (auto simp: newObject_def store_object_def Let_def lua_heap.set_other [OF assms(1) b])
qed

lemma clone_plain_properties:
  "\<forall>(k, v) \<in> set kvs. plain_value v \<Longrightarrow> clone_properties api (Suc n) kvs s = Some (kvs, s)"
  by (induction kvs) (auto simp: clone_plain simp del: helpers_Clone.simps)

subsection \<open>Properties\<close>

text \<open>
  C31: a clone.  Cloning an object with plain properties and a flat table ends and gives an object over the same Go value with the
  same flags and properties and a table of its own with the same entries, while the object's table stays as it is; its methods
  have the same names, but each captures the clone's user data instead of what the object's method had captured, so the
  functions of a stream no longer find their stream.
\<close>

theorem clone_copies:
  fixes ob :: "'g object" and s :: "('h, 'g) objects"
  assumes heap: "lua_heap api" and ok: "la_ok api (os_heap s)" and a: "os_udata s a = UDObject ob"
    and t: "\<not> ob_readonly ob" "ob_table ob = Some t" "t \<in> la_live api (os_heap s)"
    and flat: "\<forall>(k, v) \<in> set (la_entries api (os_heap s) t). plain_value k \<and> plain_value v"
    and props: "\<forall>(k, v) \<in> set (ob_properties ob). plain_value v"
  shows "\<exists>ob' s' t'. object_Clone api set_fn get_fn closure gfunction (Suc (Suc n)) (LUserData a) s = CloneDone (obj_Value ob') s'
    \<and> os_udata s' (ob_userData ob') = UDObject ob' \<and> ob_go ob' = ob_go ob \<and> ob_properties ob' = ob_properties ob
    \<and> \<not> ob_readonly ob' \<and> ob_protected ob' = ob_protected ob
    \<and> ob_table ob' = Some t' \<and> t' \<noteq> t
    \<and> map_of (la_entries api (os_heap s') t') = map_of (la_entries api (os_heap s) t)
    \<and> la_entries api (os_heap s') t = la_entries api (os_heap s) t
    \<and> ob_methods ob' = (\<lambda>k. map_option (\<lambda>f. closure (gfunction f) (ob_userData ob')) (ob_methods ob k))"
proof -
  obtain ud s1 where u: "new_udata api (ob_go ob) s = (ud, s1)" by fastforce
  obtain h1 where h1: "la_new_udata api () (os_heap s) = (ud, h1)" "os_heap s1 = h1"
    using u by (auto simp: new_udata_def split: prod.splits)
  have s1: "la_ok api (os_heap s1)" "t \<in> la_live api (os_heap s1)"
    "la_entries api (os_heap s1) = la_entries api (os_heap s)"
    using lua_heap.new_udata [OF heap ok h1(1)] h1(2) t(3) by auto
  from clone_flat_table [OF lifted_heap [OF heap], of s1 t n] s1 flat obtain t' s2 where
    c: "helpers_Clone (objects_api api) (Suc (Suc n)) (LTable t) s1 = Some (LTable t', s2)"
      "t' \<notin> la_live api (os_heap s1)" "la_ok api (os_heap s2)"
      "map_of (la_entries api (os_heap s2) t') = map_of (la_entries api (os_heap s1) t)"
      "\<forall>b. b \<noteq> t' \<longrightarrow> la_entries api (os_heap s2) b = la_entries api (os_heap s1) b"
      "insert t' (la_live api (os_heap s1)) \<subseteq> la_live api (os_heap s2)" by auto
  let ?methods = "\<lambda>k. map_option (\<lambda>f. closure (gfunction f) ud) (ob_methods ob k)"
  obtain ob' s' where o: "newObject api set_fn get_fn ud ?methods (ob_properties ob) (ob_go ob) (Some t') False
      (ob_protected ob) s2 = (ob', s')" by fastforce
  have live: "t \<in> la_live api (os_heap s2)" "t' \<in> la_live api (os_heap s2)" "t' \<noteq> t" using c(2,6) s1(2) by auto
  note k = newObject_keeps_tables [OF heap c(3) live(1) o] newObject_keeps_tables [OF heap c(3) live(2) o]
  have "object_Clone api set_fn get_fn closure gfunction (Suc (Suc n)) (LUserData a) s = CloneDone (obj_Value ob') s'"
    using a t u o c(1) clone_plain_properties [OF props, of api "Suc n" s1]
    by (simp add: object_Clone_def object_Get_def clone_table_def del: helpers_Clone.simps)
  with k c(4,5) live(3) s1(3) show ?thesis
    by (intro exI [of _ ob'] exI [of _ s'] exI [of _ t']) simp
qed

lemma clone_copies_witness:
  "\<exists>(ob :: nat object) s t' (ob' :: nat object) s'. os_udata s 0 = UDObject ob \<and> ob_table ob = Some 0
     \<and> object_Clone (alist_api (\<lambda>_. [])) id id (\<lambda>f ud. f + ud) id 2 (LUserData 0) s = CloneDone (obj_Value ob') s'
     \<and> ob_table ob' = Some t' \<and> t' \<noteq> 0 \<and> map_of (ah_tables (os_heap s') t') (LString ''a'') = Some (LBool True)"
proof -
  let ?api = "alist_api (\<lambda>_. []) :: (unit alist_heap, unit) lua_api"
  let ?h = "\<lparr>ah_next = 1, ah_tables = (\<lambda>_. [])(0 := [(LString ''a'', LBool True)]), ah_udata = (\<lambda>_. ()), ah_unext = 1\<rparr>"
  let ?ob = "\<lparr>ob_methods = [''read'' \<mapsto> 5], ob_properties = [(''p'', LString ''q'')], ob_table = Some 0, ob_go = 7,
               ob_readonly = False, ob_protected = True, ob_userData = 0\<rparr> :: nat object"
  let ?s = "\<lparr>os_heap = ?h, os_udata = (\<lambda>_. UDObject ?ob), os_meta = Map.empty\<rparr>"
  have ok: "la_ok ?api (os_heap ?s)"
    by (simp add: alist_api_simps alist_ok_def key_ok_def below_def)
  have "\<exists>ob' s' t'. object_Clone ?api id id (\<lambda>f ud. f + ud) id (Suc (Suc 0)) (LUserData 0) ?s = CloneDone (obj_Value ob') s'
    \<and> os_udata s' (ob_userData ob') = UDObject ob' \<and> ob_go ob' = ob_go ?ob \<and> ob_properties ob' = ob_properties ?ob
    \<and> \<not> ob_readonly ob' \<and> ob_protected ob' = ob_protected ?ob
    \<and> ob_table ob' = Some t' \<and> t' \<noteq> 0
    \<and> map_of (la_entries ?api (os_heap s') t') = map_of (la_entries ?api (os_heap ?s) 0)
    \<and> la_entries ?api (os_heap s') 0 = la_entries ?api (os_heap ?s) 0
    \<and> ob_methods ob' = (\<lambda>k. map_option (\<lambda>f. id f + ob_userData ob') (ob_methods ?ob k))"
    by (rule clone_copies [OF alist.lua_heap_axioms ok]) (simp_all add: alist_api_simps plain_value_def)
  then obtain ob' :: "nat object" and s' t' where c: "object_Clone ?api id id (\<lambda>f ud. f + ud) id (Suc (Suc 0)) (LUserData 0) ?s = CloneDone (obj_Value ob') s'"
    "ob_table ob' = Some t'" "t' \<noteq> 0"
    "map_of (la_entries ?api (os_heap s') t') = map_of (la_entries ?api (os_heap ?s) 0)"
    by blast
  from c(4) have "map_of (ah_tables (os_heap s') t') (LString ''a'') = Some (LBool True)"
    by (simp add: alist_api_simps)
  with c(1-3) show ?thesis
    by (intro exI [of _ ?ob] exI [of _ ?s] exI [of _ t'] exI [of _ ob'] exI [of _ s']) (simp add: numeral_2_eq_2)
qed

end
