(* ===== verification/Modules_Open.thy ===== *)
theory Modules_Open
  imports Core_Modules
begin

text \<open>
  The functions \<open>Open\<close> of the modules under \<open>pkg/core\<close>, and the order in which \<open>runLua\<close> of \<open>pkg/server/lua_run.go\<close> calls
  them on a new Lua state: which Go functions a script finds under which names.  The heap is the interpreter's; \<open>closure\<close>
  makes a Lua function of a Go function and its captured user data.
\<close>

datatype module_fn =
    GUUID | GBitOr | GBitAnd | GBitXor | JDecode | JEncode
  | FsFlags | FsOpen | FsRemove | FsRemoveAll | FsStat | FsReadDir | FsMkdir | FsMkdirAll
  | HttpRequest | HttpCreateServer | LogAt log_level
  | NetDial | NetCreateServer | WsDial | WsCreateServer | RedisNew
  | RpcStart | RpcRegister | RpcCall | RpcBroadcast | SqlOpen | TimeNow | TimeTick | TimeTimeout







subsection \<open>The steps of opening\<close>















text \<open>
  The interpreter: its tables, \<open>L.FindTable\<close>, the closures, the running of a script's text, and the two tables.  \<open>find_script\<close>
  is the box of scripts.
\<close>

record 'h opener =
  op_api :: "('h, unit) lua_api"
  op_find :: "addr \<Rightarrow> string \<Rightarrow> 'h \<Rightarrow> lval \<times> 'h"
  op_closure :: "module_fn \<Rightarrow> addr option \<Rightarrow> addr"
  op_script :: "string \<Rightarrow> string option"
  op_run :: "string \<Rightarrow> 'h \<Rightarrow> (string + lval) \<times> 'h"
  op_loaded :: addr
  op_globals :: addr











subsection \<open>What the steps keep\<close>




subsection \<open>An interpreter\<close>

text \<open>Association lists as tables, 0 and 1 the tables of loaded modules and of globals, and scripts that give an empty table.\<close>

definition alist_opener :: "(module_fn \<Rightarrow> addr option \<Rightarrow> addr) \<Rightarrow> unit alist_heap opener" where
  "alist_opener closure =
     \<lparr>op_api = alist_api (\<lambda>_. []),
      op_find = (\<lambda>a name h.
        case map_of (ah_tables h a) (LString name) of
          Some v \<Rightarrow> (v, h)
        | None \<Rightarrow> (case la_new_table (alist_api (\<lambda>_. [])) h of
            (t, h1) \<Rightarrow> (LTable t, la_set (alist_api (\<lambda>_. [])) a (LString name) (LTable t) h1))),
      op_closure = closure, op_script = (\<lambda>path. Some path),
      op_run = (\<lambda>src h. case la_new_table (alist_api (\<lambda>_. [])) h of (t, h1) \<Rightarrow> (Inr (LTable t), h1)),
      op_loaded = 0, op_globals = 1\<rparr>"

lemma alist_opener_simps [simp]:
  "op_api (alist_opener cl) = alist_api (\<lambda>_. [])" "op_closure (alist_opener cl) = cl"
  "op_script (alist_opener cl) path = Some path" "op_loaded (alist_opener cl) = 0" "op_globals (alist_opener cl) = 1"
  by (simp_all add: alist_opener_def)


subsection \<open>Properties\<close>



end
