(* ===== verification/Rpc_Module.thy ===== *)
theory Rpc_Module
  imports Rpc_Path Sql_Redis
begin

text \<open>
  The Lua side of the module \<open>rpc\<close> (\<open>pkg/core/rpc/rpc.go\<close>) on the world of the modules: \<open>auxCall\<close> with the checks of the
  arguments and the message as JSON, the calls that hand responses to callbacks, the handling of a request with its reply
  function, and \<open>luaRPCBroadcast\<close> of \<open>pkg/server/lua_rpc.go\<close> as a whole.  \<open>parse\<close> and \<open>print\<close> are Go's JSON text.
\<close>

subsection \<open>JSON texts of Lua values\<close>

record json_text =
  jt_parse :: "string \<Rightarrow> string + json"
  jt_print :: "json \<Rightarrow> bytes"
  jt_error :: "enc_error \<Rightarrow> string"
  jt_udata :: udata_json
  jt_lit :: "string \<Rightarrow> enc_error + json"

definition encode_body :: "('h, 'x) interp \<Rightarrow> json_text \<Rightarrow> lval \<Rightarrow> 'h \<Rightarrow> (string + bytes) option" where
  "encode_body ip jt v h =
     map_option (\<lambda>r. case r of
         Inl e \<Rightarrow> Inl (jt_error jt e) | Inr None \<Rightarrow> Inr [] | Inr (Some j) \<Rightarrow> Inr (jt_print jt j))
       (Encode (in_api ip) (\<lambda>_. jt_udata jt) (jt_lit jt) h v)"

subsection \<open>Calls\<close>

text \<open>
  \<open>auxCall\<close>: what raises, or the callback and the request that its Go call makes when it runs; the options are read there.
\<close>

definition option_timeout :: "('h, 'x) interp \<Rightarrow> param \<Rightarrow> ('h, 'x) world \<Rightarrow> lval" where
  "option_timeout ip options w =
     (case param_value options of
        LTable t \<Rightarrow> la_get (in_api ip) (os_heap (w_os w)) t (LString ''timeout'') | _ \<Rightarrow> LNil)"

definition auxCall ::
    "('h, 'x) interp \<Rightarrow> json_text \<Rightarrow> lval list \<Rightarrow> ('h, 'x) world \<Rightarrow>
     (lua_fail + lval \<times> (('h, 'x) world \<Rightarrow> instant \<Rightarrow> core_request)) option" where
  "auxCall ip jt args w =
     (case Check 1 2 args [param_String [], param_Any [], param_Table []] of
        Inl e \<Rightarrow> Some (Inl (BadArgs e))
      | Inr (cb, ps) \<Rightarrow>
          map_option (map_sum LuaError
              (\<lambda>body. (cb, \<lambda>w1 now. auxCall_request (par_string (ps ! 0)) body (option_timeout ip (ps ! 2) w1) now)))
            (encode_body ip jt (param_value (ps ! 1)) (os_heap (w_os w))))"

text \<open>The scoped calls that \<open>rpc.call\<close> and \<open>rpc.broadcast\<close> make of what comes back.\<close>

definition lCall_scoped ::
    "('h, 'x) interp \<Rightarrow> json_text \<Rightarrow> lval \<Rightarrow> core_response \<Rightarrow> ('h, 'x) world call" where
  "lCall_scoped ip jt cb res =
     CallScoped (\<lambda>w.
       case cp_error res of
         Some e \<Rightarrow> CallLuaFunction ip cb [LString e] w
       | None \<Rightarrow>
           (case Decode (in_api ip) (jt_parse jt) (cp_body res) (os_heap (w_os w)) of
              Inl e \<Rightarrow> CallLuaFunction ip cb [LString e] w
            | Inr (v, h) \<Rightarrow> CallLuaFunction ip cb [LNil, v] (with_heap h w)))"

fun broadcast_table ::
    "('h, 'x) interp \<Rightarrow> json_text \<Rightarrow> addr \<Rightarrow> core_response list \<Rightarrow> 'h \<Rightarrow> string \<times> 'h + 'h" where
  "broadcast_table ip jt t [] h = Inr h"
| "broadcast_table ip jt t (res # rs) h =
     (case la_new_table (in_api ip) h of
        (tb, h1) \<Rightarrow>
          (case cp_error res of
             Some e \<Rightarrow>
               broadcast_table ip jt t rs
                 (la_append (in_api ip) t (LTable tb) (la_set (in_api ip) tb (LString ''error'') (LString e) h1))
           | None \<Rightarrow>
               (case Decode (in_api ip) (jt_parse jt) (cp_body res) h1 of
                  Inl e \<Rightarrow> Inl (e, h1)
                | Inr (v, h2) \<Rightarrow>
                    broadcast_table ip jt t rs
                      (la_append (in_api ip) t (LTable tb) (la_set (in_api ip) tb (LString ''body'') v h2)))))"

definition lBroadcast_scoped ::
    "('h, 'x) interp \<Rightarrow> json_text \<Rightarrow> lval \<Rightarrow> core_response list \<Rightarrow> ('h, 'x) world call" where
  "lBroadcast_scoped ip jt cb rs =
     CallScoped (\<lambda>w.
       case la_new_table (in_api ip) (os_heap (w_os w)) of
         (t, h) \<Rightarrow>
           (case broadcast_table ip jt t rs h of
              Inl (e, h1) \<Rightarrow> CallLuaFunction ip cb [LString e] (with_heap h1 w)
            | Inr h1 \<Rightarrow> CallLuaFunction ip cb [LNil, LTable t] (with_heap h1 w)))"

subsection \<open>Handling a request\<close>

text \<open>
  \<open>reply req res\<close> is \<open>env.Reply\<close> on the world.  The reply function of a request, which \<open>closure\<close> makes a Lua function of;
  a value that cannot be encoded raises before anything is replied.
\<close>

definition lReply ::
    "('h, 'x) interp \<Rightarrow> json_text \<Rightarrow> (core_request \<Rightarrow> core_response \<Rightarrow> ('h, 'x) world \<Rightarrow> ('h, 'x) world) \<Rightarrow> core_request \<Rightarrow>
     instant \<Rightarrow> lval list \<Rightarrow> ('h, 'x) world \<Rightarrow> (('h, 'x) world \<times> (lua_fail + lval list)) option" where
  "lReply ip jt reply req now args w =
     (if expired req now then Some (w, Inl (LuaError (''req \"'' @ cr_id req @ ''\" is already timedout'')))
      else if get_arg args 1 \<noteq> LNil
      then Some (reply req \<lparr>cp_body = [], cp_error = Some (la_tostring (in_api ip) (get_arg args 1))\<rparr> w, Inr [])
      else map_option (\<lambda>r. case r of
               Inl e \<Rightarrow> (w, Inl (LuaError e))
             | Inr b \<Rightarrow> (reply req \<lparr>cp_body = b, cp_error = None\<rparr> w, Inr []))
             (encode_body ip jt (get_arg args 2) (os_heap (w_os w))))"

definition lRPC_handle ::
    "('h, 'x) interp \<Rightarrow> json_text \<Rightarrow> (core_request \<Rightarrow> core_response \<Rightarrow> ('h, 'x) world \<Rightarrow> ('h, 'x) world) \<Rightarrow>
     (core_request \<Rightarrow> addr) \<Rightarrow> (string \<rightharpoonup> addr) \<Rightarrow> core_request \<Rightarrow> ('h, 'x) world \<Rightarrow>
     ('h, 'x) world \<times> ('h, 'x) world call list" where
  "lRPC_handle ip jt reply closure handlers req w =
     (case handlers (cr_name req) of
        None \<Rightarrow> (reply req (method_not_found (cr_name req)) w, [])
      | Some f \<Rightarrow>
          (w, [CallScoped (\<lambda>w1.
             case Decode (in_api ip) (jt_parse jt) (cr_body req) (os_heap (w_os w1)) of
               Inl e \<Rightarrow> (reply req (method_not_found (cr_name req)) w1, [], None)
             | Inr (v, h) \<Rightarrow>
                 (case CallLuaFunction ip (LFunction f) [v, LFunction (closure req)] (with_heap h w1) of
                    (w2, cs, None) \<Rightarrow> (w2, cs, None)
                  | (w2, cs, Some e) \<Rightarrow> (reply req \<lparr>cp_body = [], cp_error = Some e\<rparr> w2, cs, None)))]))"

subsection \<open>Broadcasting\<close>

text \<open>
  \<open>luaRPCBroadcast\<close> before its wait: the ids to wait for, the error responses it inserts itself, and the inbox; \<open>None\<close> while
  a local consumer's channel is full.
\<close>

definition luaRPCBroadcast_plan ::
    "('cc \<Rightarrow> string + string list) \<Rightarrow> string list \<Rightarrow> (nat \<Rightarrow> string) \<Rightarrow> string \<Rightarrow> instant \<Rightarrow> core_request \<Rightarrow> 'cc server \<Rightarrow>
     'q inbox \<Rightarrow> (string list \<times> rpc_response list \<times> 'q inbox) option" where
  "luaRPCBroadcast_plan remote local_ids fresh i now req s ib =
     (case (if map_of (sv_local s) (cr_name req) = None then Some ([], ib_consumers ib)
            else Inbox_Broadcast local_ids (loopback_request i now req) (ib_consumers ib)) of
        None \<Rightarrow> None
      | Some (ids, cs) \<Rightarrow>
          (case sv_services s (cr_name req) of
             None \<Rightarrow> Some (ids, [], ib\<lparr>ib_consumers := cs\<rparr>)
           | Some g \<Rightarrow>
               (case broadcast_nodes remote fresh 0 now (cr_name req) s g of
                  (ids', rs) \<Rightarrow> Some (ids @ ids', rs, ib\<lparr>ib_consumers := cs\<rparr>))))"

text \<open>The responses of the ids, one after the other; a nil one panics.\<close>

fun collect_responses :: "rpc_response option list \<Rightarrow> core_response list option" where
  "collect_responses [] = Some []"
| "collect_responses (r # rs) =
     (case broadcast_result r of
        None \<Rightarrow> None | Some c \<Rightarrow> map_option (Cons c) (collect_responses rs))"

subsection \<open>What arrives\<close>

lemma with_heap_same [simp]: "with_heap (os_heap (w_os w)) w = w"
  by (simp add: with_heap_def)




text \<open>
  a nil reply is an error at the caller.  \<open>reply(nil)\<close>, \<open>reply()\<close> and \<open>reply(nil, nil)\<close> send a response with an empty body
  and no error; \<open>json.Decode\<close> fails on the empty text, so the callback gets that failure as its error.
\<close>

theorem nil_reply_is_error:
  assumes "jt_parse jt [] = Inl e" and "\<not> expired req now" and "set args \<subseteq> {LNil}"
  shows "\<exists>res f. lReply ip1 jt reply req now args w1 = Some (reply req res w1, Inr []) \<and> cp_error res = None
    \<and> lCall_scoped ip2 jt cb res = CallScoped f \<and> f w2 = CallLuaFunction ip2 cb [LString e] w2"
proof -
  let ?res = "\<lparr>cp_body = [], cp_error = None\<rparr>"
  have "get_arg args i = LNil" for i
    using assms(3) nth_mem [of "i - Suc 0" args] by (fastforce simp: get_arg_def)
  then have "lReply ip1 jt reply req now args w1 = Some (reply req ?res w1, Inr [])"
    using assms(2) by (simp add: lReply_def encode_body_def Encode_def)
  then show ?thesis
    using assms(1) by (intro exI [of _ ?res]) (auto simp: lCall_scoped_def Decode_def)
qed

text \<open>
  a message arrives.  \<open>rpc.call\<close> with a string and a callback makes a request without a deadline; whatever ids the server
  gives it, the handler registered under its name is called with that string and the reply function of the request,
  and an error it raises is the reply.
\<close>

theorem message_arrives:
  assumes "jt_parse jt (jt_print jt (JStr s)) = Inr (JStr s)" and "handlers nm = Some g"
  shows "\<exists>mk. auxCall ip1 jt [LString nm, LString s, LFunction f] w = Some (Inr (LFunction f, mk))
    \<and> (\<forall>w1 now. cr_expires (mk w1 now) = None)
    \<and> (\<forall>req w1 now. cr_name req = cr_name (mk w1 now) \<and> cr_body req = cr_body (mk w1 now) \<longrightarrow>
        (\<exists>b. lRPC_handle ip2 jt reply closure handlers req w2 = (w2, [CallScoped b])
          \<and> b w2 = (case CallLuaFunction ip2 (LFunction g) [LString s, LFunction (closure req)] w2 of
                      (w3, cs, None) \<Rightarrow> (w3, cs, None)
                    | (w3, cs, Some e) \<Rightarrow> (reply req \<lparr>cp_body = [], cp_error = Some e\<rparr> w3, cs, None))))"
proof -
  have "Check 1 2 [LString nm, LString s, LFunction f] [param_String [], param_Any [], param_Table []]
      = Inr (LFunction f, [StringType nm, AnyType (LString s), TableType None])"
    by (simp add: Check_def get_arg_def param_String_def param_Any_def param_Table_def)
  then show ?thesis
    using assms
    by (simp add: auxCall_def encode_body_def Encode_def option_timeout_def auxCall_request_def call_deadline_def
        lRPC_handle_def Decode_def)
qed

text \<open>
  What the table of one response holds: the error, or the decoded body; \<open>t\<close> is the list under construction, which the
  tables of the responses are no part of.
\<close>

definition slot ::
    "('h, 'u) lua_api \<Rightarrow> (string \<Rightarrow> string + json) \<Rightarrow> addr \<Rightarrow> 'h \<Rightarrow> core_response \<Rightarrow> addr \<Rightarrow> bool" where
  "slot api parse t h res tb \<longleftrightarrow> tb \<in> la_live api h \<and> tb \<noteq> t \<and>
     (case cp_error res of
        Some e \<Rightarrow> map_of (la_entries api h tb) = [LString ''error'' \<mapsto> LString e]
      | None \<Rightarrow> \<exists>j v L. parse (cp_body res) = Inr j \<and> rep api h j v L \<and> set L \<subseteq> la_live api h - {t}
          \<and> map_of (la_entries api h tb) = (\<lambda>_. None)(LString ''body'' := if v = LNil then None else Some v))"

definition readable :: "(string \<Rightarrow> string + json) \<Rightarrow> core_response \<Rightarrow> bool" where
  "readable parse res \<longleftrightarrow> cp_error res \<noteq> None \<or> (\<exists>j. parse (cp_body res) = Inr j \<and> good_json j)"

lemma slot_frame:
  assumes "slot api parse t h res tb" and "grows_but api t h h'"
  shows "slot api parse t h' res tb"
proof -
  have same: "la_entries api h' b = la_entries api h b" if "b \<in> la_live api h" "b \<noteq> t" for b
    using assms(2) that by (simp add: grows_but_def)
  have live: "la_live api h \<subseteq> la_live api h'" using assms(2) by (simp add: grows_but_def)
  have tb: "tb \<in> la_live api h" "tb \<noteq> t" using assms(1) by (simp_all add: slot_def)
  show ?thesis
  proof (cases "cp_error res")
    case None
    then obtain j v L where j: "parse (cp_body res) = Inr j" "rep api h j v L" "set L \<subseteq> la_live api h - {t}"
      "map_of (la_entries api h tb) = (\<lambda>_. None)(LString ''body'' := if v = LNil then None else Some v)"
      using assms(1) by (auto simp: slot_def)
    have "rep api h' j v L" using rep_frame(1) [OF j(2)] same j(3) by blast
    moreover have "set L \<subseteq> la_live api h' - {t}" using j(3) live by blast
    ultimately show ?thesis using None j(1,4) same [OF tb] tb live by (auto simp: slot_def simp del: fun_upd_apply)
  next
    case (Some e)
    then show ?thesis using assms(1) same [OF tb] tb live by (auto simp: slot_def)
  qed
qed

text \<open>A write to a table that is new.\<close>

lemma grows_set:
  assumes "lua_heap api" and "grows api h h'" and "tb \<in> la_live api h'" and "tb \<notin> la_live api h"
    and "lval_live api h' v"
  shows "grows api h (la_set api tb (LString s) v h')"
proof -
  have "la_ok api (la_set api tb (LString s) v h')"
    using lua_heap.set_ok [OF assms(1) _ assms(3) key_ok_string live_string assms(5)] assms(2)
    by (simp add: grows_def)
  moreover have "la_entries api (la_set api tb (LString s) v h') b = la_entries api h b"
    if "b \<in> la_live api h" for b
  proof -
    have "b \<noteq> tb" using that assms(4) by auto
    then show ?thesis using that assms(2) lua_heap.set_other [OF assms(1)] by (simp add: grows_def)
  qed
  ultimately show ?thesis using assms(2) lua_heap.set_live [OF assms(1)] by (simp add: grows_def)
qed

text \<open>One response: its table, filled.\<close>

lemma broadcast_slot:
  assumes api: "lua_heap api" and ok: "la_ok api h" and t: "t \<in> la_live api h"
    and n: "la_new_table api h = (tb, h1)" and r: "readable parse res"
  shows "case cp_error res of
      Some e \<Rightarrow> grows api h (la_set api tb (LString ''error'') (LString e) h1)
        \<and> slot api parse t (la_set api tb (LString ''error'') (LString e) h1) res tb
    | None \<Rightarrow> \<exists>v h2. Decode api parse (cp_body res) h1 = Inr (v, h2)
        \<and> grows api h (la_set api tb (LString ''body'') v h2)
        \<and> slot api parse t (la_set api tb (LString ''body'') v h2) res tb"
proof -
  note new = lua_heap.new_table [OF api ok n]
  have tb: "tb \<noteq> t" using new t by auto
  have g1: "grows api h h1" using new by (auto simp: grows_def)
  show ?thesis
  proof (cases "cp_error res")
    case None
    with r obtain j where j: "parse (cp_body res) = Inr j" "good_json j" by (auto simp: readable_def)
    obtain v h2 where d: "DecodeValue api j h1 = (v, h2)" by fastforce
    obtain L where L: "decoded api h1 j v h2 L" using decode_all(1) [OF api _ j(2) d] new by blast
    let ?h = "la_set api tb (LString ''body'') v h2"
    have h2: "la_ok api h2" "tb \<in> la_live api h2" "lval_live api h2 v" "la_entries api h2 tb = []" "tb \<notin> set L"
      using L new by (auto simp: decoded_def grows_def)
    have "grows api h h2" by (rule grows_trans [OF g1]) (use L in \<open>simp add: decoded_def\<close>)
    then have g: "grows api h ?h" using grows_set [OF api] h2(2,3) new by blast
    have "map_of (la_entries api ?h tb) = (\<lambda>_. None)(LString ''body'' := if v = LNil then None else Some v)"
    proof (cases "v = LNil")
      case True
      with lua_heap.set_nil [OF api h2(1,2) key_ok_string, of "''body''"] h2(4) show ?thesis by simp
    next
      case False
      with lua_heap.set_entries [OF api h2(1,2) key_ok_string False, of "''body''"] h2(4) show ?thesis by simp
    qed
    moreover have "rep api ?h j v L"
    proof (rule rep_frame(1))
      show "rep api h2 j v L" using L by (simp add: decoded_def)
      show "\<forall>b \<in> set L. la_entries api ?h b = la_entries api h2 b"
        using h2(5) by (intro ballI lua_heap.set_other [OF api]) auto
    qed
    moreover have "set L \<subseteq> la_live api ?h - {t}"
    proof -
      have "set L \<subseteq> la_live api h2" "t \<notin> set L" using L new t by (auto simp: decoded_def)
      then show ?thesis using lua_heap.set_live [OF api, of tb] by blast
    qed
    ultimately have "slot api parse t ?h res tb"
      using None j(1) tb h2(2) lua_heap.set_live [OF api, of tb] unfolding slot_def by (simp del: fun_upd_apply) blast
    with None g d j(1) show ?thesis by (simp add: Decode_def)
  next
    case (Some e)
    let ?h = "la_set api tb (LString ''error'') (LString e) h1"
    have h1: "la_ok api h1" "tb \<in> la_live api h1" using new by auto
    have "grows api h ?h" using grows_set [OF api g1 h1(2)] new by simp
    moreover have "slot api parse t ?h res tb"
      using Some tb h1 new lua_heap.set_entries [OF api h1 key_ok_string, of "LString e"]
      by (simp add: slot_def lua_heap.set_live [OF api])
    ultimately show ?thesis using Some by simp
  qed
qed

lemma broadcast_table_fills:
  assumes api: "lua_heap api" and "la_ok api h" and "t \<in> la_live api h"
    and "la_entries api h t = lua_seq (map LTable ts0)" and "list_all (readable (jt_parse jt)) rs" and a: "api = in_api ip"
  shows "\<exists>h' ts. broadcast_table ip jt t rs h = Inr h' \<and> grows_but api t h h'
    \<and> la_entries api h' t = lua_seq (map LTable (ts0 @ ts)) \<and> list_all2 (slot api (jt_parse jt) t h') rs ts"
  using assms(2-5)
proof (induction rs arbitrary: h ts0)
  case Nil
  then show ?case by (intro exI [of _ h] exI [of _ "[]"]) (simp add: grows_but_def)
next
  case (Cons res rs)
  obtain tb h1 where n: "la_new_table api h = (tb, h1)" by fastforce
  have r: "readable (jt_parse jt) res" "list_all (readable (jt_parse jt)) rs" using Cons.prems(4) by simp_all
  from broadcast_slot [OF api Cons.prems(1,2) n r(1)] obtain h2 where
    gr: "grows api h h2" and s2: "slot api (jt_parse jt) t h2 res tb"
    and step: "broadcast_table ip jt t (res # rs) h = broadcast_table ip jt t rs (la_append api t (LTable tb) h2)"
    using n by (cases "cp_error res") (fastforce simp: a)+
  have g2: "grows_but api t h h2" using grows_grows_but [OF gr] .
  have e2: "la_entries api h2 t = la_entries api h t" using gr Cons.prems(2) by (simp add: grows_def)
  let ?h = "la_append api t (LTable tb) h2"
  have h2: "la_ok api h2" "t \<in> la_live api h2" using g2 Cons.prems(2) by (auto simp: grows_but_def)
  have tb: "lval_live api h2 (LTable tb)" using s2 by (simp add: slot_def lval_live_def)
  have g3: "grows_but api t h2 ?h"
    using lua_heap.append_ok [OF api h2 tb] lua_heap.append_live [OF api] lua_heap.append_other [OF api]
    by (simp add: grows_but_def)
  have "la_entries api h2 t = lua_seq (map LTable ts0)" using e2 Cons.prems(3) by simp
  from lua_heap.append_entries [OF api h2 this, of "LTable tb"]
  have e3: "la_entries api ?h t = lua_seq (map LTable (ts0 @ [tb]))" by simp
  have h3: "la_ok api ?h" "t \<in> la_live api ?h" using g3 h2 by (auto simp: grows_but_def)
  from Cons.IH [OF h3 e3 r(2)] obtain h' ts where h': "broadcast_table ip jt t rs ?h = Inr h'" "grows_but api t ?h h'"
    "la_entries api h' t = lua_seq (map LTable ((ts0 @ [tb]) @ ts))" "list_all2 (slot api (jt_parse jt) t h') rs ts"
    by blast
  have g: "grows_but api t h2 h'" using grows_but_trans [OF g3 h'(2)] .
  have "slot api (jt_parse jt) t h' res tb" using slot_frame [OF s2 g] .
  moreover have "grows_but api t h h'" using grows_but_trans [OF g2 g] .
  ultimately show ?case using step h' by (intro exI [of _ h'] exI [of _ "tb # ts"]) simp
qed

text \<open>
  C12: \<open>rpc.broadcast\<close> gives all responses.  When every response without an error can be read as JSON, the callback gets nil
  and a new list with one table per response, in their order: it has the key \<open>error\<close> alone, with the error, or at most
  the key \<open>body\<close>, with a value that represents the JSON value of the response (none when that is null).
\<close>

theorem broadcast_lists_all:
  assumes "lua_heap (in_api ip)" and "la_ok (in_api ip) (os_heap (w_os w))" and "list_all (readable (jt_parse jt)) rs"
  shows "\<exists>f t ts h. lBroadcast_scoped ip jt cb rs = CallScoped f
    \<and> f w = CallLuaFunction ip cb [LNil, LTable t] (with_heap h w)
    \<and> t \<notin> la_live (in_api ip) (os_heap (w_os w)) \<and> la_entries (in_api ip) h t = lua_seq (map LTable ts)
    \<and> list_all2 (slot (in_api ip) (jt_parse jt) t h) rs ts"
proof -
  obtain t h1 where n: "la_new_table (in_api ip) (os_heap (w_os w)) = (t, h1)" by fastforce
  note new = lua_heap.new_table [OF assms(1,2) n]
  then have h1: "la_ok (in_api ip) h1" "t \<in> la_live (in_api ip) h1"
    "la_entries (in_api ip) h1 t = lua_seq (map LTable [])" by (simp_all add: lua_seq_def)
  from broadcast_table_fills [OF assms(1) h1 assms(3) refl] obtain h ts
    where "broadcast_table ip jt t rs h1 = Inr h" "la_entries (in_api ip) h t = lua_seq (map LTable ts)"
      "list_all2 (slot (in_api ip) (jt_parse jt) t h) rs ts" by auto
  with n new show ?thesis by (auto simp: lBroadcast_scoped_def)
qed

text \<open>The responses of a broadcast are those collected, unless one is nil.\<close>

lemma collect_responses_all:
  "collect_responses rs = (if None \<in> set rs then None else Some (map (\<lambda>r. the (broadcast_result r)) rs))"
  by (induction rs) (auto simp: broadcast_result_def split: option.splits)

subsection \<open>Concrete runs\<close>

text \<open>Texts that only hold strings.\<close>

definition string_text :: json_text where
  "string_text =
     \<lparr>jt_parse = (\<lambda>s. case s of [] \<Rightarrow> Inl ''unexpected end of JSON input'' | c # r \<Rightarrow> Inr (JStr (butlast r))),
      jt_print = (\<lambda>j. case j of JStr s \<Rightarrow> CHR 0x22 # s @ [CHR 0x22] | _ \<Rightarrow> []),
      jt_error = (\<lambda>_. []), jt_udata = UD_Other, jt_lit = (\<lambda>s. Inr (JStr s))\<rparr>"

definition toy_request :: core_request where
  "toy_request = \<lparr>cr_id = ''1'', cr_node = ''n'', cr_loopback = False, cr_name = ''echo'', cr_body = [], cr_expires = None\<rparr>"

lemma toy_api: "in_api toy_interp = alist_api (\<lambda>_. [])"
  by (simp add: toy_interp_def)

lemma toy_ok: "la_ok (in_api toy_interp) (os_heap (w_os (toy_world x)))" "lua_heap (in_api toy_interp)"
  by (simp_all add: toy_interp_def toy_world_def alist_api_simps empty_heap_ok alist.lua_heap_axioms)


lemma nil_reply_is_error_witness:
  "\<exists>f. lCall_scoped toy_interp string_text (LFunction 3) \<lparr>cp_body = [], cp_error = None\<rparr> = CallScoped f
    \<and> f (toy_world ()) = CallLuaFunction toy_interp (LFunction 3) [LString ''unexpected end of JSON input''] (toy_world ())"
proof -
  have "jt_parse string_text [] = Inl ''unexpected end of JSON input''" "\<not> expired toy_request 5" "set [LNil] \<subseteq> {LNil}"
    by (simp_all add: string_text_def expired_def toy_request_def)
  from nil_reply_is_error [OF this, of toy_interp "\<lambda>q r. w_ext_update (\<lambda>_. [r])" "toy_world []" toy_interp "LFunction 3" "toy_world ()"]
  obtain res f where r: "lReply toy_interp string_text (\<lambda>q r. w_ext_update (\<lambda>_. [r])) toy_request 5 [LNil] (toy_world [])
      = Some (w_ext_update (\<lambda>_. [res]) (toy_world []), Inr [])"
    "lCall_scoped toy_interp string_text (LFunction 3) res = CallScoped f"
    "f (toy_world ()) = CallLuaFunction toy_interp (LFunction 3) [LString ''unexpected end of JSON input''] (toy_world ())"
    by blast
  from r(1) have "res = \<lparr>cp_body = [], cp_error = None\<rparr>"
    by (simp add: lReply_def expired_def toy_request_def get_arg_def encode_body_def Encode_def toy_world_def)
  with r(2,3) show ?thesis by blast
qed

lemma message_arrives_witness:
  "\<exists>mk. auxCall toy_interp string_text [LString ''echo'', LString ''hi'', LFunction 3] (toy_world ()) = Some (Inr (LFunction 3, mk))
    \<and> (\<exists>b. lRPC_handle toy_interp string_text (\<lambda>q r. w_ext_update (\<lambda>_. [r])) (\<lambda>q. 4) [''echo'' \<mapsto> 9] (mk (toy_world ()) 5) (toy_world [])
        = (toy_world [], [CallScoped b]) \<and> b (toy_world []) = (toy_world [], [], None))"
proof -
  have p: "jt_parse string_text (jt_print string_text (JStr ''hi'')) = Inr (JStr ''hi'')" by (simp add: string_text_def)
  have h: "[''echo'' \<mapsto> 9 :: addr] ''echo'' = Some 9" by simp
  from message_arrives [OF p, of "[''echo'' \<mapsto> 9 :: addr]", OF h, of toy_interp 3 "toy_world ()" toy_interp "\<lambda>q r. w_ext_update (\<lambda>_. [r])" "\<lambda>q. 4" "toy_world []"]
  obtain mk where mk: "auxCall toy_interp string_text [LString ''echo'', LString ''hi'', LFunction 3] (toy_world ()) = Some (Inr (LFunction 3, mk))"
    "\<exists>b. lRPC_handle toy_interp string_text (\<lambda>q r. w_ext_update (\<lambda>_. [r])) (\<lambda>q. 4) [''echo'' \<mapsto> 9] (mk (toy_world ()) 5) (toy_world [])
        = (toy_world [], [CallScoped b]) \<and> b (toy_world []) = (case CallLuaFunction toy_interp (LFunction 9) [LString ''hi'', LFunction 4] (toy_world []) of
            (w3, cs, None) \<Rightarrow> (w3, cs, None) | (w3, cs, Some e) \<Rightarrow> (w3\<lparr>w_ext := [\<lparr>cp_body = [], cp_error = Some e\<rparr>]\<rparr>, cs, None))"
    by blast
  have "CallLuaFunction toy_interp (LFunction 9) [LString ''hi'', LFunction 4] (toy_world [])
      = (toy_world ([] :: core_response list), [], None)"
    by (simp add: CallLuaFunction_def lua_function_def toy_interp_def)
  with mk show ?thesis by auto
qed

lemma broadcast_lists_all_witness:
  "\<exists>f t ts h. lBroadcast_scoped toy_interp string_text (LFunction 3)
        [\<lparr>cp_body = [], cp_error = Some ''no''\<rparr>, \<lparr>cp_body = [CHR 0x22, CHR ''y'', CHR 0x22], cp_error = None\<rparr>] = CallScoped f
    \<and> f (toy_world ()) = CallLuaFunction toy_interp (LFunction 3) [LNil, LTable t] (with_heap h (toy_world ()))
    \<and> la_entries (alist_api (\<lambda>_. [])) h t = lua_seq (map LTable ts) \<and> length ts = 2"
proof -
  let ?rs = "[\<lparr>cp_body = [], cp_error = Some ''no''\<rparr>, \<lparr>cp_body = [CHR 0x22, CHR ''y'', CHR 0x22], cp_error = None\<rparr>]"
  have "list_all (readable (jt_parse string_text)) ?rs" by (simp add: readable_def string_text_def)
  from broadcast_lists_all [OF toy_ok(2) toy_ok(1) [of "()"] this, of "LFunction 3"]
  obtain f t ts h where b: "lBroadcast_scoped toy_interp string_text (LFunction 3) ?rs = CallScoped f"
    "f (toy_world ()) = CallLuaFunction toy_interp (LFunction 3) [LNil, LTable t] (with_heap h (toy_world ()))"
    "la_entries (alist_api (\<lambda>_. [])) h t = lua_seq (map LTable ts)"
    "list_all2 (slot (alist_api (\<lambda>_. [])) (jt_parse string_text) t h) ?rs ts" unfolding toy_api by blast
  from list_all2_lengthD [OF b(4)] have "length ts = 2" by simp
  with b(1-3) show ?thesis by blast
qed

end
