(* ===== verification/Rpc_System.thy ===== *)
theory Rpc_System
  imports Rpc_Path
begin

text \<open>
  The nodes of a cluster together: scripts call, inboxes hand requests to handlers, replies travel back to the boxes of the
  callers.  The state is one peer per node name, built from the operations of \<open>Rpc_Path\<close> and \<open>Reply_Box\<close>, and a history of
  the calls by id and of the responses that handlers gave.  An event is one step of one goroutine of one node, so a run is
  any interleaving of all of them; a broadcast is one step per consumer or unreachable node.  Reloads are left out.

  A client is the name of the node it talks to.  The format of gob and the disk queue are a record of functions, with
  what the code relies on as the predicates \<open>codec_ok\<close> and \<open>queue_takes\<close>.
\<close>

subsection \<open>State\<close>

text \<open>What lies outside: gob for both messages, and the disk queue with its operations and the messages it holds.\<close>

record 'q codec =
  gb_put_request :: "rpc_request \<Rightarrow> string + bytes"
  gb_get_request :: "bytes \<Rightarrow> string + rpc_request"
  gb_put_response :: "rpc_response \<Rightarrow> string + bytes"
  gb_get_response :: "bytes \<Rightarrow> string + rpc_response"
  dq_empty :: 'q
  dq_put :: "bytes \<Rightarrow> 'q \<Rightarrow> string + 'q"
  dq_read :: "'q \<Rightarrow> (bytes \<times> 'q) option"
  dq_items :: "'q \<Rightarrow> bytes list"

text \<open>
  \<open>pr_ids\<close> are the numbers under which the goroutines of \<open>pr_consumers\<close> are registered in the inbox; \<open>pr_taken\<close> are the
  requests that the node's goroutines of the module \<open>rpc\<close> have taken and handed to a script.  \<open>ci_error\<close> is the text with
  which a broadcast answers itself for a node that it did not reach.
\<close>

record 'q peer =
  pr_server :: "string server"
  pr_inbox :: "'q inbox"
  pr_ids :: "nat list"
  pr_consumers :: "consumer list"
  pr_taken :: "core_request list"
  pr_box :: reply_box
  pr_outbox :: 'q

record call_info =
  ci_caller :: string
  ci_server :: string
  ci_name :: string
  ci_body :: bytes
  ci_error :: "string option"

record 'q rpc_net =
  nt_peers :: "string \<Rightarrow> 'q peer"
  nt_calls :: "string \<rightharpoonup> call_info"
  nt_replies :: "(string \<times> string \<times> core_response) list"

definition new_peer :: "'q codec \<Rightarrow> string \<Rightarrow> 'q peer" where
  "new_peer cd n =
     \<lparr>pr_server = server_New empty_config n, pr_inbox = newInbox (dq_empty cd), pr_ids = [], pr_consumers = [], pr_taken = [],
      pr_box = newReplyBox, pr_outbox = dq_empty cd\<rparr>"

definition new_net :: "'q codec \<Rightarrow> 'q rpc_net" where
  "new_net cd = \<lparr>nt_peers = new_peer cd, nt_calls = Map.empty, nt_replies = []\<rparr>"

definition set_peer :: "string \<Rightarrow> 'q peer \<Rightarrow> 'q rpc_net \<Rightarrow> 'q rpc_net" where
  "set_peer n p s = s\<lparr>nt_peers := (nt_peers s)(n := p)\<rparr>"

definition note_call :: "string \<Rightarrow> call_info \<Rightarrow> 'q rpc_net \<Rightarrow> 'q rpc_net" where
  "note_call i c s = s\<lparr>nt_calls := (nt_calls s)(i \<mapsto> c)\<rparr>"

definition note_reply :: "string \<Rightarrow> string \<Rightarrow> core_response \<Rightarrow> 'q rpc_net \<Rightarrow> 'q rpc_net" where
  "note_reply n i res s = s\<lparr>nt_replies := nt_replies s @ [(n, i, res)]\<rparr>"

text \<open>A panic in the reply box has ended the node's process.\<close>

definition peer_dead :: "'q peer \<Rightarrow> bool" where
  "peer_dead p = rb_panic (pr_box p)"

subsection \<open>Steps\<close>

text \<open>A script's call, \<open>luaRPCCall\<close> up to its wait; the id is fresh, as a UUID is.  A dead node refuses the call.\<close>

definition net_call ::
    "'q codec \<Rightarrow> (rat \<Rightarrow> rat \<Rightarrow> rat) \<Rightarrow> (rat \<Rightarrow> rat \<Rightarrow> rat) \<Rightarrow> string \<Rightarrow> string \<Rightarrow> rat \<Rightarrow> (string \<times> rat) list \<Rightarrow>
     instant \<Rightarrow> instant \<Rightarrow> core_request \<Rightarrow> 'q rpc_net \<Rightarrow> 'q rpc_net option" where
  "net_call cd add mul n i rnd g now1 now2 req s =
     (if nt_calls s i \<noteq> None then None
      else case luaRPCCall_plan add mul rnd g i now1 req (pr_server (nt_peers s n)) of
             CallFails e \<Rightarrow> Some s
           | CallLocal rq \<Rightarrow>
               (case callLuaRPCMethod_start (gb_put_request cd) (dq_put cd) rq (pr_box (nt_peers s n))
                       (pr_inbox (nt_peers s n)) of
                  None \<Rightarrow> None
                | Some (b, Inl e) \<Rightarrow> Some (set_peer n ((nt_peers s n)\<lparr>pr_box := b\<rparr>) s)
                | Some (b, Inr (ch, ib)) \<Rightarrow>
                    Some (note_call i \<lparr>ci_caller = n, ci_server = n, ci_name = cr_name req, ci_body = cr_body req, ci_error = None\<rparr>
                            (set_peer n ((nt_peers s n)\<lparr>pr_box := b, pr_inbox := ib\<rparr>) s)))
           | CallRemote m cq \<Rightarrow>
               if peer_dead (nt_peers s m) then Some s
               else (case RPCCall (gb_put_request cd) (dq_put cd) i now2 cq (pr_inbox (nt_peers s m)) of
                       Inl e \<Rightarrow> Some s
                     | Inr (_, ib) \<Rightarrow>
                         Some (note_call i \<lparr>ci_caller = n, ci_server = m, ci_name = cr_name req, ci_body = cr_body req, ci_error = None\<rparr>
                                 (set_peer m ((nt_peers s m)\<lparr>pr_inbox := ib\<rparr>) s))))"

text \<open>
  A broadcast: one iteration of the loop of \<open>Inbox.Broadcast\<close>, which sends the request under an id of its own to the
  consumer registered as \<open>k\<close>, at the own node or at one that the group of the service names; the latter makes its
  request as \<open>RPCBroadcast\<close> does.
\<close>

definition net_to_consumer :: "string \<Rightarrow> string \<Rightarrow> nat \<Rightarrow> string \<Rightarrow> rpc_request \<Rightarrow> 'q rpc_net \<Rightarrow> 'q rpc_net option" where
  "net_to_consumer n m k i rq s =
     (let p = nt_peers s m; ib = pr_inbox p in
      case map_of (ib_consumers ib) k of
        None \<Rightarrow> None
      | Some ch \<Rightarrow>
          (case chan_put (broadcast_request i rq) ch of
             None \<Rightarrow> None
           | Some ch' \<Rightarrow>
               Some (note_call i \<lparr>ci_caller = n, ci_server = m, ci_name = rq_name rq, ci_body = rq_body rq, ci_error = None\<rparr>
                       (set_peer m (p\<lparr>pr_inbox := ib\<lparr>ib_consumers := AList.update k ch' (ib_consumers ib)\<rparr>\<rparr>) s))))"

definition served_broadcast :: "string \<Rightarrow> instant \<Rightarrow> duration \<Rightarrow> core_request \<Rightarrow> rpc_request" where
  "served_broadcast n now timeout req =
     \<lparr>rq_id = [], rq_name = cr_name req, rq_body = cr_body req, rq_timestamp = now,
      rq_timeout = duration_of_ms (Milliseconds timeout), rq_node = n, rq_loopback = False\<rparr>"

definition net_broadcast ::
    "string \<Rightarrow> string option \<Rightarrow> nat \<Rightarrow> string \<Rightarrow> instant \<Rightarrow> instant \<Rightarrow> core_request \<Rightarrow> 'q rpc_net \<Rightarrow> 'q rpc_net option" where
  "net_broadcast n dest k i now1 now2 req s =
     (let sv = pr_server (nt_peers s n) in
      if nt_calls s i \<noteq> None then None
      else case dest of
             None \<Rightarrow>
               if map_of (sv_local sv) (cr_name req) = None then None
               else net_to_consumer n n k i (loopback_request [] now1 req) s
           | Some nd \<Rightarrow>
               (case sv_services sv (cr_name req) of
                  None \<Rightarrow> None
                | Some g \<Rightarrow>
                    if map_of g nd = None then None
                    else (case getRemoteRPC nd sv of
                            None \<Rightarrow> None
                          | Some m \<Rightarrow>
                              if peer_dead (nt_peers s m) then None
                              else net_to_consumer n m k i (served_broadcast (sv_node sv) now2 (time_until (cr_expires req) now1) req) s)))"

text \<open>A node of the group that has no client or whose client fails: the broadcast puts an error into the own box.\<close>

definition net_unreached ::
    "string \<Rightarrow> string \<Rightarrow> string \<Rightarrow> string \<Rightarrow> instant \<Rightarrow> core_request \<Rightarrow> 'q rpc_net \<Rightarrow> 'q rpc_net option" where
  "net_unreached n nd i err now req s =
     (let p = nt_peers s n; sv = pr_server p in
      if nt_calls s i \<noteq> None then None
      else case sv_services sv (cr_name req) of
             None \<Rightarrow> None
           | Some g \<Rightarrow>
               if map_of g nd = None then None
               else (let e = (case getRemoteRPC nd sv of None \<Rightarrow> not_registered (cr_name req) | Some m \<Rightarrow> err) in
                     map_option (\<lambda>b. note_call i
                         \<lparr>ci_caller = n, ci_server = nd, ci_name = cr_name req, ci_body = cr_body req, ci_error = Some e\<rparr>
                         (set_peer n (p\<lparr>pr_box := b\<rparr>) s))
                       (Insert (error_response i e now) (pr_box p))))"

text \<open>The goroutine of a consumer takes a broadcast request from its channel.\<close>

definition net_pick :: "string \<Rightarrow> nat \<Rightarrow> 'q rpc_net \<Rightarrow> 'q rpc_net option" where
  "net_pick n j s =
     (let p = nt_peers s n in
      if j < length (pr_consumers p)
      then map_option (\<lambda>(ib, c). set_peer n (p\<lparr>pr_inbox := ib, pr_consumers := (pr_consumers p)[j := c]\<rparr>) s)
             (consumer_broadcast (pr_ids p ! j) (pr_inbox p) (pr_consumers p ! j))
      else None)"

text \<open>The goroutine of a consumer reads the queue, sends the request on, and the module's goroutine takes it.\<close>

definition net_read :: "'q codec \<Rightarrow> string \<Rightarrow> nat \<Rightarrow> instant \<Rightarrow> 'q rpc_net \<Rightarrow> 'q rpc_net option" where
  "net_read cd n k now s =
     (let p = nt_peers s n in
      if k < length (pr_consumers p)
      then map_option (\<lambda>(ib, c). set_peer n (p\<lparr>pr_inbox := ib, pr_consumers := (pr_consumers p)[k := c]\<rparr>) s)
             (consumer_read (gb_get_request cd) (dq_read cd) now (pr_inbox p) (pr_consumers p ! k))
      else None)"

definition net_send :: "string \<Rightarrow> nat \<Rightarrow> 'q rpc_net \<Rightarrow> 'q rpc_net option" where
  "net_send n k s =
     (let p = nt_peers s n in
      if k < length (pr_consumers p)
      then map_option (\<lambda>c. set_peer n (p\<lparr>pr_consumers := (pr_consumers p)[k := c]\<rparr>) s)
             (consumer_send (pr_consumers p ! k))
      else None)"

definition net_take :: "string \<Rightarrow> nat \<Rightarrow> 'q rpc_net \<Rightarrow> 'q rpc_net option" where
  "net_take n k s =
     (let p = nt_peers s n in
      if k < length (pr_consumers p)
      then map_option (\<lambda>(req, ch). set_peer n
               (p\<lparr>pr_consumers := (pr_consumers p)[k := (pr_consumers p ! k)\<lparr>cs_out := ch\<rparr>],
                  pr_taken := pr_taken p @ [req]\<rparr>) s)
             (chan_get (cs_out (pr_consumers p ! k)))
      else None)"

text \<open>A handler replies to a request it was given; a failing queue or encoder ends the process.\<close>

definition net_reply :: "'q codec \<Rightarrow> string \<Rightarrow> core_request \<Rightarrow> instant \<Rightarrow> core_response \<Rightarrow> 'q rpc_net \<Rightarrow> 'q rpc_net option" where
  "net_reply cd n req now res s =
     (let p = nt_peers s n in
      if req \<in> set (pr_taken p)
      then (case env_Reply (gb_put_response cd) (dq_put cd) (cr_id req) (cr_node req) (cr_loopback req) now res
                   (pr_box p) (pr_outbox p) of
              Some (InBox b) \<Rightarrow> Some (note_reply n (cr_id req) res (set_peer n (p\<lparr>pr_box := b\<rparr>) s))
            | Some (InOutbox q) \<Rightarrow> Some (note_reply n (cr_id req) res (set_peer n (p\<lparr>pr_outbox := q\<rparr>) s))
            | _ \<Rightarrow> None)
      else None)"

text \<open>A reply worker takes a message of the outbox to the node it names, or drops it.\<close>

definition net_deliver :: "'q codec \<Rightarrow> string \<Rightarrow> 'q rpc_net \<Rightarrow> 'q rpc_net option" where
  "net_deliver cd n s =
     (let p = nt_peers s n in
      case (dq_read cd) (pr_outbox p) of
        None \<Rightarrow> None
      | Some (d, q) \<Rightarrow>
          (let s1 = set_peer n (p\<lparr>pr_outbox := q\<rparr>) s in
           case doReply (gb_get_response cd) d (pr_server p) of
             Inr (Some (m, rr)) \<Rightarrow>
               if peer_dead (nt_peers s1 m) then Some s1
               else map_option (\<lambda>b. set_peer m ((nt_peers s1 m)\<lparr>pr_box := b\<rparr>) s1) (RPCReply rr (pr_box (nt_peers s1 m)))
           | _ \<Rightarrow> Some s1))"

text \<open>Any other step of a reply box: waiters, timeouts, its goroutine, a reset.  Responses enter by the steps above only.\<close>

fun inserts :: "rb_event \<Rightarrow> bool" where
  "inserts (EvInsert r) = True"
| "inserts e = False"

definition net_box :: "string \<Rightarrow> rb_event \<Rightarrow> 'q rpc_net \<Rightarrow> 'q rpc_net option" where
  "net_box n e s =
     (if inserts e then None
      else map_option (\<lambda>b. set_peer n ((nt_peers s n)\<lparr>pr_box := b\<rparr>) s) (rb_step e (pr_box (nt_peers s n))))"

text \<open>Members join and leave and services are registered: the clients, which reach the nodes of their names, and the tables.\<close>

definition net_members ::
    "string \<Rightarrow> string list \<Rightarrow> (string \<times> (string \<times> rat) list) list \<Rightarrow> (string \<times> rat) list \<Rightarrow> 'q rpc_net \<Rightarrow> 'q rpc_net option" where
  "net_members n names services locals s =
     Some (set_peer n ((nt_peers s n)\<lparr>pr_server := (pr_server (nt_peers s n))
       \<lparr>sv_rpcs := map_of (map (\<lambda>a. (a, a)) names), sv_services := map_of services, sv_local := locals\<rparr>\<rparr>) s)"

text \<open>A worker starts: a new consumer, under a number that no other worker has.\<close>

definition net_worker :: "string \<Rightarrow> nat \<Rightarrow> 'q rpc_net \<Rightarrow> 'q rpc_net option" where
  "net_worker n k s =
     (let p = nt_peers s n in
      if map_of (ib_consumers (pr_inbox p)) k \<noteq> None then None
      else case NewConsumer k (pr_inbox p) of
             (ch, ib) \<Rightarrow>
               Some (set_peer n (p\<lparr>pr_inbox := ib, pr_ids := pr_ids p @ [k],
                                   pr_consumers := pr_consumers p @ [\<lparr>cs_out = ch, cs_hold = None\<rparr>]\<rparr>) s))"

datatype net_event =
    NetCall string string rat "(string \<times> rat) list" instant instant core_request
  | NetBroadcast string "string option" nat string instant instant core_request
  | NetUnreached string string string string instant core_request | NetPick string nat
  | NetRead string nat instant | NetSend string nat | NetTake string nat
  | NetReply string core_request instant core_response | NetDeliver string | NetBox string rb_event
  | NetMembers string "string list" "(string \<times> (string \<times> rat) list) list" "(string \<times> rat) list" | NetWorker string nat

fun net_node :: "net_event \<Rightarrow> string" where
  "net_node (NetCall n i rnd g t1 t2 req) = n"
| "net_node (NetBroadcast n dest k i t1 t2 req) = n"
| "net_node (NetUnreached n nd i e t req) = n"
| "net_node (NetPick n k) = n"
| "net_node (NetRead n k t) = n"
| "net_node (NetSend n k) = n"
| "net_node (NetTake n k) = n"
| "net_node (NetReply n req t res) = n"
| "net_node (NetDeliver n) = n"
| "net_node (NetBox n e) = n"
| "net_node (NetMembers n names services locals) = n"
| "net_node (NetWorker n k) = n"

fun net_action :: "'q codec \<Rightarrow> (rat \<Rightarrow> rat \<Rightarrow> rat) \<Rightarrow> (rat \<Rightarrow> rat \<Rightarrow> rat) \<Rightarrow> net_event \<Rightarrow> 'q rpc_net \<Rightarrow> 'q rpc_net option" where
  "net_action cd add mul (NetCall n i rnd g t1 t2 req) s = net_call cd add mul n i rnd g t1 t2 req s"
| "net_action cd add mul (NetBroadcast n dest k i t1 t2 req) s = net_broadcast n dest k i t1 t2 req s"
| "net_action cd add mul (NetUnreached n nd i e t req) s = net_unreached n nd i e t req s"
| "net_action cd add mul (NetPick n k) s = net_pick n k s"
| "net_action cd add mul (NetRead n k t) s = net_read cd n k t s"
| "net_action cd add mul (NetSend n k) s = net_send n k s"
| "net_action cd add mul (NetTake n k) s = net_take n k s"
| "net_action cd add mul (NetReply n req t res) s = net_reply cd n req t res s"
| "net_action cd add mul (NetDeliver n) s = net_deliver cd n s"
| "net_action cd add mul (NetBox n e) s = net_box n e s"
| "net_action cd add mul (NetMembers n names services locals) s = net_members n names services locals s"
| "net_action cd add mul (NetWorker n k) s = net_worker n k s"

text \<open>A step of a node whose process is alive.\<close>

definition net_step :: "'q codec \<Rightarrow> (rat \<Rightarrow> rat \<Rightarrow> rat) \<Rightarrow> (rat \<Rightarrow> rat \<Rightarrow> rat) \<Rightarrow> net_event \<Rightarrow> 'q rpc_net \<Rightarrow> 'q rpc_net option" where
  "net_step cd add mul e s = (if peer_dead (nt_peers s (net_node e)) then None else net_action cd add mul e s)"

subsection \<open>What is in a reply box\<close>

definition box_responses :: "reply_box \<Rightarrow> rpc_response set" where
  "box_responses b = set (ch_buf (rb_insert b)) \<union> snd ` holdings b"

lemma box_outcome:
  "rb_outcome e b t \<Longrightarrow> box_responses t \<subseteq> box_responses b \<union> (case e of EvInsert r \<Rightarrow> {r} | _ \<Rightarrow> {})"
  by (cases rule: rb_outcome.cases, assumption)
     (auto simp: box_responses_def holdings_def chan_simps rb_fresh_entry_def rb_deposit_def image_iff
        split: if_splits)

lemma box_step: "rb_step e b = Some t \<Longrightarrow> \<not> inserts e \<Longrightarrow> box_responses t \<subseteq> box_responses b"
  using rb_step_outcome [of e b t] box_outcome [of e b t] by (cases e) auto

lemma box_insert:
  assumes "Insert r b = Some t" and "\<not> rb_panic b"
  shows "rb_step (EvInsert r) b = Some t" and "box_responses t \<subseteq> insert r (box_responses b)"
proof -
  show s: "rb_step (EvInsert r) b = Some t" using assms by (simp add: rb_step_def)
  from rb_step_outcome [OF s] box_outcome [of "EvInsert r" b t]
  show "box_responses t \<subseteq> insert r (box_responses b)" by auto
qed

text \<open>The boxes that a run of the box alone reaches.\<close>

definition box_reached :: "reply_box \<Rightarrow> bool" where
  "box_reached b \<longleftrightarrow> (\<exists>es. rb_reached es b)"

lemma box_reached_step: "box_reached b \<Longrightarrow> rb_step e b = Some t \<Longrightarrow> box_reached t"
proof -
  assume "box_reached b" and s: "rb_step e b = Some t"
  then obtain es where "run_events rb_step es newReplyBox = Some b" by (auto simp: box_reached_def rb_reached_def)
  with s have "run_events rb_step (es @ [e]) newReplyBox = Some t" by (simp add: run_events_append)
  then show ?thesis unfolding box_reached_def rb_reached_def ..
qed

lemma Watch_box:
  assumes "Watch i b = Some (ch, t)" and "\<not> rb_panic b" and "box_reached b"
  shows "box_reached t \<and> box_responses t \<subseteq> box_responses b"
proof -
  let ?b = "snd (Watch_lookup i b)"
  have s: "rb_step (EvLookup i) b = Some ?b" using assms(2) by (simp add: rb_step_def)
  have r: "box_reached ?b" "box_responses ?b \<subseteq> box_responses b"
    using box_reached_step [OF assms(3) s] box_step [OF s] by simp_all
  have p: "\<not> rb_panic ?b" using assms(2) by (auto simp: Watch_lookup_def Let_def split: option.splits)
  show ?thesis
  proof (cases "rb_replies b i = None")
    case False
    then show ?thesis using assms(1) r by (auto simp: Watch_def split: prod.splits)
  next
    case True
    then obtain w where "Watch_send w ?b = Some t" using assms(1) by (auto simp: Watch_def split: prod.splits)
    then have w: "rb_step (EvSend w) ?b = Some t" using p by (simp add: rb_step_def)
    show ?thesis using box_reached_step [OF r(1) w] box_step [OF w] r(2) by auto
  qed
qed

subsection \<open>Requests and responses belong to calls\<close>

text \<open>The request \<open>q\<close> at node \<open>m\<close> is one of the calls: its server is \<open>m\<close>, and its reply goes to the caller.\<close>

definition serves :: "(string \<rightharpoonup> call_info) \<Rightarrow> string \<Rightarrow> core_request \<Rightarrow> bool" where
  "serves calls m q \<longleftrightarrow>
     (\<exists>c. calls (cr_id q) = Some c \<and> ci_server c = m \<and> ci_name c = cr_name q \<and> ci_body c = cr_body q
        \<and> ci_error c = None \<and> ci_caller c = (if cr_loopback q then m else cr_node q))"

definition core_of :: "rpc_request \<Rightarrow> core_request" where
  "core_of rq =
     \<lparr>cr_id = rq_id rq, cr_node = rq_node rq, cr_loopback = rq_loopback rq, cr_name = rq_name rq, cr_body = rq_body rq,
      cr_expires = None\<rparr>"

definition message_ok :: "'q codec \<Rightarrow> (string \<rightharpoonup> call_info) \<Rightarrow> string \<Rightarrow> bytes \<Rightarrow> bool" where
  "message_ok cd calls m b \<longleftrightarrow> (\<exists>rq. gb_get_request cd b = Inr rq \<and> serves calls m (core_of rq))"

text \<open>
  The response \<open>r\<close> for node \<open>n\<close> carries what the server of a call of \<open>n\<close> replied to it, or the error that the broadcast of
  \<open>n\<close> gave itself.
\<close>

definition carries :: "rpc_response \<Rightarrow> core_response \<Rightarrow> bool" where
  "carries r res \<longleftrightarrow>
     rsp_result r = (case cp_error res of None \<Rightarrow> cp_body res | Some e \<Rightarrow> e) \<and> rsp_error r = (cp_error res \<noteq> None)"

definition answers ::
    "(string \<rightharpoonup> call_info) \<Rightarrow> (string \<times> string \<times> core_response) list \<Rightarrow> string \<Rightarrow> rpc_response \<Rightarrow> bool" where
  "answers calls replies n r \<longleftrightarrow>
     (\<exists>c. calls (rsp_id r) = Some c \<and> ci_caller c = n
        \<and> (case ci_error c of
             None \<Rightarrow> (\<exists>res. (ci_server c, rsp_id r, res) \<in> set replies \<and> carries r res)
           | Some e \<Rightarrow> rsp_error r \<and> rsp_result r = e))"

definition named :: "string \<Rightarrow> string server \<Rightarrow> bool" where
  "named n sv \<longleftrightarrow> sv_node sv = n \<and> (\<forall>a c. sv_rpcs sv a = Some c \<longrightarrow> c = a)"

definition consumer_requests :: "consumer \<Rightarrow> core_request set" where
  "consumer_requests c = set_option (cs_hold c) \<union> set (ch_buf (cs_out c))"

definition peer_inv ::
    "'q codec \<Rightarrow> (string \<rightharpoonup> call_info) \<Rightarrow> (string \<times> string \<times> core_response) list \<Rightarrow> string \<Rightarrow> 'q peer \<Rightarrow> bool" where
  "peer_inv cd calls replies n p \<longleftrightarrow>
     named n (pr_server p)
     \<and> (\<forall>b \<in> set (dq_items cd (ib_queue (pr_inbox p))). message_ok cd calls n b)
     \<and> (\<forall>(k, ch) \<in> set (ib_consumers (pr_inbox p)). \<forall>q \<in> set (ch_buf ch). serves calls n q)
     \<and> (\<forall>c \<in> set (pr_consumers p). \<forall>q \<in> consumer_requests c. serves calls n q)
     \<and> (\<forall>q \<in> set (pr_taken p). serves calls n q)
     \<and> box_reached (pr_box p) \<and> (\<forall>r \<in> box_responses (pr_box p). answers calls replies n r)
     \<and> (\<forall>d \<in> set (dq_items cd (pr_outbox p)). \<exists>r. gb_get_response cd d = Inr r \<and> answers calls replies (rsp_node r) r)"

lemma peer_invD:
  assumes "peer_inv cd calls replies n p"
  shows "named n (pr_server p)" and "b \<in> set (dq_items cd (ib_queue (pr_inbox p))) \<Longrightarrow> message_ok cd calls n b"
    and "c \<in> set (pr_consumers p) \<Longrightarrow> q \<in> consumer_requests c \<Longrightarrow> serves calls n q"
    and "q \<in> set (pr_taken p) \<Longrightarrow> serves calls n q"
    and "box_reached (pr_box p)" and "r \<in> box_responses (pr_box p) \<Longrightarrow> answers calls replies n r"
    and "d \<in> set (dq_items cd (pr_outbox p)) \<Longrightarrow> \<exists>r. gb_get_response cd d = Inr r \<and> answers calls replies (rsp_node r) r"
    and "(k, ch) \<in> set (ib_consumers (pr_inbox p)) \<Longrightarrow> q \<in> set (ch_buf ch) \<Longrightarrow> serves calls n q"
  using assms by (auto simp: peer_inv_def)

definition replies_inv :: "'q rpc_net \<Rightarrow> bool" where
  "replies_inv s \<longleftrightarrow> (\<forall>(m, i, res) \<in> set (nt_replies s). \<exists>q \<in> set (pr_taken (nt_peers s m)). cr_id q = i)"

definition net_inv :: "'q codec \<Rightarrow> 'q rpc_net \<Rightarrow> bool" where
  "net_inv cd s \<longleftrightarrow> (\<forall>n. peer_inv cd (nt_calls s) (nt_replies s) n (nt_peers s n)) \<and> replies_inv s"

text \<open>What gob writes reads back; the queue is first in, first out, and empty at first.  It may refuse a message.\<close>

definition codec_ok :: "'q codec \<Rightarrow> bool" where
  "codec_ok cd \<longleftrightarrow>
     (\<forall>x b. gb_put_request cd x = Inr b \<longrightarrow> gb_get_request cd b = Inr x)
     \<and> (\<forall>x b. gb_put_response cd x = Inr b \<longrightarrow> gb_get_response cd b = Inr x)
     \<and> dq_items cd (dq_empty cd) = []
     \<and> (\<forall>b q q'. dq_put cd b q = Inr q' \<longrightarrow> dq_items cd q' = dq_items cd q @ [b])
     \<and> (\<forall>b q q'. dq_read cd q = Some (b, q') \<longrightarrow> dq_items cd q = b # dq_items cd q')"

lemma gob_request: "codec_ok cd \<Longrightarrow> gb_put_request cd x = Inr b \<Longrightarrow> gb_get_request cd b = Inr x"
  and gob_response: "codec_ok cd \<Longrightarrow> gb_put_response cd y = Inr b \<Longrightarrow> gb_get_response cd b = Inr y"
  and dq_empty_items: "codec_ok cd \<Longrightarrow> dq_items cd (dq_empty cd) = []"
  and dq_put_items: "codec_ok cd \<Longrightarrow> dq_put cd b q = Inr q' \<Longrightarrow> dq_items cd q' = dq_items cd q @ [b]"
  and dq_read_items: "codec_ok cd \<Longrightarrow> dq_read cd q = Some (b, q') \<Longrightarrow> dq_items cd q = b # dq_items cd q'"
  by (simp_all add: codec_ok_def)

text \<open>Both histories only grow.\<close>

lemma serves_mono: "serves calls n q \<Longrightarrow> calls \<subseteq>\<^sub>m calls' \<Longrightarrow> serves calls' n q"
  by (auto simp: serves_def map_le_def dom_def)

lemma answers_mono:
  assumes a: "answers calls replies n r" and le: "calls \<subseteq>\<^sub>m calls'" "set replies \<subseteq> set replies'"
  shows "answers calls' replies' n r"
proof -
  from a obtain c where c: "calls (rsp_id r) = Some c" "ci_caller c = n"
    "case ci_error c of None \<Rightarrow> (\<exists>res. (ci_server c, rsp_id r, res) \<in> set replies \<and> carries r res)
      | Some e \<Rightarrow> rsp_error r \<and> rsp_result r = e" by (auto simp: answers_def)
  from c(1) le(1) have "calls' (rsp_id r) = Some c" by (metis domI map_le_def)
  moreover have "case ci_error c of None \<Rightarrow> (\<exists>res. (ci_server c, rsp_id r, res) \<in> set replies' \<and> carries r res)
      | Some e \<Rightarrow> rsp_error r \<and> rsp_result r = e"
    using c(3) le(2) by (cases "ci_error c") auto
  ultimately show ?thesis using c(2) unfolding answers_def by blast
qed

lemma peer_inv_mono:
  assumes p: "peer_inv cd calls replies n p" and le: "calls \<subseteq>\<^sub>m calls'" "set replies \<subseteq> set replies'"
  shows "peer_inv cd calls' replies' n p"
proof -
  have "message_ok cd calls' n b" if "b \<in> set (dq_items cd (ib_queue (pr_inbox p)))" for b
    using peer_invD(2) [OF p that] serves_mono [OF _ le(1)] by (auto simp: message_ok_def)
  moreover have "\<exists>r. gb_get_response cd d = Inr r \<and> answers calls' replies' (rsp_node r) r" if "d \<in> set (dq_items cd (pr_outbox p))" for d
    using peer_invD(7) [OF p that] answers_mono [OF _ le] by blast
  moreover have "serves calls' n q" if "(k, ch) \<in> set (ib_consumers (pr_inbox p))" "q \<in> set (ch_buf ch)" for k ch q
    using peer_invD(8) [OF p that] serves_mono [OF _ le(1)] by blast
  ultimately show ?thesis
    unfolding peer_inv_def using peer_invD(1,3-6) [OF p] serves_mono [OF _ le(1)] answers_mono [OF _ le] by blast
qed

text \<open>One peer changes and keeps what it has taken.\<close>

lemma net_inv_set_peer:
  assumes s: "net_inv cd s" and p: "peer_inv cd (nt_calls s) (nt_replies s) n p"
    and t: "set (pr_taken (nt_peers s n)) \<subseteq> set (pr_taken p)"
  shows "net_inv cd (set_peer n p s)"
proof -
  have "replies_inv (set_peer n p s)"
    using s t by (fastforce simp: net_inv_def replies_inv_def set_peer_def)
  with s p show ?thesis by (simp add: net_inv_def set_peer_def)
qed

lemma net_inv_note_call:
  assumes s: "net_inv cd s" and i: "nt_calls s i = None"
  shows "net_inv cd (note_call i c s)"
proof -
  have "nt_calls s \<subseteq>\<^sub>m (nt_calls s)(i \<mapsto> c)" using i by (simp add: map_le_def dom_def)
  with s show ?thesis by (auto simp: net_inv_def note_call_def replies_inv_def intro: peer_inv_mono)
qed

lemma net_inv_note_reply:
  assumes s: "net_inv cd s" and q: "q \<in> set (pr_taken (nt_peers s n))"
  shows "net_inv cd (note_reply n (cr_id q) res s)"
proof -
  have "replies_inv (note_reply n (cr_id q) res s)" using s q by (auto simp: net_inv_def replies_inv_def note_reply_def)
  moreover have "set (nt_replies s) \<subseteq> set (nt_replies (note_reply n (cr_id q) res s))" by (auto simp: note_reply_def)
  ultimately show ?thesis using s by (auto simp: net_inv_def note_reply_def intro: peer_inv_mono)
qed

subsection \<open>Every step keeps the invariant\<close>

lemma Inbox_Put_queue:
  assumes "codec_ok cd" and "Inbox_Put (gb_put_request cd) (dq_put cd) rq ib = Inr ib'"
  shows "\<exists>b q. gb_put_request cd rq = Inr b \<and> ib' = ib\<lparr>ib_queue := q\<rparr> \<and> dq_items cd q = dq_items cd (ib_queue ib) @ [b]"
  using assms(2) dq_put_items [OF assms(1)] by (auto simp: Inbox_Put_def split: sum.splits)

lemma peer_inv_queue:
  "peer_inv cd calls replies n p \<Longrightarrow> message_ok cd calls n b \<Longrightarrow>
     dq_items cd (ib_queue ib) = dq_items cd (ib_queue (pr_inbox p)) @ [b] \<Longrightarrow> ib_consumers ib = ib_consumers (pr_inbox p) \<Longrightarrow>
     peer_inv cd calls replies n (p\<lparr>pr_inbox := ib\<rparr>)"
  by (auto simp: peer_inv_def)

lemma peer_inv_box:
  "peer_inv cd calls replies n p \<Longrightarrow> box_reached b \<Longrightarrow> (\<And>r. r \<in> box_responses b \<Longrightarrow> answers calls replies n r) \<Longrightarrow>
     peer_inv cd calls replies n (p\<lparr>pr_box := b\<rparr>)"
  by (simp add: peer_inv_def)

lemma note_call_set_peer: "note_call i c (set_peer n p s) = set_peer n p (note_call i c s)"
  by (simp add: note_call_def set_peer_def)

lemma note_reply_set_peer: "note_reply m i res (set_peer n p s) = set_peer n p (note_reply m i res s)"
  by (simp add: note_reply_def set_peer_def)

lemma note_simps [simp]:
  "nt_peers (note_call i c s) = nt_peers s" "nt_peers (note_reply m i res s) = nt_peers s"
  "nt_replies (note_call i c s) = nt_replies s" "nt_calls (note_reply m i res s) = nt_calls s"
  "nt_calls (note_call i c s) = (nt_calls s)(i \<mapsto> c)" "nt_replies (note_reply m i res s) = nt_replies s @ [(m, i, res)]"
  "nt_calls (set_peer n p s) = nt_calls s" "nt_replies (set_peer n p s) = nt_replies s"
  "nt_peers (set_peer n p s) = (nt_peers s)(n := p)"
  by (simp_all add: note_call_def note_reply_def set_peer_def)

lemma net_inv_peer: "net_inv cd s \<Longrightarrow> peer_inv cd (nt_calls s) (nt_replies s) n (nt_peers s n)"
  by (simp add: net_inv_def)

lemma net_inv_set_box:
  assumes "net_inv cd s" and "box_reached b" and "\<And>r. r \<in> box_responses b \<Longrightarrow> answers (nt_calls s) (nt_replies s) n r"
  shows "net_inv cd (set_peer n ((nt_peers s n)\<lparr>pr_box := b\<rparr>) s)"
  by (rule net_inv_set_peer [OF assms(1) peer_inv_box [OF net_inv_peer [OF assms(1)] assms(2,3)]]) auto

lemma net_call_local_inv:
  assumes inv: "net_inv cd s" and cd: "codec_ok cd" and alive: "\<not> peer_dead (nt_peers s n)" and i: "nt_calls s i = None"
    and rq: "rq = loopback_request i now req"
    and c: "callLuaRPCMethod_start (gb_put_request cd) (dq_put cd) rq (pr_box (nt_peers s n)) (pr_inbox (nt_peers s n)) = Some (b, r)"
  shows "case r of Inl e \<Rightarrow> net_inv cd (set_peer n ((nt_peers s n)\<lparr>pr_box := b\<rparr>) s)
    | Inr (ch, ib) \<Rightarrow> net_inv cd (note_call i \<lparr>ci_caller = n, ci_server = n, ci_name = cr_name req, ci_body = cr_body req, ci_error = None\<rparr>
        (set_peer n ((nt_peers s n)\<lparr>pr_box := b, pr_inbox := ib\<rparr>) s))"
proof -
  note p = net_inv_peer [OF inv, of n]
  from c obtain ch where w: "Watch i (pr_box (nt_peers s n)) = Some (ch, b)"
    and r: "r = (case Inbox_Put (gb_put_request cd) (dq_put cd) rq (pr_inbox (nt_peers s n)) of Inl e \<Rightarrow> Inl e | Inr ib1 \<Rightarrow> Inr (ch, ib1))"
    by (auto simp: callLuaRPCMethod_start_def rq loopback_request_def split: option.splits)
  have b: "box_reached b" "box_responses b \<subseteq> box_responses (pr_box (nt_peers s n))"
    using Watch_box [OF w] alive peer_invD(5) [OF p] by (auto simp: peer_dead_def)
  have s1: "net_inv cd (set_peer n ((nt_peers s n)\<lparr>pr_box := b\<rparr>) s)"
    by (rule net_inv_set_box [OF inv b(1)]) (use b(2) peer_invD(6) [OF p] in blast)
  show ?thesis
  proof (cases "Inbox_Put (gb_put_request cd) (dq_put cd) rq (pr_inbox (nt_peers s n))")
    case (Inl e)
    with r s1 show ?thesis by simp
  next
    case (Inr ib)
    let ?c = "\<lparr>ci_caller = n, ci_server = n, ci_name = cr_name req, ci_body = cr_body req, ci_error = None\<rparr>"
    let ?s = "note_call i ?c (set_peer n ((nt_peers s n)\<lparr>pr_box := b\<rparr>) s)"
    from Inbox_Put_queue [OF cd Inr] obtain d where d: "gb_put_request cd rq = Inr d"
      "dq_items cd (ib_queue ib) = dq_items cd (ib_queue (pr_inbox (nt_peers s n))) @ [d]"
      "ib_consumers ib = ib_consumers (pr_inbox (nt_peers s n))" by auto
    have s2: "net_inv cd ?s" by (rule net_inv_note_call [OF s1]) (use i in simp)
    have m: "message_ok cd (nt_calls ?s) n d"
      using gob_request [OF cd d(1)] by (auto simp: message_ok_def serves_def core_of_def rq loopback_request_def)
    have "peer_inv cd (nt_calls ?s) (nt_replies ?s) n ((nt_peers ?s n)\<lparr>pr_inbox := ib\<rparr>)"
      by (rule peer_inv_queue [OF net_inv_peer [OF s2] m]) (use d(2,3) in simp_all)
    then have s3: "net_inv cd (set_peer n ((nt_peers ?s n)\<lparr>pr_inbox := ib\<rparr>) ?s)" by (intro net_inv_set_peer [OF s2]) auto
    have eq: "set_peer n ((nt_peers ?s n)\<lparr>pr_inbox := ib\<rparr>) ?s
        = note_call i ?c (set_peer n ((nt_peers s n)\<lparr>pr_box := b, pr_inbox := ib\<rparr>) s)"
      by (simp add: note_call_def set_peer_def)
    from s3 have "net_inv cd (note_call i ?c (set_peer n ((nt_peers s n)\<lparr>pr_box := b, pr_inbox := ib\<rparr>) s))"
      unfolding eq .
    with r Inr show ?thesis by simp
  qed
qed

lemma net_call_remote_inv:
  assumes inv: "net_inv cd s" and cd: "codec_ok cd" and i: "nt_calls s i = None"
    and c: "RPCCall (gb_put_request cd) (dq_put cd) i now cq (pr_inbox (nt_peers s m)) = Inr (x, ib)"
    and cq: "cq_name cq = cr_name req" "cq_body cq = cr_body req" "cq_node cq = n"
  shows "net_inv cd (note_call i \<lparr>ci_caller = n, ci_server = m, ci_name = cr_name req, ci_body = cr_body req, ci_error = None\<rparr>
      (set_peer m ((nt_peers s m)\<lparr>pr_inbox := ib\<rparr>) s))"
proof -
  let ?c = "\<lparr>ci_caller = n, ci_server = m, ci_name = cr_name req, ci_body = cr_body req, ci_error = None\<rparr>"
  let ?s = "note_call i ?c s"
  obtain d rq where d: "gb_put_request cd rq = Inr d" "dq_items cd (ib_queue ib) = dq_items cd (ib_queue (pr_inbox (nt_peers s m))) @ [d]"
      "ib_consumers ib = ib_consumers (pr_inbox (nt_peers s m))"
    and rq: "core_of rq = \<lparr>cr_id = i, cr_node = n, cr_loopback = False, cr_name = cr_name req, cr_body = cr_body req, cr_expires = None\<rparr>"
    using c cq by (fastforce simp: RPCCall_def Let_def core_of_def dest: Inbox_Put_queue [OF cd] split: sum.splits)
  have s2: "net_inv cd ?s" by (rule net_inv_note_call [OF inv i])
  have msg: "message_ok cd (nt_calls ?s) m d"
    using gob_request [OF cd d(1)] rq by (auto simp: message_ok_def serves_def)
  have "peer_inv cd (nt_calls ?s) (nt_replies ?s) m ((nt_peers ?s m)\<lparr>pr_inbox := ib\<rparr>)"
    by (rule peer_inv_queue [OF net_inv_peer [OF s2] msg]) (use d(2,3) in simp_all)
  then show ?thesis unfolding note_call_set_peer by (intro net_inv_set_peer [OF s2, of m, simplified]) auto
qed

lemma net_call_inv:
  assumes inv: "net_inv cd s" and cd: "codec_ok cd" and alive: "\<not> peer_dead (nt_peers s n)"
    and c: "net_call cd add mul n i rnd g now1 now2 req s = Some t"
  shows "net_inv cd t"
proof -
  have i: "nt_calls s i = None" using c by (auto simp: net_call_def split: if_splits)
  have nm: "sv_node (pr_server (nt_peers s n)) = n" using peer_invD(1) [OF net_inv_peer [OF inv]] by (simp add: named_def)
  show ?thesis
  proof (cases "luaRPCCall_plan add mul rnd g i now1 req (pr_server (nt_peers s n))")
    case (CallLocal rq)
    then have "rq = loopback_request i now1 req"
      by (auto simp: luaRPCCall_plan_def split: if_splits option.splits)
    from net_call_local_inv [OF inv cd alive i this] CallLocal c i show ?thesis
      by (fastforce simp: net_call_def split: option.splits sum.splits)
  next
    case (CallRemote m cq)
    then have "cq_name cq = cr_name req" "cq_body cq = cr_body req" "cq_node cq = n"
      using nm by (auto simp: luaRPCCall_plan_def split: if_splits option.splits)
    from net_call_remote_inv [OF inv cd i _ this] CallRemote c i inv show ?thesis
      by (fastforce simp: net_call_def split: if_splits sum.splits)
  next
    case (CallFails e)
    with c i inv show ?thesis by (simp add: net_call_def)
  qed
qed

text \<open>A consumer changes, and the queue loses at most messages.\<close>

lemma peer_inv_consumer:
  assumes p: "peer_inv cd calls replies n p" and c: "\<And>q. q \<in> consumer_requests c \<Longrightarrow> serves calls n q"
    and ib: "set (dq_items cd (ib_queue ib)) \<subseteq> set (dq_items cd (ib_queue (pr_inbox p)))"
      "\<And>k ch q. (k, ch) \<in> set (ib_consumers ib) \<Longrightarrow> q \<in> set (ch_buf ch) \<Longrightarrow> serves calls n q"
  shows "peer_inv cd calls replies n (p\<lparr>pr_inbox := ib, pr_consumers := (pr_consumers p)[k := c]\<rparr>)"
proof -
  have "\<forall>d \<in> set ((pr_consumers p)[k := c]). \<forall>q \<in> consumer_requests d. serves calls n q"
    using c peer_invD(3) [OF p] by (auto dest!: set_update_subset_insert [THEN subsetD])
  with p ib(1) show ?thesis using ib(2) by (auto simp: peer_inv_def)
qed

lemma peer_inv_consumer_same:
  assumes p: "peer_inv cd calls replies n p" and c: "\<And>q. q \<in> consumer_requests c \<Longrightarrow> serves calls n q"
  shows "peer_inv cd calls replies n (p\<lparr>pr_consumers := (pr_consumers p)[k := c]\<rparr>)"
  using peer_inv_consumer [OF p c, where ib = "pr_inbox p" and k = k] peer_invD(8) [OF p] by simp

lemma consume_data_serves:
  assumes "consume_data (gb_get_request cd) now d = Some q" and "message_ok cd calls n d"
  shows "serves calls n q"
  using assms by (auto simp: consume_data_def message_ok_def serves_def core_of_def Let_def split: if_splits)

lemma net_read_inv:
  assumes cd: "codec_ok cd" and inv: "net_inv cd s" and t: "net_read cd n k now s = Some t"
  shows "net_inv cd t"
proof -
  let ?p = "nt_peers s n"
  note p = net_inv_peer [OF inv, of n]
  from t obtain ib c where k: "k < length (pr_consumers ?p)"
    and r: "consumer_read (gb_get_request cd) (dq_read cd) now (pr_inbox ?p) (pr_consumers ?p ! k) = Some (ib, c)"
    and eq: "t = set_peer n (?p\<lparr>pr_inbox := ib, pr_consumers := (pr_consumers ?p)[k := c]\<rparr>) s"
    by (auto simp: net_read_def Let_def split: if_splits)
  from r obtain d q where d: "dq_items cd (ib_queue (pr_inbox ?p)) = d # dq_items cd q" "ib = (pr_inbox ?p)\<lparr>ib_queue := q\<rparr>"
    "c = (pr_consumers ?p ! k)\<lparr>cs_hold := consume_data (gb_get_request cd) now d\<rparr>"
    by (auto simp: consumer_read_def split: if_splits option.splits dest!: dq_read_items [OF cd])
  have m: "message_ok cd (nt_calls s) n d" using peer_invD(2) [OF p] d(1) by simp
  have "serves (nt_calls s) n x" if "x \<in> consumer_requests c" for x
    using that d(3) consume_data_serves [OF _ m] peer_invD(3) [OF p nth_mem [OF k]]
    by (auto simp: consumer_requests_def)
  then have "peer_inv cd (nt_calls s) (nt_replies s) n (?p\<lparr>pr_inbox := ib, pr_consumers := (pr_consumers ?p)[k := c]\<rparr>)"
    using d peer_invD(8) [OF p] by (intro peer_inv_consumer [OF p]) auto
  then show ?thesis unfolding eq by (intro net_inv_set_peer [OF inv]) auto
qed

lemma net_send_inv:
  assumes inv: "net_inv cd s" and t: "net_send n k s = Some t"
  shows "net_inv cd t"
proof -
  let ?p = "nt_peers s n"
  note p = net_inv_peer [OF inv, of n]
  from t obtain c where k: "k < length (pr_consumers ?p)" and r: "consumer_send (pr_consumers ?p ! k) = Some c"
    and eq: "t = set_peer n (?p\<lparr>pr_consumers := (pr_consumers ?p)[k := c]\<rparr>) s"
    by (auto simp: net_send_def Let_def split: if_splits)
  from r have "consumer_requests c \<subseteq> consumer_requests (pr_consumers ?p ! k)"
    by (auto simp: consumer_send_def consumer_requests_def chan_simps split: option.splits)
  then have "peer_inv cd (nt_calls s) (nt_replies s) n (?p\<lparr>pr_consumers := (pr_consumers ?p)[k := c]\<rparr>)"
    using peer_invD(3) [OF p nth_mem [OF k]] by (intro peer_inv_consumer_same [OF p]) auto
  then show ?thesis unfolding eq by (intro net_inv_set_peer [OF inv]) auto
qed

lemma net_take_inv:
  assumes inv: "net_inv cd s" and t: "net_take n k s = Some t"
  shows "net_inv cd t"
proof -
  let ?p = "nt_peers s n"
  note p = net_inv_peer [OF inv, of n]
  from t obtain req ch where k: "k < length (pr_consumers ?p)" and r: "chan_get (cs_out (pr_consumers ?p ! k)) = Some (req, ch)"
    and eq: "t = set_peer n (?p\<lparr>pr_consumers := (pr_consumers ?p)[k := (pr_consumers ?p ! k)\<lparr>cs_out := ch\<rparr>],
        pr_taken := pr_taken ?p @ [req]\<rparr>) s"
    by (auto simp: net_take_def Let_def split: if_splits)
  let ?c = "(pr_consumers ?p ! k)\<lparr>cs_out := ch\<rparr>"
  from r have sub: "consumer_requests ?c \<subseteq> consumer_requests (pr_consumers ?p ! k)" "req \<in> consumer_requests (pr_consumers ?p ! k)"
    by (auto simp: consumer_requests_def chan_simps)
  have "peer_inv cd (nt_calls s) (nt_replies s) n (?p\<lparr>pr_consumers := (pr_consumers ?p)[k := ?c]\<rparr>)"
    using peer_invD(3) [OF p nth_mem [OF k]] sub(1) by (intro peer_inv_consumer_same [OF p]) blast
  moreover have "serves (nt_calls s) n req" using peer_invD(3) [OF p nth_mem [OF k] sub(2)] .
  ultimately have "peer_inv cd (nt_calls s) (nt_replies s) n
      (?p\<lparr>pr_consumers := (pr_consumers ?p)[k := ?c], pr_taken := pr_taken ?p @ [req]\<rparr>)"
    by (auto simp: peer_inv_def)
  then show ?thesis unfolding eq by (intro net_inv_set_peer [OF inv]) auto
qed

lemma reply_response_simps:
  "rsp_id (reply_response i node now res) = i" "rsp_node (reply_response i node now res) = node"
  "carries (reply_response i node now res) res"
  by (auto simp: reply_response_def carries_def split: option.splits)

lemma net_reply_inv:
  assumes inv: "net_inv cd s" and cd: "codec_ok cd" and alive: "\<not> peer_dead (nt_peers s n)"
    and t: "net_reply cd n req now res s = Some t"
  shows "net_inv cd t"
proof -
  let ?p = "nt_peers s n" and ?s = "note_reply n (cr_id req) res s"
  let ?r = "reply_response (cr_id req) (cr_node req) now res"
  have req: "req \<in> set (pr_taken ?p)" using t by (auto simp: net_reply_def Let_def split: if_splits)
  have s1: "net_inv cd ?s" by (rule net_inv_note_reply [OF inv req])
  note p = net_inv_peer [OF s1, of n, simplified]
  from peer_invD(4) [OF net_inv_peer [OF inv] req] obtain c where c: "nt_calls s (cr_id req) = Some c" "ci_server c = n"
    "ci_caller c = (if cr_loopback req then n else cr_node req)" "ci_error c = None" by (auto simp: serves_def)
  have a: "answers (nt_calls ?s) (nt_replies ?s) (if cr_loopback req then n else cr_node req) ?r"
    unfolding answers_def using c by (intro exI [of _ c]) (auto simp: reply_response_simps intro!: exI [of _ res])
  show ?thesis
  proof (cases "cr_loopback req")
    case True
    with t req obtain b where b: "Insert ?r (pr_box ?p) = Some b" "t = note_reply n (cr_id req) res (set_peer n (?p\<lparr>pr_box := b\<rparr>) s)"
      by (auto simp: net_reply_def Let_def env_Reply_def split: option.splits)
    have i: "rb_step (EvInsert ?r) (pr_box ?p) = Some b" "box_responses b \<subseteq> insert ?r (box_responses (pr_box ?p))"
      using box_insert [OF b(1)] alive by (simp_all add: peer_dead_def)
    have "answers (nt_calls ?s) (nt_replies ?s) n x" if "x \<in> box_responses b" for x
      using i(2) that a True peer_invD(6) [OF p] by auto
    then have "net_inv cd (set_peer n ((nt_peers ?s n)\<lparr>pr_box := b\<rparr>) ?s)"
      using net_inv_set_box [OF s1, of b n] box_reached_step [OF peer_invD(5) [OF p] i(1)] by blast
    then show ?thesis unfolding b(2) note_reply_set_peer by simp
  next
    case False
    with t req obtain d q where d: "gb_put_response cd ?r = Inr d"
      "t = note_reply n (cr_id req) res (set_peer n (?p\<lparr>pr_outbox := q\<rparr>) s)" "dq_put cd d (pr_outbox ?p) = Inr q"
      by (auto simp: net_reply_def Let_def env_Reply_def split: sum.splits)
    have "gb_get_response cd d = Inr ?r" using gob_response [OF cd d(1)] .
    moreover note dq_put_items [OF cd d(3)]
    ultimately have "peer_inv cd (nt_calls ?s) (nt_replies ?s) n (?p\<lparr>pr_outbox := q\<rparr>)"
      using p a False by (auto simp: peer_inv_def reply_response_simps)
    then show ?thesis unfolding d(2) note_reply_set_peer by (intro net_inv_set_peer [OF s1]) auto
  qed
qed

lemma answers_same:
  "answers calls replies n r \<Longrightarrow> rsp_id r' = rsp_id r \<Longrightarrow> rsp_result r' = rsp_result r \<Longrightarrow> rsp_error r' = rsp_error r \<Longrightarrow>
     answers calls replies n r'"
  unfolding answers_def carries_def by (simp cong: option.case_cong)

lemma net_deliver_inv:
  assumes cd: "codec_ok cd" and inv: "net_inv cd s" and t: "net_deliver cd n s = Some t"
  shows "net_inv cd t"
proof -
  let ?p = "nt_peers s n"
  note p = net_inv_peer [OF inv, of n]
  obtain d q where rd: "dq_read cd (pr_outbox ?p) = Some (d, q)"
    using t by (cases "dq_read cd (pr_outbox ?p)") (auto simp: net_deliver_def Let_def)
  note dq = dq_read_items [OF cd rd]
  let ?s = "set_peer n (?p\<lparr>pr_outbox := q\<rparr>) s"
  have s1: "net_inv cd ?s"
    using p dq by (intro net_inv_set_peer [OF inv]) (auto simp: peer_inv_def)
  from peer_invD(7) [OF p] dq obtain r where r: "gb_get_response cd d = Inr r" "answers (nt_calls s) (nt_replies s) (rsp_node r) r"
    by auto
  show ?thesis
  proof (cases "t = ?s")
    case True
    with s1 show ?thesis by simp
  next
    case False
    with t rd r(1) obtain m rr b where m: "doReply (gb_get_response cd) d (pr_server ?p) = Inr (Some (m, rr))"
      and alive: "\<not> peer_dead (nt_peers ?s m)" and b: "RPCReply rr (pr_box (nt_peers ?s m)) = Some b"
      and eq: "t = set_peer m ((nt_peers ?s m)\<lparr>pr_box := b\<rparr>) ?s"
      by (auto simp: net_deliver_def Let_def split: sum.splits option.splits if_splits)
    from m r(1) have "getRemoteRPC (rsp_node r) (pr_server ?p) = Some m"
      and rr: "rr = \<lparr>rr_id = rsp_id r, rr_result = rsp_result r, rr_timestamp = rsp_timestamp r, rr_error = rsp_error r\<rparr>"
      by (auto simp: doReply_def split: option.splits)
    then have m: "m = rsp_node r" using peer_invD(1) [OF p] by (simp add: named_def getRemoteRPC_def)
    let ?r = "\<lparr>rsp_id = rsp_id r, rsp_result = rsp_result r, rsp_timestamp = rsp_timestamp r, rsp_node = [], rsp_error = rsp_error r\<rparr>"
    have "Insert ?r (pr_box (nt_peers ?s m)) = Some b" using b by (simp add: RPCReply_def rr)
    from box_insert [OF this] alive have i: "rb_step (EvInsert ?r) (pr_box (nt_peers ?s m)) = Some b"
      "box_responses b \<subseteq> insert ?r (box_responses (pr_box (nt_peers ?s m)))" by (simp_all only: peer_dead_def not_False_eq_True)
    note pm = net_inv_peer [OF s1, of m]
    have "answers (nt_calls ?s) (nt_replies ?s) m ?r" using answers_same [OF r(2)] m by simp
    then have "answers (nt_calls ?s) (nt_replies ?s) m x" if "x \<in> box_responses b" for x
      using that i(2) peer_invD(6) [OF pm] by blast
    then show ?thesis unfolding eq by (rule net_inv_set_box [OF s1 box_reached_step [OF peer_invD(5) [OF pm] i(1)]])
  qed
qed

lemma net_box_inv:
  assumes inv: "net_inv cd s" and t: "net_box n e s = Some t"
  shows "net_inv cd t"
proof -
  note p = net_inv_peer [OF inv, of n]
  from t obtain b where e: "\<not> inserts e" and b: "rb_step e (pr_box (nt_peers s n)) = Some b"
    and eq: "t = set_peer n ((nt_peers s n)\<lparr>pr_box := b\<rparr>) s" by (auto simp: net_box_def split: if_splits)
  have "answers (nt_calls s) (nt_replies s) n r" if "r \<in> box_responses b" for r
    using peer_invD(6) [OF p] box_step [OF b e] that by blast
  then show ?thesis unfolding eq by (rule net_inv_set_box [OF inv box_reached_step [OF peer_invD(5) [OF p] b]])
qed

lemma map_of_names: "map_of (map (\<lambda>a. (a, a)) names) a = Some c \<Longrightarrow> c = a"
  by (induction names) (auto split: if_splits)

lemma net_members_inv: "net_inv cd s \<Longrightarrow> net_members n names services locals s = Some t \<Longrightarrow> net_inv cd t"
  unfolding net_members_def option.inject
  by (drule sym, simp only:, rule net_inv_set_peer)
     (use net_inv_peer [of cd s n] in \<open>auto simp: peer_inv_def named_def dest: map_of_names\<close>)

lemma update_subset: "set (AList.update k v al) \<subseteq> insert (k, v) (set al)"
  by (induction al) auto

lemma net_worker_inv:
  assumes inv: "net_inv cd s" and t: "net_worker n k s = Some t"
  shows "net_inv cd t"
proof -
  let ?p = "nt_peers s n"
  let ?p' = "?p\<lparr>pr_inbox := (pr_inbox ?p)\<lparr>ib_consumers := AList.update k (make_chan 64) (ib_consumers (pr_inbox ?p))\<rparr>,
      pr_ids := pr_ids ?p @ [k], pr_consumers := pr_consumers ?p @ [\<lparr>cs_out = make_chan 1, cs_hold = None\<rparr>]\<rparr>"
  note p = net_inv_peer [OF inv, of n]
  have "serves (nt_calls s) n q"
    if "(j, ch) \<in> set (AList.update k (make_chan 64) (ib_consumers (pr_inbox ?p)))" "q \<in> set (ch_buf ch)" for j ch q
    using that update_subset [of k "make_chan 64 :: core_request chan"] peer_invD(8) [OF p] by fastforce
  with p have p': "peer_inv cd (nt_calls s) (nt_replies s) n ?p'"
    by (auto simp: peer_inv_def consumer_requests_def)
  have "t = set_peer n ?p' s" using t by (auto simp: net_worker_def NewConsumer_def Let_def split: if_splits)
  with net_inv_set_peer [OF inv p'] show ?thesis by simp
qed

text \<open>A broadcast and the error for a node it does not reach.\<close>

lemma net_to_consumer_inv:
  assumes inv: "net_inv cd s" and i: "nt_calls s i = None" and t: "net_to_consumer n m k i rq s = Some t"
    and n: "n = (if rq_loopback rq then m else rq_node rq)"
  shows "net_inv cd t"
proof -
  let ?c = "\<lparr>ci_caller = n, ci_server = m, ci_name = rq_name rq, ci_body = rq_body rq, ci_error = None\<rparr>"
  let ?s = "note_call i ?c s" and ?ib = "pr_inbox (nt_peers s m)"
  from t obtain ch ch' where ch: "map_of (ib_consumers ?ib) k = Some ch" "chan_put (broadcast_request i rq) ch = Some ch'"
    and eq: "t = note_call i ?c (set_peer m ((nt_peers s m)\<lparr>pr_inbox := ?ib\<lparr>ib_consumers := AList.update k ch' (ib_consumers ?ib)\<rparr>\<rparr>) s)"
    by (auto simp: net_to_consumer_def Let_def split: option.splits)
  have s1: "net_inv cd ?s" by (rule net_inv_note_call [OF inv i])
  note p = net_inv_peer [OF s1, of m, simplified note_simps(1)]
  have "serves (nt_calls ?s) m (broadcast_request i rq)"
    by (auto simp: serves_def broadcast_request_def n)
  then have new: "serves (nt_calls ?s) m q" if "q \<in> set (ch_buf ch')" for q
    using that ch(2) peer_invD(8) [OF p map_of_SomeD [OF ch(1)]] by (auto simp: chan_simps)
  have "serves (nt_calls ?s) m q"
    if "(j, c) \<in> set (AList.update k ch' (ib_consumers ?ib))" "q \<in> set (ch_buf c)" for j c q
    using that update_subset [of k ch' "ib_consumers ?ib"] peer_invD(8) [OF p] new by fastforce
  with p have "peer_inv cd (nt_calls ?s) (nt_replies ?s) m
      ((nt_peers s m)\<lparr>pr_inbox := ?ib\<lparr>ib_consumers := AList.update k ch' (ib_consumers ?ib)\<rparr>\<rparr>)"
    by (auto simp: peer_inv_def)
  then show ?thesis unfolding eq note_call_set_peer by (intro net_inv_set_peer [OF s1]) auto
qed

lemma net_broadcast_inv:
  assumes inv: "net_inv cd s" and t: "net_broadcast n dest k i now1 now2 req s = Some t"
  shows "net_inv cd t"
proof -
  have i: "nt_calls s i = None" using t by (auto simp: net_broadcast_def Let_def split: if_splits)
  have nm: "sv_node (pr_server (nt_peers s n)) = n" using peer_invD(1) [OF net_inv_peer [OF inv]] by (simp add: named_def)
  show ?thesis
  proof (cases dest)
    case None
    with t have "net_to_consumer n n k i (loopback_request [] now1 req) s = Some t"
      by (auto simp: net_broadcast_def Let_def split: if_splits)
    from net_to_consumer_inv [OF inv i this] show ?thesis by (simp add: loopback_request_def)
  next
    case (Some nd)
    with t obtain m where "net_to_consumer n m k i (served_broadcast n now2 (time_until (cr_expires req) now1) req) s = Some t"
      by (auto simp: net_broadcast_def Let_def nm split: if_splits option.splits)
    from net_to_consumer_inv [OF inv i this] show ?thesis by (simp add: served_broadcast_def)
  qed
qed

lemma net_unreached_inv:
  assumes inv: "net_inv cd s" and alive: "\<not> peer_dead (nt_peers s n)" and t: "net_unreached n nd i err now req s = Some t"
  shows "net_inv cd t"
proof -
  have i: "nt_calls s i = None" using t by (auto simp: net_unreached_def Let_def split: if_splits)
  from t obtain e b where b: "Insert (error_response i e now) (pr_box (nt_peers s n)) = Some b"
    and eq: "t = note_call i \<lparr>ci_caller = n, ci_server = nd, ci_name = cr_name req, ci_body = cr_body req, ci_error = Some e\<rparr>
        (set_peer n ((nt_peers s n)\<lparr>pr_box := b\<rparr>) s)" (is "t = note_call i ?c _")
    by (auto simp: net_unreached_def Let_def split: if_splits option.splits)
  let ?s = "note_call i ?c s"
  have s1: "net_inv cd ?s" by (rule net_inv_note_call [OF inv i])
  note p = net_inv_peer [OF s1, of n, simplified note_simps(1)]
  have r: "rb_step (EvInsert (error_response i e now)) (pr_box (nt_peers s n)) = Some b"
    "box_responses b \<subseteq> insert (error_response i e now) (box_responses (pr_box (nt_peers s n)))"
    using box_insert [OF b] alive by (simp_all add: peer_dead_def)
  have "answers (nt_calls ?s) (nt_replies ?s) n (error_response i e now)" by (simp add: answers_def error_response_def)
  then have "answers (nt_calls ?s) (nt_replies ?s) n x" if "x \<in> box_responses b" for x
    using that r(2) peer_invD(6) [OF p] by blast
  then have "net_inv cd (set_peer n ((nt_peers ?s n)\<lparr>pr_box := b\<rparr>) ?s)"
    using net_inv_set_box [OF s1, of b n] box_reached_step [OF peer_invD(5) [OF p] r(1)] by blast
  then show ?thesis unfolding eq note_call_set_peer by simp
qed

lemma net_pick_inv:
  assumes inv: "net_inv cd s" and t: "net_pick n j s = Some t"
  shows "net_inv cd t"
proof -
  let ?p = "nt_peers s n" and ?ib = "pr_inbox (nt_peers s n)"
  note p = net_inv_peer [OF inv, of n]
  from t obtain ib c where k: "j < length (pr_consumers ?p)"
    and r: "consumer_broadcast (pr_ids ?p ! j) ?ib (pr_consumers ?p ! j) = Some (ib, c)"
    and eq: "t = set_peer n (?p\<lparr>pr_inbox := ib, pr_consumers := (pr_consumers ?p)[j := c]\<rparr>) s"
    by (auto simp: net_pick_def Let_def split: if_splits)
  from r obtain ch req ch' where ch: "map_of (ib_consumers ?ib) (pr_ids ?p ! j) = Some ch" "chan_get ch = Some (req, ch')"
    "ib = ?ib\<lparr>ib_consumers := AList.update (pr_ids ?p ! j) ch' (ib_consumers ?ib)\<rparr>"
    "c = (pr_consumers ?p ! j)\<lparr>cs_hold := Some req\<rparr>"
    by (auto simp: consumer_broadcast_def split: if_splits option.splits)
  have old: "serves (nt_calls s) n q" if "q \<in> set (ch_buf ch)" for q
    using peer_invD(8) [OF p map_of_SomeD [OF ch(1)] that] .
  have req: "req \<in> set (ch_buf ch)" and sub: "set (ch_buf ch') \<subseteq> set (ch_buf ch)" using ch(2) by (auto simp: chan_simps)
  have c: "serves (nt_calls s) n x" if "x \<in> consumer_requests c" for x
    using that ch(4) old [OF req] peer_invD(3) [OF p nth_mem [OF k]] by (auto simp: consumer_requests_def)
  have cs: "serves (nt_calls s) n q" if "(a, b) \<in> set (ib_consumers ib)" "q \<in> set (ch_buf b)" for a b q
    using that ch(3) update_subset [of "pr_ids ?p ! j" ch' "ib_consumers ?ib"] peer_invD(8) [OF p] old sub by fastforce
  have "peer_inv cd (nt_calls s) (nt_replies s) n (?p\<lparr>pr_inbox := ib, pr_consumers := (pr_consumers ?p)[j := c]\<rparr>)"
    using ch(3) by (intro peer_inv_consumer [OF p c] cs) simp_all
  then show ?thesis unfolding eq by (intro net_inv_set_peer [OF inv]) auto
qed

lemma net_step_inv:
  assumes "codec_ok cd" and "net_inv cd s" and "net_step cd add mul e s = Some t"
  shows "net_inv cd t"
proof -
  from assms(3) have alive: "\<not> peer_dead (nt_peers s (net_node e))" and a: "net_action cd add mul e s = Some t"
    by (auto simp: net_step_def split: if_splits)
  show ?thesis
  proof (cases e)
    case (NetCall n i rnd g t1 t2 req)
    with net_call_inv [OF assms(2,1)] alive a show ?thesis by simp
  next
    case (NetReply n req t res)
    with net_reply_inv [OF assms(2,1)] alive a show ?thesis by simp
  next
    case (NetUnreached n nd i err t1 req)
    with net_unreached_inv [OF assms(2)] alive a show ?thesis by simp
  qed (use a net_broadcast_inv [OF assms(2)] net_pick_inv [OF assms(2)] net_read_inv [OF assms(1,2)] net_send_inv [OF assms(2)] net_take_inv [OF assms(2)] net_deliver_inv [OF assms(1,2)]
      net_box_inv [OF assms(2)] net_members_inv [OF assms(2)] net_worker_inv [OF assms(2)] in auto)
qed

lemma net_inv_new: "codec_ok cd \<Longrightarrow> net_inv cd (new_net cd)"
proof -
  assume cd: "codec_ok cd"
  have "box_reached newReplyBox" unfolding box_reached_def rb_reached_def by (intro exI [of _ "[]"]) simp
  then show ?thesis
    by (simp add: dq_empty_items [OF cd] net_inv_def new_net_def peer_inv_def new_peer_def named_def server_New_def newInbox_def replies_inv_def
        box_responses_def holdings_def newReplyBox_def)
qed

lemma net_run_inv:
  "codec_ok cd \<Longrightarrow> run_events (net_step cd add mul) es (new_net cd) = Some s \<Longrightarrow> net_inv cd s"
  by (rule run_events_inv [where I = "net_inv cd", OF net_step_inv net_inv_new])

subsection \<open>Properties\<close>

text \<open>
  C2: no answer goes astray.  Whatever the nodes of a cluster do, a response that a waiter for the id \<open>i\<close> receives at node
  \<open>n\<close> answers a call or a broadcast that \<open>n\<close> made under this id: it carries a reply that a script of the node serving the
  call gave, to a request with the name and the body of the call that this node had taken from its inbox; or it is the
  error of a broadcast of \<open>n\<close> that did not reach a node.
\<close>

theorem answers_own_call:
  assumes "codec_ok cd" and run: "run_events (net_step cd add mul) es (new_net cd) = Some s"
    and got: "(ch, Some r) \<in> set (rb_got (pr_box (nt_peers s n)))"
    and w: "w \<in> set (rb_handed (pr_box (nt_peers s n)))" "rw_ch w = ch"
  shows "\<exists>c. nt_calls s (rw_id w) = Some c \<and> ci_caller c = n
    \<and> (case ci_error c of
         Some e \<Rightarrow> rsp_error r \<and> rsp_result r = e
       | None \<Rightarrow> (\<exists>res q. (ci_server c, rw_id w, res) \<in> set (nt_replies s) \<and> carries r res
            \<and> q \<in> set (pr_taken (nt_peers s (ci_server c))) \<and> cr_id q = rw_id w \<and> cr_name q = ci_name c \<and> cr_body q = ci_body c))"
proof -
  have inv: "net_inv cd s" using net_run_inv [OF assms(1) run] .
  note p = net_inv_peer [OF inv, of n]
  obtain fs own where "owned own (pr_box (nt_peers s n))"
    using peer_invD(5) [OF p] reached_owned unfolding box_reached_def by blast
  moreover have h: "(ch, r) \<in> holdings (pr_box (nt_peers s n))" using got by (simp add: holdings_def)
  ultimately have id: "rsp_id r = rw_id w" using owned_holding owned_watch w by (fastforce simp: watches_def)
  have "r \<in> box_responses (pr_box (nt_peers s n))" using h by (force simp: box_responses_def)
  from peer_invD(6) [OF p this, unfolded answers_def id] obtain c where c: "nt_calls s (rw_id w) = Some c" "ci_caller c = n"
    and how: "case ci_error c of None \<Rightarrow> (\<exists>res. (ci_server c, rw_id w, res) \<in> set (nt_replies s) \<and> carries r res)
      | Some e \<Rightarrow> rsp_error r \<and> rsp_result r = e" by blast
  have "cr_name q = ci_name c \<and> cr_body q = ci_body c" if "q \<in> set (pr_taken (nt_peers s m))" "cr_id q = rw_id w" for m q
    using peer_invD(4) [OF net_inv_peer [OF inv] that(1)] that(2) c(1) by (auto simp: serves_def)
  moreover have "\<exists>q \<in> set (pr_taken (nt_peers s m)). cr_id q = rw_id w" if "(m, rw_id w, res) \<in> set (nt_replies s)" for m res
    using inv that by (fastforce simp: net_inv_def replies_inv_def)
  ultimately show ?thesis using c how by (cases "ci_error c") (simp_all, blast)
qed

subsection \<open>No request is handled twice\<close>

text \<open>How often a request with the id \<open>i\<close> is at a peer: in the queue, with a consumer, or handed to a script.\<close>

definition has_id :: "string \<Rightarrow> core_request \<Rightarrow> bool" where
  "has_id i q \<longleftrightarrow> cr_id q = i"

definition queued_id :: "'q codec \<Rightarrow> string \<Rightarrow> bytes \<Rightarrow> bool" where
  "queued_id cd i b \<longleftrightarrow> (case gb_get_request cd b of Inl e \<Rightarrow> False | Inr rq \<Rightarrow> rq_id rq = i)"

definition consumer_count :: "string \<Rightarrow> consumer \<Rightarrow> nat" where
  "consumer_count i c =
     length (filter (has_id i) (case cs_hold c of None \<Rightarrow> [] | Some q \<Rightarrow> [q])) + length (filter (has_id i) (ch_buf (cs_out c)))"

definition registered_count :: "string \<Rightarrow> (nat \<times> core_request chan) list \<Rightarrow> nat" where
  "registered_count i cs = sum_list (map (\<lambda>(k, ch). length (filter (has_id i) (ch_buf ch))) cs)"

definition request_count :: "'q codec \<Rightarrow> string \<Rightarrow> 'q peer \<Rightarrow> nat" where
  "request_count cd i p =
     length (filter (queued_id cd i) (dq_items cd (ib_queue (pr_inbox p))))
     + registered_count i (ib_consumers (pr_inbox p)) + sum_list (map (consumer_count i) (pr_consumers p))
     + length (filter (has_id i) (pr_taken p))"

definition allowed :: "(string \<rightharpoonup> call_info) \<Rightarrow> string \<Rightarrow> string \<Rightarrow> nat" where
  "allowed calls n i = (case calls i of None \<Rightarrow> 0 | Some c \<Rightarrow> if ci_server c = n then 1 else 0)"

definition once_inv :: "'q codec \<Rightarrow> 'q rpc_net \<Rightarrow> bool" where
  "once_inv cd s \<longleftrightarrow> (\<forall>n i. request_count cd i (nt_peers s n) \<le> allowed (nt_calls s) n i)"

lemma once_inv_set_peer:
  "once_inv cd s \<Longrightarrow> (\<And>i. request_count cd i p \<le> request_count cd i (nt_peers s n)) \<Longrightarrow> once_inv cd (set_peer n p s)"
  unfolding once_inv_def by (auto intro: order_trans)

lemma once_inv_note_call:
  assumes inv: "once_inv cd s" and i: "nt_calls s i = None"
  shows "once_inv cd (note_call i c s)"
proof -
  have "allowed (nt_calls s) n j \<le> allowed (nt_calls (note_call i c s)) n j" for n j using i by (simp add: allowed_def)
  moreover have "request_count cd j (nt_peers s n) \<le> allowed (nt_calls s) n j" for n j using inv by (simp add: once_inv_def)
  ultimately show ?thesis unfolding once_inv_def note_simps(1) using order_trans by blast
qed

lemma once_inv_note_reply: "once_inv cd s \<Longrightarrow> once_inv cd (note_reply n i res s)"
  by (simp add: once_inv_def)

text \<open>A new call puts one message into the queue of its server.\<close>

lemma once_inv_call:
  assumes inv: "once_inv cd s" and i: "nt_calls s i = None" and c: "ci_server c = m"
    and p: "\<And>j. request_count cd j p \<le> request_count cd j (nt_peers s m) + (if j = i then 1 else 0)"
  shows "once_inv cd (note_call i c (set_peer m p s))"
  unfolding once_inv_def
proof (intro allI)
  fix n j
  have old: "request_count cd j (nt_peers s n) \<le> allowed (nt_calls s) n j" for n j using inv by (simp add: once_inv_def)
  have zero: "request_count cd i (nt_peers s n) = 0" for n using old [of i n] i by (simp add: allowed_def)
  have grow: "allowed (nt_calls s) n j \<le> allowed ((nt_calls s)(i \<mapsto> c)) n j" using i by (simp add: allowed_def)
  show "request_count cd j (nt_peers (note_call i c (set_peer m p s)) n) \<le> allowed (nt_calls (note_call i c (set_peer m p s))) n j"
  proof (cases "n = m \<and> j = i")
    case True
    with p [of i] zero [of m] c show ?thesis by (simp add: allowed_def)
  next
    case False
    with p [of j] old [of j n] grow show ?thesis by (cases "n = m") auto
  qed
qed

lemma sum_list_swap:
  fixes f :: "'a \<Rightarrow> nat"
  shows "k < length xs \<Longrightarrow> sum_list (map f (xs[k := x])) + f (xs ! k) = sum_list (map f xs) + f x"
proof (induction xs arbitrary: k)
  case (Cons y ys)
  then show ?case by (cases k) auto
qed simp

lemma registered_count_update:
  "registered_count i (AList.update k ch' cs)
     + (case map_of cs k of None \<Rightarrow> 0 | Some ch \<Rightarrow> length (filter (has_id i) (ch_buf ch)))
   = registered_count i cs + length (filter (has_id i) (ch_buf ch'))"
  by (induction cs) (auto simp: registered_count_def)

lemma request_count_put:
  assumes "codec_ok cd" and "Inbox_Put (gb_put_request cd) (dq_put cd) rq (pr_inbox p) = Inr ib"
  shows "request_count cd j (p\<lparr>pr_inbox := ib\<rparr>) = request_count cd j p + (if j = rq_id rq then 1 else 0)"
proof -
  from Inbox_Put_queue [OF assms] obtain b where b: "gb_put_request cd rq = Inr b"
    "dq_items cd (ib_queue ib) = dq_items cd (ib_queue (pr_inbox p)) @ [b]" "ib_consumers ib = ib_consumers (pr_inbox p)" by auto
  have "gb_get_request cd b = Inr rq" using gob_request [OF assms(1) b(1)] .
  with b(2,3) show ?thesis by (auto simp: request_count_def queued_id_def)
qed

lemma request_count_simps [simp]:
  "request_count cd j (p\<lparr>pr_box := b\<rparr>) = request_count cd j p"
  "request_count cd j (p\<lparr>pr_box := b, pr_inbox := ib\<rparr>) = request_count cd j (p\<lparr>pr_inbox := ib\<rparr>)"
  "request_count cd j (p\<lparr>pr_outbox := q\<rparr>) = request_count cd j p"
  "request_count cd j (p\<lparr>pr_server := sv\<rparr>) = request_count cd j p"
  by (simp_all add: request_count_def)

lemma net_call_once:
  assumes inv: "once_inv cd s" and cd: "codec_ok cd" and t: "net_call cd add mul n i rnd g now1 now2 req s = Some t"
  shows "once_inv cd t"
proof -
  have i: "nt_calls s i = None" using t by (auto simp: net_call_def split: if_splits)
  have box: "once_inv cd (set_peer n ((nt_peers s n)\<lparr>pr_box := b\<rparr>) s)" for b
    by (rule once_inv_set_peer [OF inv]) simp
  show ?thesis
  proof (cases "luaRPCCall_plan add mul rnd g i now1 req (pr_server (nt_peers s n))")
    case (CallLocal rq)
    then have id: "rq_id rq = i" by (auto simp: luaRPCCall_plan_def loopback_request_def split: if_splits option.splits)
    from t CallLocal i obtain b r where
      "callLuaRPCMethod_start (gb_put_request cd) (dq_put cd) rq (pr_box (nt_peers s n)) (pr_inbox (nt_peers s n)) = Some (b, r)"
      and r: "t = (case r of Inl e \<Rightarrow> set_peer n ((nt_peers s n)\<lparr>pr_box := b\<rparr>) s
        | Inr (ch, ib) \<Rightarrow> note_call i \<lparr>ci_caller = n, ci_server = n, ci_name = cr_name req, ci_body = cr_body req, ci_error = None\<rparr>
            (set_peer n ((nt_peers s n)\<lparr>pr_box := b, pr_inbox := ib\<rparr>) s))"
      by (auto simp: net_call_def split: option.splits sum.splits prod.splits)
    then have put: "\<And>ch ib. r = Inr (ch, ib) \<Longrightarrow> Inbox_Put (gb_put_request cd) (dq_put cd) rq (pr_inbox (nt_peers s n)) = Inr ib"
      by (auto simp: callLuaRPCMethod_start_def split: option.splits sum.splits)
    show ?thesis
    proof (cases r)
      case (Inl e)
      with r box show ?thesis by simp
    next
      case (Inr x)
      obtain ch ib where x: "x = (ch, ib)" by fastforce
      have "request_count cd j ((nt_peers s n)\<lparr>pr_box := b, pr_inbox := ib\<rparr>)
          \<le> request_count cd j (nt_peers s n) + (if j = i then 1 else 0)" for j
        using request_count_put [OF cd put [of ch ib], of j] Inr x id by simp
      from once_inv_call [OF inv i _ this] r Inr x show ?thesis by simp
    qed
  next
    case (CallRemote m cq)
    show ?thesis
    proof (cases "t = s")
      case False
      with t CallRemote i obtain y ib where
        c: "RPCCall (gb_put_request cd) (dq_put cd) i now2 cq (pr_inbox (nt_peers s m)) = Inr (y, ib)"
        and eq: "t = note_call i \<lparr>ci_caller = n, ci_server = m, ci_name = cr_name req, ci_body = cr_body req, ci_error = None\<rparr>
            (set_peer m ((nt_peers s m)\<lparr>pr_inbox := ib\<rparr>) s)"
        by (auto simp: net_call_def split: if_splits sum.splits)
      then obtain rq where "Inbox_Put (gb_put_request cd) (dq_put cd) rq (pr_inbox (nt_peers s m)) = Inr ib" "rq_id rq = i"
        by (fastforce simp: RPCCall_def Let_def split: sum.splits)
      from request_count_put [OF cd this(1)] this(2) show ?thesis
        unfolding eq by (intro once_inv_call [OF inv i]) simp_all
    qed (use inv in simp)
  next
    case (CallFails e)
    with t i inv show ?thesis by (simp add: net_call_def)
  qed
qed

lemma net_read_once:
  assumes cd: "codec_ok cd" and inv: "once_inv cd s" and t: "net_read cd n k now s = Some t"
  shows "once_inv cd t"
proof -
  let ?p = "nt_peers s n"
  let ?c0 = "pr_consumers ?p ! k"
  from t obtain ib c where k: "k < length (pr_consumers ?p)"
    and r: "consumer_read (gb_get_request cd) (dq_read cd) now (pr_inbox ?p) ?c0 = Some (ib, c)"
    and eq: "t = set_peer n (?p\<lparr>pr_inbox := ib, pr_consumers := (pr_consumers ?p)[k := c]\<rparr>) s"
    by (auto simp: net_read_def Let_def split: if_splits)
  from r obtain d q where d: "cs_hold ?c0 = None" "dq_items cd (ib_queue (pr_inbox ?p)) = d # dq_items cd q" "ib = (pr_inbox ?p)\<lparr>ib_queue := q\<rparr>"
    "c = ?c0\<lparr>cs_hold := consume_data (gb_get_request cd) now d\<rparr>"
    by (auto simp: consumer_read_def split: if_splits option.splits dest!: dq_read_items [OF cd])
  have id: "consume_data (gb_get_request cd) now d = Some x \<Longrightarrow> queued_id cd i d = has_id i x" for i x
    by (auto simp: consume_data_def queued_id_def has_id_def Let_def split: sum.splits if_splits)
  have c: "consumer_count i c \<le> consumer_count i ?c0 + (if queued_id cd i d then 1 else 0)" for i
    using d(1,4) id by (auto simp: consumer_count_def split: option.splits)
  have "request_count cd i (?p\<lparr>pr_inbox := ib, pr_consumers := (pr_consumers ?p)[k := c]\<rparr>) \<le> request_count cd i ?p" for i
    using sum_list_swap [OF k, of "consumer_count i" c] c [of i] d(2,3)
    by (cases "queued_id cd i d") (simp_all add: request_count_def)
  then show ?thesis unfolding eq by (rule once_inv_set_peer [OF inv])
qed

lemma net_send_once:
  assumes inv: "once_inv cd s" and t: "net_send n k s = Some t"
  shows "once_inv cd t"
proof -
  let ?p = "nt_peers s n"
  from t obtain c where k: "k < length (pr_consumers ?p)" and r: "consumer_send (pr_consumers ?p ! k) = Some c"
    and eq: "t = set_peer n (?p\<lparr>pr_consumers := (pr_consumers ?p)[k := c]\<rparr>) s"
    by (auto simp: net_send_def Let_def split: if_splits)
  from r have "consumer_count i c = consumer_count i (pr_consumers ?p ! k)" for i
    by (auto simp: consumer_send_def consumer_count_def chan_simps split: option.splits)
  then have "request_count cd i (?p\<lparr>pr_consumers := (pr_consumers ?p)[k := c]\<rparr>) \<le> request_count cd i ?p" for i
    using sum_list_swap [OF k, of "consumer_count i" c] by (simp add: request_count_def)
  then show ?thesis unfolding eq by (rule once_inv_set_peer [OF inv])
qed

lemma net_take_once:
  assumes inv: "once_inv cd s" and t: "net_take n k s = Some t"
  shows "once_inv cd t"
proof -
  let ?p = "nt_peers s n"
  from t obtain req ch where k: "k < length (pr_consumers ?p)" and r: "chan_get (cs_out (pr_consumers ?p ! k)) = Some (req, ch)"
    and eq: "t = set_peer n (?p\<lparr>pr_consumers := (pr_consumers ?p)[k := (pr_consumers ?p ! k)\<lparr>cs_out := ch\<rparr>],
        pr_taken := pr_taken ?p @ [req]\<rparr>) s"
    by (auto simp: net_take_def Let_def split: if_splits)
  let ?c = "(pr_consumers ?p ! k)\<lparr>cs_out := ch\<rparr>"
  from r have "consumer_count i ?c + (if has_id i req then 1 else 0) = consumer_count i (pr_consumers ?p ! k)" for i
    by (auto simp: consumer_count_def chan_simps)
  note c = this
  have "request_count cd i (?p\<lparr>pr_consumers := (pr_consumers ?p)[k := ?c], pr_taken := pr_taken ?p @ [req]\<rparr>)
      \<le> request_count cd i ?p" for i
    using sum_list_swap [OF k, of "consumer_count i" ?c] c [of i] by (cases "has_id i req") (simp_all add: request_count_def)
  then show ?thesis unfolding eq by (rule once_inv_set_peer [OF inv])
qed

lemma net_to_consumer_once:
  assumes inv: "once_inv cd s" and i: "nt_calls s i = None" and t: "net_to_consumer n m k i rq s = Some t"
  shows "once_inv cd t"
proof -
  let ?ib = "pr_inbox (nt_peers s m)"
  from t obtain ch ch' where ch: "map_of (ib_consumers ?ib) k = Some ch" "chan_put (broadcast_request i rq) ch = Some ch'"
    and eq: "t = note_call i \<lparr>ci_caller = n, ci_server = m, ci_name = rq_name rq, ci_body = rq_body rq, ci_error = None\<rparr>
      (set_peer m ((nt_peers s m)\<lparr>pr_inbox := ?ib\<lparr>ib_consumers := AList.update k ch' (ib_consumers ?ib)\<rparr>\<rparr>) s)"
    by (auto simp: net_to_consumer_def Let_def split: option.splits)
  have "length (filter (has_id j) (ch_buf ch')) = length (filter (has_id j) (ch_buf ch)) + (if j = i then 1 else 0)" for j
    using ch(2) by (auto simp: chan_simps has_id_def broadcast_request_def)
  then have "registered_count j (AList.update k ch' (ib_consumers ?ib)) = registered_count j (ib_consumers ?ib) + (if j = i then 1 else 0)" for j
    using registered_count_update [of j k ch' "ib_consumers ?ib"] ch(1) by simp
  then have "request_count cd j ((nt_peers s m)\<lparr>pr_inbox := ?ib\<lparr>ib_consumers := AList.update k ch' (ib_consumers ?ib)\<rparr>\<rparr>)
      \<le> request_count cd j (nt_peers s m) + (if j = i then 1 else 0)" for j
    by (simp add: request_count_def)
  then show ?thesis unfolding eq by (intro once_inv_call [OF inv i]) simp_all
qed

lemma net_broadcast_once:
  assumes inv: "once_inv cd s" and t: "net_broadcast n dest k i now1 now2 req s = Some t"
  shows "once_inv cd t"
proof -
  have "nt_calls s i = None" using t by (auto simp: net_broadcast_def Let_def split: if_splits)
  from net_to_consumer_once [OF inv this] t show ?thesis
    by (auto simp: net_broadcast_def Let_def split: option.splits if_splits)
qed

lemma net_unreached_once:
  assumes inv: "once_inv cd s" and t: "net_unreached n nd i err now req s = Some t"
  shows "once_inv cd t"
proof -
  have i: "nt_calls s i = None" using t by (auto simp: net_unreached_def Let_def split: if_splits)
  from t obtain e b where eq: "t = note_call i
      \<lparr>ci_caller = n, ci_server = nd, ci_name = cr_name req, ci_body = cr_body req, ci_error = Some e\<rparr>
      (set_peer n ((nt_peers s n)\<lparr>pr_box := b\<rparr>) s)"
    by (auto simp: net_unreached_def Let_def split: if_splits option.splits)
  have "once_inv cd (set_peer n ((nt_peers s n)\<lparr>pr_box := b\<rparr>) s)" by (rule once_inv_set_peer [OF inv]) simp
  with i show ?thesis unfolding eq by (intro once_inv_note_call) simp_all
qed

lemma net_pick_once:
  assumes inv: "once_inv cd s" and t: "net_pick n j s = Some t"
  shows "once_inv cd t"
proof -
  let ?p = "nt_peers s n" and ?ib = "pr_inbox (nt_peers s n)"
  from t obtain ib c where k: "j < length (pr_consumers ?p)"
    and r: "consumer_broadcast (pr_ids ?p ! j) ?ib (pr_consumers ?p ! j) = Some (ib, c)"
    and eq: "t = set_peer n (?p\<lparr>pr_inbox := ib, pr_consumers := (pr_consumers ?p)[j := c]\<rparr>) s"
    by (auto simp: net_pick_def Let_def split: if_splits)
  from r obtain ch req ch' where ch: "map_of (ib_consumers ?ib) (pr_ids ?p ! j) = Some ch" "chan_get ch = Some (req, ch')"
    "ib = ?ib\<lparr>ib_consumers := AList.update (pr_ids ?p ! j) ch' (ib_consumers ?ib)\<rparr>"
    "c = (pr_consumers ?p ! j)\<lparr>cs_hold := Some req\<rparr>" "cs_hold (pr_consumers ?p ! j) = None"
    by (auto simp: consumer_broadcast_def split: if_splits option.splits)
  have buf: "ch_buf ch = req # ch_buf ch'" using ch(2) by (auto simp: chan_simps)
  have "request_count cd i (?p\<lparr>pr_inbox := ib, pr_consumers := (pr_consumers ?p)[j := c]\<rparr>) \<le> request_count cd i ?p" for i
    using sum_list_swap [OF k, of "consumer_count i" c] registered_count_update [of i "pr_ids ?p ! j" ch' "ib_consumers ?ib"]
      ch buf by (cases "has_id i req") (simp_all add: request_count_def consumer_count_def)
  then show ?thesis unfolding eq by (rule once_inv_set_peer [OF inv])
qed

lemma net_others_once:
  assumes inv: "once_inv cd s"
  shows "net_reply cd n req now res s = Some t \<Longrightarrow> once_inv cd t" and "net_deliver cd n s = Some t \<Longrightarrow> once_inv cd t"
    and "net_box n e s = Some t \<Longrightarrow> once_inv cd t" and "net_members n names services locals s = Some t \<Longrightarrow> once_inv cd t"
    and "net_worker n k s = Some t \<Longrightarrow> once_inv cd t"
proof -
  note set = once_inv_set_peer [OF inv]
  have box: "once_inv cd (set_peer m ((nt_peers s' m)\<lparr>pr_box := b\<rparr>) s')" if "once_inv cd s'" for m b s'
    by (rule once_inv_set_peer [OF that]) simp
  have out: "once_inv cd (set_peer n ((nt_peers s n)\<lparr>pr_outbox := q\<rparr>) s)" for q by (rule set) simp
  show "net_reply cd n req now res s = Some t \<Longrightarrow> once_inv cd t"
    using box [OF inv] out
    by (auto simp: net_reply_def Let_def intro: once_inv_note_reply split: if_splits option.splits reply_outcome.splits)
  show "net_deliver cd n s = Some t \<Longrightarrow> once_inv cd t"
    using out box [OF out]
    by (auto simp: net_deliver_def Let_def simp del: note_simps(9) split: if_splits option.splits sum.splits)
  show "net_box n e s = Some t \<Longrightarrow> once_inv cd t"
    using box [OF inv] by (auto simp: net_box_def split: if_splits)
  show "net_members n names services locals s = Some t \<Longrightarrow> once_inv cd t"
    unfolding net_members_def option.inject by (drule sym, simp only:, rule set) simp
  show "net_worker n k s = Some t \<Longrightarrow> once_inv cd t"
    using registered_count_update [of _ k "make_chan 64" "ib_consumers (pr_inbox (nt_peers s n))"]
    by (auto simp: net_worker_def Let_def NewConsumer_def request_count_def consumer_count_def simp del: note_simps(9)
        split: if_splits intro!: set)
qed

lemma net_step_once:
  assumes "codec_ok cd" and "once_inv cd s" and "net_step cd add mul e s = Some t"
  shows "once_inv cd t"
proof -
  from assms(3) have a: "net_action cd add mul e s = Some t" by (auto simp: net_step_def split: if_splits)
  then show ?thesis
    using net_call_once [OF assms(2,1)] net_read_once [OF assms(1,2)] net_send_once [OF assms(2)] net_take_once [OF assms(2)]
      net_others_once [OF assms(2)] net_broadcast_once [OF assms(2)] net_unreached_once [OF assms(2)]
      net_pick_once [OF assms(2)] by (cases e) auto
qed

lemma once_inv_new: "codec_ok cd \<Longrightarrow> once_inv cd (new_net cd)"
  by (simp add: dq_empty_items registered_count_def once_inv_def new_net_def new_peer_def request_count_def newInbox_def)

lemma net_run_once:
  "codec_ok cd \<Longrightarrow> run_events (net_step cd add mul) es (new_net cd) = Some s \<Longrightarrow> once_inv cd s"
  by (rule run_events_inv [where I = "once_inv cd", OF net_step_once once_inv_new])

lemma distinct_ids:
  "(\<And>i. length (filter (has_id i) qs) \<le> 1) \<Longrightarrow> distinct (map cr_id qs)"
proof (induction qs)
  case (Cons q qs)
  have "length (filter (has_id i) qs) \<le> 1" for i using Cons.prems [of i] by (simp split: if_splits)
  moreover have "filter (has_id (cr_id q)) qs = []" using Cons.prems [of "cr_id q"] by (simp add: has_id_def [of "cr_id q" q])
  then have "cr_id q \<notin> cr_id ` set qs" by (auto simp: filter_empty_conv has_id_def)
  ultimately show ?case using Cons.IH by simp
qed simp

text \<open>
  C5: a call is handled at most once.  Whatever the nodes do, a node hands no two requests with the same id to its scripts,
  and a request is only handed to the scripts of the node that serves the call with its id.
\<close>

theorem handled_at_most_once:
  assumes "codec_ok cd" and run: "run_events (net_step cd add mul) es (new_net cd) = Some s"
  shows "distinct (map cr_id (pr_taken (nt_peers s n)))
    \<and> (\<forall>q \<in> set (pr_taken (nt_peers s n)). \<exists>c. nt_calls s (cr_id q) = Some c \<and> ci_server c = n)"
proof -
  have "length (filter (has_id i) (pr_taken (nt_peers s n))) \<le> 1" for i
  proof -
    have "request_count cd i (nt_peers s n) \<le> allowed (nt_calls s) n i"
      using net_run_once [OF assms] by (simp add: once_inv_def)
    also have "\<dots> \<le> 1" by (simp add: allowed_def split: option.splits)
    finally show ?thesis by (simp add: request_count_def)
  qed
  from distinct_ids [OF this] show ?thesis
    using peer_invD(4) [OF net_inv_peer [OF net_run_inv [OF assms]]] by (auto simp: serves_def)
qed

subsection \<open>A call comes back\<close>

text \<open>The members \<open>n\<close> and \<open>m\<close>, where \<open>m\<close> has registered the service \<open>x\<close> and runs one worker.\<close>

definition two_nodes :: "string \<Rightarrow> string \<Rightarrow> string \<Rightarrow> net_event list" where
  "two_nodes n m x = [NetMembers n [m] [(x, [(m, 1)])] [], NetMembers m [n] [] [(x, 1)], NetWorker m 0]"

text \<open>The request that \<open>m\<close> makes of the call, as it lies in the queue and as the handler gets it.\<close>

definition sent_request :: "string \<Rightarrow> string \<Rightarrow> instant \<Rightarrow> core_request \<Rightarrow> rpc_request" where
  "sent_request n i t req =
     \<lparr>rq_id = i, rq_name = cr_name req, rq_body = cr_body req, rq_timestamp = t, rq_timeout = 0, rq_node = n, rq_loopback = False\<rparr>"

text \<open>The steps of one call: the request goes out, the caller watches, \<open>m\<close> handles and replies, the response comes in.\<close>

definition call_steps ::
    "string \<Rightarrow> string \<Rightarrow> string \<Rightarrow> rat \<Rightarrow> instant \<Rightarrow> core_request \<Rightarrow> core_response \<Rightarrow> net_event list" where
  "call_steps n m i rnd t req res =
     [NetCall n i rnd [(m, 1)] t t req,
      NetBox n (EvLookup i), NetBox n (EvSend \<lparr>rw_id = i, rw_ch = 0\<rparr>), NetBox n EvLoopWatch,
      NetRead m 0 t, NetSend m 0, NetTake m 0, NetReply m (core_of (sent_request n i t req)) t res,
      NetDeliver m, NetBox n EvLoopInsert, NetBox n (EvReceive 0)]"

lemma net_eval:
  "run_events f (e # es) s = Option.bind (f e s) (run_events f es)" "run_events f [] s = Some s"
  by (auto split: option.splits)

lemmas net_defs =
  net_step_def net_call_def net_read_def net_send_def net_take_def net_reply_def net_deliver_def net_box_def net_members_def
  net_worker_def peer_dead_def new_net_def new_peer_def

text \<open>A queue that takes every message, and gives one as long as it holds one.\<close>

definition queue_takes :: "'q codec \<Rightarrow> bool" where
  "queue_takes cd \<longleftrightarrow>
     (\<forall>b q. \<exists>q'. dq_put cd b q = Inr q') \<and> (\<forall>q. dq_items cd q \<noteq> [] \<longrightarrow> (\<exists>b q'. dq_read cd q = Some (b, q')))"

lemma queue_one:
  assumes "codec_ok cd" and "queue_takes cd"
  shows "\<exists>q q'. dq_put cd b (dq_empty cd) = Inr q \<and> dq_read cd q = Some (b, q')"
proof -
  obtain q where q: "dq_put cd b (dq_empty cd) = Inr q" using assms(2) unfolding queue_takes_def by blast
  have items: "dq_items cd q = [b]" using dq_put_items [OF assms(1) q] dq_empty_items [OF assms(1)] by simp
  then obtain b' q' where "dq_read cd q = Some (b', q')" using assms(2) unfolding queue_takes_def by (metis list.distinct(1))
  with dq_read_items [OF assms(1) this] items q show ?thesis by simp
qed

text \<open>What a reply worker sends, and what becomes of it.\<close>

lemma doReply_response:
  assumes "gb_get_response cd d = Inr (reply_response i n t res)"
  shows "doReply (gb_get_response cd) d (sv\<lparr>sv_rpcs := [n \<mapsto> n], sv_services := x, sv_local := l\<rparr>)
    = Inr (Some (n, \<lparr>rr_id = i, rr_result = rsp_result (reply_response i n t res), rr_timestamp = t,
        rr_error = rsp_error (reply_response i n t res)\<rparr>))"
  using assms by (simp add: doReply_def getRemoteRPC_def reply_response_def split: option.splits)

lemma RPCReply_response:
  "RPCReply \<lparr>rr_id = i, rr_result = rsp_result (reply_response i n t res), rr_timestamp = t,
        rr_error = rsp_error (reply_response i n t res)\<rparr> bx = Insert (reply_response i [] t res) bx"
  by (simp add: RPCReply_def reply_response_def split: option.splits)

lemma call_run:
  assumes cd: "codec_ok cd" and takes: "queue_takes cd" and nm: "n \<noteq> m" and rnd: "0 \<le> rnd" "rnd < 1" and "cr_expires req = None"
    and q: "gb_put_request cd (sent_request n i t req) = Inr b"
    and r: "gb_put_response cd (reply_response i n t res) = Inr d"
  shows "\<exists>s. run_events (net_step cd (+) (*)) (two_nodes n m (cr_name req) @ call_steps n m i rnd t req res) (new_net cd) = Some s
    \<and> rb_got (pr_box (nt_peers s n)) = [(0, Some (reply_response i [] t res))]
    \<and> rb_handed (pr_box (nt_peers s n)) = [\<lparr>rw_id = i, rw_ch = 0\<rparr>]
    \<and> pr_taken (nt_peers s m) = [core_of (sent_request n i t req)]"
proof -
  have plan: "luaRPCCall_plan (+) (*) rnd [(m, 1)] i t req
      ((server_New empty_config n)\<lparr>sv_rpcs := [m \<mapsto> m], sv_services := [cr_name req \<mapsto> [(m, 1)]], sv_local := []\<rparr>)
    = CallRemote m \<lparr>cq_name = cr_name req, cq_body = cr_body req, cq_node = n, cq_timeout_ms = 0\<rparr>"
    using rnd assms(6)
    by (simp add: server_New_def luaRPCCall_plan_def choose_node_def getRemoteRPC_def time_until_def Milliseconds_def go_div_def)
  obtain qi qi' where qi: "dq_put cd b (dq_empty cd) = Inr qi" "dq_read cd qi = Some (b, qi')"
    using queue_one [OF cd takes] by blast
  obtain qo qo' where qo: "dq_put cd d (dq_empty cd) = Inr qo" "dq_read cd qo = Some (d, qo')"
    using queue_one [OF cd takes] by blast
  have put: "Inbox_Put (gb_put_request cd) (dq_put cd) (sent_request n i t req) ib = Inr (ib\<lparr>ib_queue := qi\<rparr>)"
    if "ib_queue ib = dq_empty cd" for ib
    using q qi that by (simp add: Inbox_Put_def)
  have rpc: "RPCCall (gb_put_request cd) (dq_put cd) i t \<lparr>cq_name = cr_name req, cq_body = cr_body req, cq_node = n, cq_timeout_ms = 0\<rparr> ib
      = Inr ((i, t), ib\<lparr>ib_queue := qi\<rparr>)" if "ib_queue ib = dq_empty cd" for ib
    using put [OF that] by (simp add: RPCCall_def Let_def sent_request_def duration_of_ms_def wrap64_def)
  have get: "gb_get_request cd b = Inr (sent_request n i t req)" "gb_get_response cd d = Inr (reply_response i n t res)"
    using gob_request [OF cd q] gob_response [OF cd r] .
  have cons: "consume_data (gb_get_request cd) t b = Some (core_of (sent_request n i t req))"
    by (simp add: consume_data_def get sent_request_def core_of_def)
  have core: "cr_id (core_of (sent_request n i t req)) = i" "cr_node (core_of (sent_request n i t req)) = n"
    "\<not> cr_loopback (core_of (sent_request n i t req))" by (simp_all add: core_of_def sent_request_def)
  have reply: "env_Reply (gb_put_response cd) (dq_put cd) i n False t res bx (dq_empty cd) = Some (InOutbox qo)" for bx
    using r qo by (simp add: env_Reply_def)
  note deliver = doReply_response [OF get(2)]
  show ?thesis
    using nm by (simp add: two_nodes_def call_steps_def net_eval net_defs newInbox_def NewConsumer_def plan rpc core
        consumer_read_def consumer_send_def cons qi(2) qo(2) reply deliver RPCReply_response chan_put_def chan_send_def chan_get_def chan_recv_def
        rb_eval reply_response_simps)
qed

text \<open>
  a call to another node comes back.  When \<open>m\<close> offers the service and runs a worker, and \<open>n\<close> calls it without a timeout,
  the queues take messages and nothing else is going on, the steps of the call are all enabled: the script of \<open>m\<close> gets the name and the body, and the
  waiter of \<open>n\<close>, which watched the id, receives one response with the reply.
\<close>

theorem call_comes_back:
  assumes cd: "codec_ok cd" and takes: "queue_takes cd" and nm: "n \<noteq> m" and rnd: "0 \<le> rnd" "rnd < 1" and "cr_expires req = None"
    and q: "gb_put_request cd (sent_request n i t req) = Inr b"
    and r: "gb_put_response cd (reply_response i n t res) = Inr d"
  shows "\<exists>s. run_events (net_step cd (+) (*)) (two_nodes n m (cr_name req) @ call_steps n m i rnd t req res) (new_net cd) = Some s
    \<and> rb_got (pr_box (nt_peers s n)) = [(0, Some (reply_response i [] t res))]
    \<and> rb_handed (pr_box (nt_peers s n)) = [\<lparr>rw_id = i, rw_ch = 0\<rparr>]
    \<and> pr_taken (nt_peers s m) = [core_of (sent_request n i t req)]"
  by (rule call_run [OF assms])

text \<open>So does a broadcast to the one worker of another node.\<close>

definition broadcast_sent :: "string \<Rightarrow> string \<Rightarrow> instant \<Rightarrow> core_request \<Rightarrow> core_request" where
  "broadcast_sent n i t req = broadcast_request i (served_broadcast n t (time_until (cr_expires req) t) req)"

definition broadcast_steps :: "string \<Rightarrow> string \<Rightarrow> string \<Rightarrow> instant \<Rightarrow> core_request \<Rightarrow> core_response \<Rightarrow> net_event list" where
  "broadcast_steps n m i t req res =
     [NetBroadcast n (Some m) 0 i t t req,
      NetBox n (EvLookup i), NetBox n (EvSend \<lparr>rw_id = i, rw_ch = 0\<rparr>), NetBox n EvLoopWatch,
      NetPick m 0, NetSend m 0, NetTake m 0, NetReply m (broadcast_sent n i t req) t res,
      NetDeliver m, NetBox n EvLoopInsert, NetBox n (EvReceive 0)]"

theorem broadcast_comes_back:
  assumes cd: "codec_ok cd" and takes: "queue_takes cd" and nm: "n \<noteq> m"
    and r: "gb_put_response cd (reply_response i n t res) = Inr d"
  shows "\<exists>s. run_events (net_step cd (+) (*)) (two_nodes n m (cr_name req) @ broadcast_steps n m i t req res) (new_net cd) = Some s
    \<and> rb_got (pr_box (nt_peers s n)) = [(0, Some (reply_response i [] t res))]
    \<and> pr_taken (nt_peers s m) = [broadcast_sent n i t req]"
proof -
  obtain qo qo' where qo: "dq_put cd d (dq_empty cd) = Inr qo" "dq_read cd qo = Some (d, qo')"
    using queue_one [OF cd takes] by blast
  have core: "cr_id (broadcast_sent n i t req) = i" "cr_node (broadcast_sent n i t req) = n"
    "\<not> cr_loopback (broadcast_sent n i t req)"
    by (simp_all add: broadcast_sent_def broadcast_request_def served_broadcast_def)
  have reply: "env_Reply (gb_put_response cd) (dq_put cd) i n False t res bx (dq_empty cd) = Some (InOutbox qo)" for bx
    using r qo by (simp add: env_Reply_def)
  note deliver = doReply_response [OF gob_response [OF cd r]]
  have node: "sv_node (server_New empty_config n) = n" by (simp add: server_New_def)
  show ?thesis
    using nm by (simp add: two_nodes_def broadcast_steps_def net_eval net_defs net_broadcast_def net_pick_def net_to_consumer_def
        newInbox_def NewConsumer_def core node getRemoteRPC_def broadcast_sent_def [symmetric] consumer_broadcast_def
        consumer_send_def qo(2) reply deliver RPCReply_response chan_put_def chan_send_def chan_get_def chan_recv_def
        rb_eval reply_response_simps)
qed

subsection \<open>A concrete run\<close>

definition toy_call :: core_request where
  "toy_call = \<lparr>cr_id = [], cr_node = [], cr_loopback = False, cr_name = ''echo'', cr_body = ''hi'', cr_expires = None\<rparr>"

definition toy_reply :: core_response where
  "toy_reply = \<lparr>cp_body = ''ok'', cp_error = None\<rparr>"

text \<open>A queue as a list, and a format that knows one request and one response.\<close>

definition list_put :: "bytes \<Rightarrow> bytes list \<Rightarrow> string + bytes list" where
  "list_put b q = Inr (q @ [b])"

fun list_read :: "bytes list \<Rightarrow> (bytes \<times> bytes list) option" where
  "list_read [] = None"
| "list_read (b # q) = Some (b, q)"

definition toy_codec :: "bytes list codec" where
  "toy_codec =
     \<lparr>gb_put_request = (\<lambda>x. if x = sent_request ''n1'' ''i'' 0 toy_call then Inr ''q'' else Inl []),
      gb_get_request = (\<lambda>b. if b = ''q'' then Inr (sent_request ''n1'' ''i'' 0 toy_call) else Inl []),
      gb_put_response = (\<lambda>x. if x = reply_response ''i'' ''n1'' 0 toy_reply then Inr ''r'' else Inl []),
      gb_get_response = (\<lambda>b. if b = ''r'' then Inr (reply_response ''i'' ''n1'' 0 toy_reply) else Inl []),
      dq_empty = [], dq_put = list_put, dq_read = list_read, dq_items = id\<rparr>"

lemma list_queue:
  "list_put b q = Inr q' \<Longrightarrow> q' = q @ [b]" "list_read q = Some (b, q') \<longleftrightarrow> q = b # q'" "\<exists>q'. list_put b q = Inr q'"
  "q \<noteq> [] \<Longrightarrow> \<exists>b q'. list_read q = Some (b, q')"
  by (cases q; auto simp: list_put_def)+

lemma toy_codec_ok: "codec_ok toy_codec"
  by (auto simp: codec_ok_def toy_codec_def list_queue(2) dest: list_queue(1) split: if_splits)

lemma toy_codec_takes: "queue_takes toy_codec"
  by (simp add: queue_takes_def toy_codec_def list_queue(3,4))

lemma toy_sent:
  "gb_put_request toy_codec (sent_request ''n1'' ''i'' 0 toy_call) = Inr ''q''"
  "gb_put_response toy_codec (reply_response ''i'' ''n1'' 0 toy_reply) = Inr ''r''"
  "cr_expires toy_call = None"
  by (simp_all add: toy_codec_def toy_call_def)

definition toy_events :: "net_event list" where
  "toy_events = two_nodes ''n1'' ''n2'' ''echo'' @ call_steps ''n1'' ''n2'' ''i'' (1 / 2) 0 toy_call toy_reply"

lemma toy_run:
  "\<exists>s. run_events (net_step toy_codec (+) (*)) toy_events (new_net toy_codec) = Some s
    \<and> rb_got (pr_box (nt_peers s ''n1'')) = [(0, Some (reply_response ''i'' [] 0 toy_reply))]
    \<and> rb_handed (pr_box (nt_peers s ''n1'')) = [\<lparr>rw_id = ''i'', rw_ch = 0\<rparr>]
    \<and> pr_taken (nt_peers s ''n2'') = [core_of (sent_request ''n1'' ''i'' 0 toy_call)]"
  using call_run [OF toy_codec_ok toy_codec_takes _ _ _ toy_sent(3,1,2), of "''n2''" "1 / 2"]
  by (simp add: toy_events_def toy_call_def)

lemma answers_own_call_witness:
  "\<exists>s c res. run_events (net_step toy_codec (+) (*)) toy_events (new_net toy_codec) = Some s
    \<and> nt_calls s ''i'' = Some c \<and> ci_caller c = ''n1'' \<and> (ci_server c, ''i'', res) \<in> set (nt_replies s)
    \<and> carries (reply_response ''i'' [] 0 toy_reply) res"
proof -
  obtain s where s: "run_events (net_step toy_codec (+) (*)) toy_events (new_net toy_codec) = Some s"
    "rb_got (pr_box (nt_peers s ''n1'')) = [(0, Some (reply_response ''i'' [] 0 toy_reply))]"
    "rb_handed (pr_box (nt_peers s ''n1'')) = [\<lparr>rw_id = ''i'', rw_ch = 0\<rparr>]" using toy_run by blast
  from answers_own_call [OF toy_codec_ok s(1), of 0 "reply_response ''i'' [] 0 toy_reply" "''n1''" "\<lparr>rw_id = ''i'', rw_ch = 0\<rparr>"] s(2,3)
  obtain c where c: "nt_calls s ''i'' = Some c" "ci_caller c = ''n1''"
    "case ci_error c of Some e \<Rightarrow> rsp_error (reply_response ''i'' [] 0 toy_reply) \<and> rsp_result (reply_response ''i'' [] 0 toy_reply) = e
      | None \<Rightarrow> \<exists>res q. (ci_server c, ''i'', res) \<in> set (nt_replies s) \<and> carries (reply_response ''i'' [] 0 toy_reply) res
          \<and> q \<in> set (pr_taken (nt_peers s (ci_server c))) \<and> cr_id q = ''i'' \<and> cr_name q = ci_name c \<and> cr_body q = ci_body c"
    by (auto cong: option.case_cong)
  then have "\<exists>res. (ci_server c, ''i'', res) \<in> set (nt_replies s) \<and> carries (reply_response ''i'' [] 0 toy_reply) res"
    by (cases "ci_error c") (auto simp: reply_response_def toy_reply_def)
  with s(1) c(1,2) show ?thesis by blast
qed

lemma handled_at_most_once_witness:
  "\<exists>s c. run_events (net_step toy_codec (+) (*)) toy_events (new_net toy_codec) = Some s
    \<and> pr_taken (nt_peers s ''n2'') = [core_of (sent_request ''n1'' ''i'' 0 toy_call)]
    \<and> nt_calls s ''i'' = Some c \<and> ci_server c = ''n2''"
proof -
  obtain s where s: "run_events (net_step toy_codec (+) (*)) toy_events (new_net toy_codec) = Some s"
    "pr_taken (nt_peers s ''n2'') = [core_of (sent_request ''n1'' ''i'' 0 toy_call)]" using toy_run by blast
  from handled_at_most_once [OF toy_codec_ok s(1), of "''n2''"] s(2)
  have "\<exists>c. nt_calls s ''i'' = Some c \<and> ci_server c = ''n2''" by (simp add: core_of_def sent_request_def)
  with s show ?thesis by blast
qed

lemma call_comes_back_witness:
  "\<exists>s. run_events (net_step toy_codec (+) (*)) (two_nodes ''n1'' ''n2'' ''echo'' @ call_steps ''n1'' ''n2'' ''i'' (1 / 2) 0 toy_call toy_reply)
      (new_net toy_codec) = Some s
    \<and> rb_got (pr_box (nt_peers s ''n1'')) = [(0, Some (reply_response ''i'' [] 0 toy_reply))]"
  using call_comes_back [OF toy_codec_ok toy_codec_takes _ _ _ toy_sent(3,1,2), of "''n2''" "1 / 2"] by (auto simp: toy_call_def)

end
