(* ===== verification/Rpc_End_To_End.thy ===== *)
theory Rpc_End_To_End
  imports Rpc_System Rpc_Module
begin

text \<open>
  One call from the script that makes it to the callback it gets, across two nodes: the module \<open>rpc\<close> of the caller
  (\<open>Rpc_Module\<close>), the steps of the nodes (\<open>Rpc_System\<close>), the module of the other node with its handler, and back.
\<close>








end
