(* ===== verification/Lua_Class.thy ===== *)
theory Lua_Class
  imports Http
begin

text \<open>
  The rest of the Lua library: the function \<open>class\<close> of \<open>runtime/global.lua\<close> with the constructor and the function \<open>is\<close>
  that it makes, and the functions of \<open>runtime/http.lua\<close>.  A table is an address of the heap \<open>lua_heap\<close>, and metatables are
  a map of their own.
\<close>

subsection \<open>Classes\<close>

record 'h class_state =
  cs_heap :: 'h
  cs_meta :: "addr \<rightharpoonup> addr"

definition truthy :: "lval \<Rightarrow> bool" where
  "truthy v \<longleftrightarrow> v \<noteq> LNil \<and> v \<noteq> LBool False"

text \<open>The two functions that \<open>class\<close> makes: the constructor, with the values it captures, and \<open>is\<close>.\<close>

datatype class_fn = ClassCall addr lval lval | ClassIs

text \<open>\<open>for i, v in pairs(base) do c[i] = v end\<close>\<close>

fun copy_entries :: "('h, 'u) lua_api \<Rightarrow> addr \<Rightarrow> (lval \<times> lval) list \<Rightarrow> 'h \<Rightarrow> 'h" where
  "copy_entries api c [] h = h"
| "copy_entries api c ((k, v) # es) h = copy_entries api c es (la_set api c k v h)"

text \<open>The arguments as \<open>class\<close> sees them after its first test: the base and the initialiser.\<close>

definition class_args :: "lval \<Rightarrow> lval \<Rightarrow> lval \<times> lval" where
  "class_args base init = (if \<not> truthy init \<and> ltype base = LTFunction then (LNil, base) else (base, init))"

definition class_base :: "('h, 'u) lua_api \<Rightarrow> addr \<Rightarrow> lval \<Rightarrow> 'h \<Rightarrow> 'h" where
  "class_base api c base h =
     (case base of
        LTable b \<Rightarrow> la_set api c (LString ''_base'') (LTable b) (copy_entries api c (la_entries api h b) h)
      | _ \<Rightarrow> h)"

definition class_fill :: "('h, 'u) lua_api \<Rightarrow> (class_fn \<Rightarrow> addr) \<Rightarrow> addr \<Rightarrow> addr \<Rightarrow> lval \<Rightarrow> lval \<Rightarrow> 'h \<Rightarrow> 'h" where
  "class_fill api fn c mt base init h =
     (let h1 = la_set api mt (LString ''__call'') (LFunction (fn (ClassCall c base init))) h;
          h2 = la_set api c (LString ''init'') init h1
      in la_set api c (LString ''is'') (LFunction (fn ClassIs)) h2)"

definition class_new ::
    "('h, 'u) lua_api \<Rightarrow> (class_fn \<Rightarrow> addr) \<Rightarrow> lval \<Rightarrow> lval \<Rightarrow> 'h class_state \<Rightarrow> addr \<times> 'h class_state" where
  "class_new api fn base0 init0 s =
     (case class_args base0 init0 of (base, init) \<Rightarrow>
      case la_new_table api (cs_heap s) of (c, h) \<Rightarrow>
      case la_new_table api (la_set api c (LString ''__index'') (LTable c) (class_base api c base h)) of (mt, h1) \<Rightarrow>
        (c, \<lparr>cs_heap = class_fill api fn c mt base init h1, cs_meta = (cs_meta s)(c \<mapsto> mt)\<rparr>))"

text \<open>
  The constructor: a new object with the class as its metatable, and the initialiser it calls.  A base that cannot be
  indexed raises; user data count as such, without a metatable of their own.
\<close>

datatype init_call = NoInit | CallInit lval | InitRaises

definition base_init :: "('h, 'u) lua_api \<Rightarrow> 'h \<Rightarrow> lval \<Rightarrow> init_call" where
  "base_init api h base =
     (if \<not> truthy base then NoInit
      else case base of
             LTable b \<Rightarrow> (let f = la_get api h b (LString ''init'') in if truthy f then CallInit f else NoInit)
           | LString s \<Rightarrow> NoInit
           | _ \<Rightarrow> InitRaises)"

definition class_call ::
    "('h, 'u) lua_api \<Rightarrow> addr \<Rightarrow> lval \<Rightarrow> lval \<Rightarrow> 'h class_state \<Rightarrow> addr \<times> init_call \<times> 'h class_state" where
  "class_call api c base init s =
     (case la_new_table api (cs_heap s) of (ob, h) \<Rightarrow>
        (ob, (if truthy init then CallInit init else base_init api h base), \<lparr>cs_heap = h, cs_meta = (cs_meta s)(ob \<mapsto> c)\<rparr>))"




subsection \<open>The module http\<close>

text \<open>The functions of the table: two of \<open>_http\<close>, and one per method, which puts the method first and returns nothing.\<close>

definition http_verbs :: "(string \<times> string) list" where
  "http_verbs = [(''get'', ''GET''), (''post'', ''POST''), (''put'', ''PUT''), (''delete'', ''DELETE''), (''patch'', ''PATCH'')]"

definition http_call ::
    "('h, 'x) interp \<Rightarrow> unit go_env \<Rightarrow> 'x http_api \<Rightarrow> string \<Rightarrow> lval list \<Rightarrow> ('h, 'x) world \<Rightarrow> ('h, 'x) module_result option" where
  "http_call ip env ht name args w =
     (if name = ''request'' then Some (lRequest ip env ht args w)
      else if name = ''create_server'' then Some (http_lCreateServer ip args w)
      else map_option (\<lambda>m. case lRequest ip env ht (LString m # args) w of (w1, cs, r) \<Rightarrow> (w1, cs, map_sum id (\<lambda>_. []) r))
             (map_of http_verbs name))"

subsection \<open>Lemmas\<close>

text \<open>The heap, as far as reading is concerned: what an operation keeps, and what is read after it.\<close>

context lua_heap
begin

lemma get_set:
  assumes "la_ok api h" and "a \<in> la_live api h" and "lval_live api h v"
  shows "la_get api (la_set api a (LString x) v h) b k = (if b = a \<and> k = LString x then v else la_get api h b k)"
proof -
  have ok: "la_ok api (la_set api a (LString x) v h)" using assms by (intro set_ok) auto
  show ?thesis
  proof (cases "b = a")
    case True
    then show ?thesis
      using assms get_entries [OF ok] get_entries [OF assms(1)] set_nil [OF assms(1,2), of "LString x"]
        set_entries [OF assms(1,2), of "LString x" v] by (cases "v = LNil") auto
  next
    case False
    then show ?thesis using get_entries [OF ok] get_entries [OF assms(1)] set_other by simp
  qed
qed

lemma set_keeps:
  "la_ok api h \<Longrightarrow> a \<in> la_live api h \<Longrightarrow> lval_live api h v \<Longrightarrow>
     la_ok api (la_set api a (LString x) v h) \<and> la_live api (la_set api a (LString x) v h) = la_live api h"
  using set_ok set_live by auto

lemma get_new:
  assumes "la_ok api h" and "la_new_table api h = (a, h')"
  shows "la_get api h' b k = (if b = a then LNil else la_get api h b k)"
  using new_table [OF assms] get_entries [of h'] get_entries [OF assms(1)] by auto

lemma get_copy:
  assumes "la_ok api h" and "c \<in> la_live api h" and "distinct (map fst es)"
    and "\<forall>(k, v) \<in> set es. key_ok k \<and> v \<noteq> LNil \<and> lval_live api h k \<and> lval_live api h v"
  shows "la_ok api (copy_entries api c es h) \<and> la_live api (copy_entries api c es h) = la_live api h
    \<and> (\<forall>b k. la_get api (copy_entries api c es h) b k =
        (if b = c then (case map_of es k of Some v \<Rightarrow> v | None \<Rightarrow> la_get api h c k) else la_get api h b k))"
  using assms
proof (induction es arbitrary: h)
  case (Cons e es)
  obtain k v where e: "e = (k, v)" by fastforce
  with Cons.prems have v: "key_ok k" "v \<noteq> LNil" "lval_live api h k" "lval_live api h v" "k \<notin> fst ` set es" by auto
  let ?h = "la_set api c k v h"
  have ok: "la_ok api ?h" using set_ok [OF Cons.prems(1,2) v(1,3,4)] .
  have live: "la_live api ?h = la_live api h" by (rule set_live)
  have "la_ok api (copy_entries api c es ?h) \<and> la_live api (copy_entries api c es ?h) = la_live api ?h
    \<and> (\<forall>b x. la_get api (copy_entries api c es ?h) b x =
        (if b = c then (case map_of es x of Some v \<Rightarrow> v | None \<Rightarrow> la_get api ?h c x) else la_get api ?h b x))"
    by (rule Cons.IH [OF ok]) (use Cons.prems live live_cong [OF live] in auto)
  moreover have "la_get api ?h b x = (if b = c \<and> x = k then v else la_get api h b x)" for b x
    using set_get [OF Cons.prems(1,2) v(1,3,4,2)] get_entries [OF ok] get_entries [OF Cons.prems(1)] set_other [of b c]
    by (cases "b = c") auto
  moreover have "map_of es k = None" using v(5) by (simp add: map_of_eq_None_iff)
  ultimately show ?case using live by (simp add: e split: option.split)
qed simp

end




text \<open>The fields that \<open>class\<close> sets itself.\<close>

definition class_fields :: "lval set" where
  "class_fields = {LString ''_base'', LString ''__index'', LString ''init'', LString ''is''}"

definition base_value :: "addr list \<Rightarrow> lval" where
  "base_value bs = (case bs of [] \<Rightarrow> LNil | b # _ \<Rightarrow> LTable b)"

context lua_heap
begin

lemma class_base_get:
  assumes ok: "la_ok api h" and c: "c \<in> la_live api h" and bs: "set bs \<subseteq> la_live api h" "c \<notin> set bs"
    and new: "\<forall>k. la_get api h c k = LNil"
  shows "la_ok api (class_base api c (base_value bs) h) \<and> la_live api (class_base api c (base_value bs) h) = la_live api h
    \<and> (\<forall>b k. la_get api (class_base api c (base_value bs) h) b k =
        (if b \<noteq> c then la_get api h b k
         else if k = LString ''_base'' then base_value bs
         else if bs = [] then LNil else la_get api h (hd bs) k))"
proof (cases bs)
  case Nil
  with ok new show ?thesis by (simp add: class_base_def base_value_def)
next
  case (Cons b cs)
  let ?h = "copy_entries api c (la_entries api h b) h"
  have cp: "la_ok api ?h" "la_live api ?h = la_live api h"
    "\<And>d k. la_get api ?h d k =
       (if d = c then (case map_of (la_entries api h b) k of Some v \<Rightarrow> v | None \<Rightarrow> la_get api h c k) else la_get api h d k)"
    using get_copy [OF ok c entries_distinct [OF ok]] entries_ok [OF ok] by blast+
  have same: "la_get api ?h c k = la_get api h b k" for k
    using cp(3) [of c k] get_entries [OF ok, of b k] new by (simp split: option.splits)
  have v: "lval_live api ?h (LTable b)" using bs cp(2) Cons by (simp add: lval_live_def)
  have c': "c \<in> la_live api ?h" using c cp(2) by simp
  show ?thesis
    using set_keeps [OF cp(1) c' v, of "''_base''"] get_set [OF cp(1) c' v, of "''_base''"] same cp(2,3) Cons
    by (simp add: class_base_def base_value_def)
qed

lemma class_new_get:
  assumes ok: "la_ok api (cs_heap s)" and bs: "set bs \<subseteq> la_live api (cs_heap s)" and init: "lval_live api (cs_heap s) init"
    and n: "class_new api fn (base_value bs) init s = (c, s1)"
  shows "la_ok api (cs_heap s1) \<and> insert c (la_live api (cs_heap s)) \<subseteq> la_live api (cs_heap s1) \<and> c \<notin> la_live api (cs_heap s)
    \<and> (\<forall>d \<in> la_live api (cs_heap s). \<forall>k. la_get api (cs_heap s1) d k = la_get api (cs_heap s) d k)
    \<and> la_get api (cs_heap s1) c (LString ''_base'') = base_value bs
    \<and> la_get api (cs_heap s1) c (LString ''__index'') = LTable c
    \<and> la_get api (cs_heap s1) c (LString ''init'') = init
    \<and> (\<forall>k. k \<notin> class_fields \<longrightarrow>
        la_get api (cs_heap s1) c k = (if bs = [] then LNil else la_get api (cs_heap s) (hd bs) k))"
proof -
  have args: "class_args (base_value bs) init = (base_value bs, init)"
    by (simp add: class_args_def base_value_def split: list.splits)
  obtain h where h: "la_new_table api (cs_heap s) = (c, h)"
    using n by (auto simp: class_new_def args split: prod.splits)
  note t = new_table [OF ok h]
  let ?b = "class_base api c (base_value bs) h"
  have bsh: "set bs \<subseteq> la_live api h" "c \<notin> set bs" using t bs by auto
  have new: "\<forall>k. la_get api h c k = LNil" using get_new [OF ok h] by simp
  have b: "la_ok api ?b" "la_live api ?b = la_live api h"
    "\<And>d k. la_get api ?b d k = (if d \<noteq> c then la_get api h d k else if k = LString ''_base'' then base_value bs
         else if bs = [] then LNil else la_get api h (hd bs) k)"
    using class_base_get [OF _ _ bsh new] t by blast+
  have cl: "c \<in> la_live api ?b" "lval_live api ?b (LTable c)" using b(2) t by (auto simp: lval_live_def)
  let ?i = "la_set api c (LString ''__index'') (LTable c) ?b"
  note i = set_keeps [OF b(1) cl, of "''__index''"] get_set [OF b(1) cl, of "''__index''"]
  obtain mt h1 where m: "la_new_table api ?i = (mt, h1)" by fastforce
  note t1 = new_table [OF i(1) [THEN conjunct1] m]
  note g1 = get_new [OF i(1) [THEN conjunct1] m]
  have mt: "mt \<noteq> c" "mt \<notin> la_live api (cs_heap s)" using t1 i(1) b(2) t by auto
  have s1: "s1 = \<lparr>cs_heap = class_fill api fn c mt (base_value bs) init h1, cs_meta = (cs_meta s)(c \<mapsto> mt)\<rparr>"
    using n h m by (simp add: class_new_def args)
  have live1: "la_live api h1 = insert mt (insert c (la_live api (cs_heap s)))" using t1 i(1) b(2) t by simp
  have fv: "lval_live api h' (LFunction f)" for h' f by (simp add: lval_live_def)
  have iv: "lval_live api h' init" if "la_live api h' = la_live api h1" for h'
    using init that live1 by (auto simp: lval_live_def split: lval.splits)
  let ?h1 = "la_set api mt (LString ''__call'') (LFunction (fn (ClassCall c (base_value bs) init))) h1"
  have a1: "la_ok api ?h1" "la_live api ?h1 = la_live api h1" using set_keeps [OF t1 [THEN conjunct1] _ fv] live1 by auto
  note f1 = get_set [OF t1 [THEN conjunct1] _ fv, of mt "''__call''"]
  let ?h2 = "la_set api c (LString ''init'') init ?h1"
  have c2: "c \<in> la_live api ?h1" using a1(2) live1 by simp
  have a2: "la_ok api ?h2" "la_live api ?h2 = la_live api h1" using set_keeps [OF a1(1) c2 iv [OF a1(2)]] a1(2) by auto
  note f2 = get_set [OF a1(1) c2 iv [OF a1(2)], of "''init''"]
  let ?h3 = "la_set api c (LString ''is'') (LFunction (fn ClassIs)) ?h2"
  have c3: "c \<in> la_live api ?h2" using a2(2) live1 by simp
  have a3: "la_ok api ?h3" "la_live api ?h3 = la_live api h1" using set_keeps [OF a2(1) c3 fv] a2(2) by auto
  note f3 = get_set [OF a2(1) c3 fv, of "''is''"]
  have heap: "cs_heap s1 = ?h3" by (simp add: s1 class_fill_def Let_def)
  have get_c: "la_get api ?h3 c k = (if k = LString ''is'' then LFunction (fn ClassIs) else if k = LString ''init'' then init
      else if k = LString ''__index'' then LTable c else la_get api ?b c k)" for k
    using f1 f2 f3 g1 i(2) mt(1) live1 by simp
  have get_d: "la_get api ?h3 d k = la_get api (cs_heap s) d k" if "d \<in> la_live api (cs_heap s)" for d k
  proof -
    have "d \<noteq> c" "d \<noteq> mt" using that t mt by auto
    then show ?thesis using f1 f2 f3 g1 i(2) b(3) get_new [OF ok h] live1 by simp
  qed
  have base: "la_get api h (hd bs) k = la_get api (cs_heap s) (hd bs) k" if "bs \<noteq> []" for k
    using get_new [OF ok h, of "hd bs" k] t bs that by (cases bs) auto
  show ?thesis
    unfolding heap using a3 live1 t get_c get_d b(3) base by (auto simp: class_fields_def)
qed

end

subsection \<open>Properties\<close>




text \<open>
  A class without an initialiser stops the inheritance of initialisers: \<open>c.init = init\<close> removes the one that was copied from
  the base, so the constructor of a class derived from it calls none, although the base of the base has one.
\<close>

theorem inherited_init_lost:
  assumes "lua_heap api" and "la_ok api (cs_heap s)" and "b \<in> la_live api (cs_heap s)"
    and "truthy (la_get api (cs_heap s) b (LString ''init''))"
    and "class_new api fn (LTable b) LNil s = (c, s1)" and "class_new api fn (LTable c) LNil s1 = (d, s2)"
    and "class_call api d (LTable c) LNil s2 = (ob, call, s3)"
  shows "call = NoInit"
proof -
  have b: "base_value [b] = LTable b" "base_value [c] = LTable c" by (simp_all add: base_value_def)
  have nil: "lval_live api h LNil" for h by (simp add: lval_live_def)
  note c = lua_heap.class_new_get [OF assms(1,2) _ nil, where bs = "[b]", unfolded b, OF _ assms(5)]
  then have c: "la_ok api (cs_heap s1)" "c \<in> la_live api (cs_heap s1)" "la_get api (cs_heap s1) c (LString ''init'') = LNil"
    using assms(3) by auto
  note d = lua_heap.class_new_get [OF assms(1) c(1) _ nil, where bs = "[c]", unfolded b, OF _ assms(6)]
  then have d: "la_ok api (cs_heap s2)" "la_get api (cs_heap s2) c (LString ''init'') = LNil" using c by auto
  obtain h where h: "la_new_table api (cs_heap s2) = (ob, h)" "call = base_init api h (LTable c)"
    using assms(7) by (auto simp: class_call_def truthy_def split: prod.splits)
  from lua_heap.get_new [OF assms(1) d(1) h(1), of c "LString ''init''"] d(2) h(2) show ?thesis
    by (auto simp: base_init_def truthy_def Let_def)
qed

text \<open>\<open>http.get\<close> and the others are the request of \<open>_http\<close> with the method in front: the same checks, calls and world.\<close>

lemma http_verb_request:
  assumes "map_of http_verbs name = Some m"
  shows "\<exists>r. http_call ip env ht name args w
      = Some (fst (lRequest ip env ht (LString m # args) w), fst (snd (lRequest ip env ht (LString m # args) w)), r)
    \<and> ((\<exists>e. r = Inl e) \<longleftrightarrow> (\<exists>e. snd (snd (lRequest ip env ht (LString m # args) w)) = Inl e))"
proof -
  have "name \<noteq> ''request''" "name \<noteq> ''create_server''" using assms by (auto simp: http_verbs_def split: if_splits)
  with assms show ?thesis by (auto simp: http_call_def map_sum_Inl split: prod.splits)
qed



end
