(* ===== verification/Process.thy ===== *)
theory Process
  imports Server_Command
begin

text \<open>
  The process around the commands: \<open>main.go\<close> with its choice of a logger, the profiling endpoint of
  \<open>pkg/utils/pprof.go\<close>, the command \<open>debug\<close> with its shell (\<open>pkg/commands/debug.go\<close>) and the git hook
  (\<open>hooks/pre-commit/main.go\<close>).  The parsing of the command line by cobra, zap, gRPC's \<open>Dial\<close>, the lines typed into
  the shell, the file system and the program \<open>packr\<close> are arguments.
\<close>

subsection \<open>The logger\<close>

text \<open>
  \<open>strings.EqualFold\<close>, for strings of which one is ASCII without the letters k and s; these two alone have
  non-ASCII letters in their orbits of case folding.
\<close>

definition ascii_lower :: "char \<Rightarrow> char" where
  "ascii_lower c = (if 65 \<le> (of_char c :: nat) \<and> (of_char c :: nat) \<le> 90 then char_of ((of_char c :: nat) + 32) else c)"

definition equal_fold :: "string \<Rightarrow> string \<Rightarrow> bool" where
  "equal_fold s t = (map ascii_lower s = map ascii_lower t)"

datatype logger_kind = DevelopmentLogger | ProductionLogger

definition logger_choice :: "(string \<Rightarrow> string) \<Rightarrow> logger_kind" where
  "logger_choice getenv =
     (if equal_fold (getenv ''DEBUG'') ''true'' then DevelopmentLogger else ProductionLogger)"

subsection \<open>Profiling\<close>

datatype pprof_page = PprofIndex | PprofCmdline | PprofProfile | PprofSymbol | PprofTrace

definition pprof_mux :: "(string \<times> pprof_page) list" where
  "pprof_mux =
     [(''/debug/pprof/'', PprofIndex), (''/debug/pprof/cmdline'', PprofCmdline),
      (''/debug/pprof/profile'', PprofProfile), (''/debug/pprof/symbol'', PprofSymbol),
      (''/debug/pprof/trace'', PprofTrace)]"

text \<open>A pattern of \<open>http.ServeMux\<close> that ends in a slash matches every path below it; the longest match wins.\<close>

definition mux_matches :: "string \<Rightarrow> string \<Rightarrow> bool" where
  "mux_matches pattern path =
     (path = pattern
      \<or> pattern \<noteq> [] \<and> last pattern = CHR ''/'' \<and> take (length pattern) path = pattern)"

fun mux_find :: "(string \<times> 'h) list \<Rightarrow> string \<Rightarrow> (string \<times> 'h) option" where
  "mux_find [] path = None"
| "mux_find ((p, h) # rs) path =
     (case mux_find rs path of
        Some (q, g) \<Rightarrow> if mux_matches p path \<and> length q < length p then Some (p, h) else Some (q, g)
      | None \<Rightarrow> if mux_matches p path then Some (p, h) else None)"

text \<open>
  The goroutine of \<open>EnablePPROF\<close>: \<open>serve\<close> gives the error with which \<open>ListenAndServe\<close> returns, if it does; then
  \<open>Fatal\<close> ends the process.
\<close>

datatype pprof_state = PprofServes "(string \<times> pprof_page) list" | PprofFatal string

definition EnablePPROF :: "(string \<Rightarrow> string option) \<Rightarrow> string \<Rightarrow> pprof_state" where
  "EnablePPROF serve addr = (case serve addr of None \<Rightarrow> PprofServes pprof_mux | Some e \<Rightarrow> PprofFatal e)"

subsection \<open>The command debug\<close>

text \<open>
  The shell: each line names a command, whose function prints or asks the server \<open>rpc\<close> and prints the answer.  A line
  that names no command is ishell's business.
\<close>

definition debug_commands ::
    "(string \<Rightarrow> string + duration) \<Rightarrow> (string \<times> bytes \<Rightarrow> string + 8 word list) \<Rightarrow>
     (string \<times> (string list \<Rightarrow> shell_action)) list" where
  "debug_commands parse_duration encode =
     [(''reload'', shell_reload parse_duration), (''call'', shell_call encode)]"

fun shell_loop ::
    "(string \<times> (string list \<Rightarrow> shell_action)) list \<Rightarrow> ('s \<Rightarrow> string \<Rightarrow> 8 word list \<Rightarrow> 's \<times> (string + bytes)) \<Rightarrow>
     (string \<times> string list) list \<Rightarrow> 's \<Rightarrow> 's \<times> string list" where
  "shell_loop cmds rpc [] s = (s, [])"
| "shell_loop cmds rpc ((name, args) # ls) s =
     (case map_of cmds name of
        None \<Rightarrow> shell_loop cmds rpc ls s
      | Some f \<Rightarrow>
          (case f args of
             ShellPrint m \<Rightarrow> (let (s', out) = shell_loop cmds rpc ls s in (s', m # out))
           | ShellSend n body \<Rightarrow>
               (let (s1, res) = rpc s n body; (s', out) = shell_loop cmds rpc ls s1
                in (s', shell_result res # out))))"

text \<open>The end of the process, what was printed before and the state of the server.\<close>

definition debug_Run ::
    "(string \<Rightarrow> string + unit) \<Rightarrow> (string \<times> (string list \<Rightarrow> shell_action)) list \<Rightarrow>
     ('s \<Rightarrow> string \<Rightarrow> 8 word list \<Rightarrow> 's \<times> (string + bytes)) \<Rightarrow>
     (string \<times> string list) list \<Rightarrow> string list \<Rightarrow> 's \<Rightarrow> 's \<times> string list \<times> int" where
  "debug_Run dial cmds rpc ls args s =
     (case args of
        [] \<Rightarrow> (s, [''usage: drlee debug <remote rpc addrress> ''], 1)
      | addr # _ \<Rightarrow>
          (case dial addr of
             Inl e \<Rightarrow> (s, [''unable to connect to remote rpc: '' @ e], 1)
           | Inr _ \<Rightarrow> (let (s', out) = shell_loop cmds rpc ls s in (s', out, 0))))"

subsection \<open>The process\<close>

text \<open>What cobra makes of the command line: a command with its flags and arguments, the help text, or an error.\<close>

datatype cobra_choice =
    RunServer "string list" "string list" | RunDebug "string list" | ShowHelp | CobraError string

text \<open>
  The states of the process: ended by a panic or with an exit status, waiting for the interrupt, with the address of
  the profiling endpoint if there is one, or returned from \<open>main\<close> after \<open>Stop\<close> with what that closed and whether it
  stopped a server.
\<close>

datatype 'l process =
    ProcPanic string
  | ProcExit int
  | ProcWaits "string option" "'l server_command"
  | ProcDone "'l list" bool

definition pprof_addr :: "(string \<Rightarrow> string) \<Rightarrow> string option" where
  "pprof_addr getenv = (if getenv ''PPROF_ADDR'' \<noteq> [] then Some (getenv ''PPROF_ADDR'') else None)"

text \<open>
  \<open>main\<close> up to its wait for the signal.  The run of \<open>server\<close> gives \<open>None\<close> when it ends the process, each time with
  status 1; that of \<open>debug\<close> always ends it.
\<close>

definition main_start ::
    "(string \<Rightarrow> string) \<Rightarrow> (logger_kind \<Rightarrow> string + unit) \<Rightarrow> (string list \<Rightarrow> cobra_choice) \<Rightarrow>
     (string list \<Rightarrow> string list \<Rightarrow> 'l server_command \<Rightarrow> 'l server_command option) \<Rightarrow>
     (string list \<Rightarrow> int) \<Rightarrow> string list \<Rightarrow> 'l process" where
  "main_start getenv new_logger cobra run_server run_debug argv =
     (case new_logger (logger_choice getenv) of
        Inl e \<Rightarrow> ProcPanic e
      | Inr _ \<Rightarrow>
          (let server = NewServerCommand; pprof = pprof_addr getenv
           in case cobra argv of
                CobraError e \<Rightarrow> ProcPanic (''unable to run command: '' @ e)
              | ShowHelp \<Rightarrow> ProcWaits pprof server
              | RunDebug args \<Rightarrow> ProcExit (run_debug args)
              | RunServer join args \<Rightarrow>
                  (case run_server join args server of
                     None \<Rightarrow> ProcExit 1
                   | Some server' \<Rightarrow> ProcWaits pprof server')))"

text \<open>What can happen to a waiting process: the interrupt, and the failure of the profiling endpoint.\<close>

datatype process_event = Interrupt | PprofReturns string

fun process_step :: "process_event \<Rightarrow> 'l process \<Rightarrow> 'l process option" where
  "process_step Interrupt (ProcWaits p sc) = (case command_Stop sc of (cl, stopped) \<Rightarrow> Some (ProcDone cl stopped))"
| "process_step (PprofReturns e) (ProcWaits p sc) =
     (case p of
        None \<Rightarrow> None
      | Some addr \<Rightarrow>
          (case EnablePPROF (\<lambda>_. Some e) addr of PprofFatal _ \<Rightarrow> Some (ProcExit 1) | PprofServes _ \<Rightarrow> None))"
| "process_step ev p = None"

subsection \<open>The git hook\<close>

text \<open>An error of \<open>ReadFile\<close>, and whether \<open>os.IsNotExist\<close> holds of it.\<close>

record read_error =
  re_text :: string
  re_not_exist :: bool

text \<open>\<open>filepath.Join\<close> of the working directory, a clean absolute path, and a clean relative name.\<close>

definition join_path :: "string \<Rightarrow> string \<Rightarrow> string" where
  "join_path wd name = (if wd = ''/'' then wd @ name else wd @ ''/'' @ name)"

definition hook_files :: "string list" where
  "hook_files = [''proto/rpc.pb.go'', ''proto/BUILD'', ''pkg/runtime/a_runtime-packr.go'']"

text \<open>The hook ends in a panic, with a status after printing, or normally, which lets the commit through.\<close>

datatype hook_result = HookPanic string | HookExit int string | HookPass

text \<open>The first loop: the contents before; a nil slice, like a missing key, reads as the empty one.\<close>

fun hook_before ::
    "(string \<Rightarrow> read_error + bytes) \<Rightarrow> string list \<Rightarrow> (string \<rightharpoonup> bytes) \<Rightarrow> string + (string \<rightharpoonup> bytes)" where
  "hook_before read [] old = Inr old"
| "hook_before read (n # ns) old =
     (case read n of
        Inl e \<Rightarrow> if re_not_exist e then hook_before read ns (old(n \<mapsto> [])) else Inl (re_text e)
      | Inr b \<Rightarrow> hook_before read ns (old(n \<mapsto> b)))"

definition old_content :: "(string \<rightharpoonup> bytes) \<Rightarrow> string \<Rightarrow> bytes" where
  "old_content old n = (case old n of None \<Rightarrow> [] | Some b \<Rightarrow> b)"

definition changed_message :: "string \<Rightarrow> string" where
  "changed_message n =
     ''file '' @ [CHR 0x27] @ n @ [CHR 0x27] @ '' is changed, please commit again after adding files'' @ [CHR 0x0A]
     @ [CHR 0x0A] @ ''          git add '' @ n @ [CHR 0x0A]"

text \<open>The second loop stops at the first file that has changed, and dies at one that it cannot read.\<close>

fun hook_after :: "(string \<Rightarrow> read_error + bytes) \<Rightarrow> string list \<Rightarrow> (string \<rightharpoonup> bytes) \<Rightarrow> hook_result" where
  "hook_after read [] old = HookPass"
| "hook_after read (n # ns) old =
     (case read n of
        Inl e \<Rightarrow> HookPanic (re_text e)
      | Inr b \<Rightarrow> if b \<noteq> old_content old n then HookExit 1 (changed_message n) else hook_after read ns old)"

text \<open>\<open>packr\<close> changes the files \<open>fs\<close> and may fail.\<close>

definition pre_commit ::
    "string + string \<Rightarrow> ('f \<Rightarrow> string \<Rightarrow> read_error + bytes) \<Rightarrow> ('f \<Rightarrow> 'f \<times> string option) \<Rightarrow> 'f \<Rightarrow> 'f \<times> hook_result" where
  "pre_commit getwd read packr fs =
     (case getwd of
        Inl e \<Rightarrow> (fs, HookPanic e)
      | Inr wd \<Rightarrow>
          (case hook_before (\<lambda>n. read fs (join_path wd n)) hook_files Map.empty of
             Inl e \<Rightarrow> (fs, HookPanic e)
           | Inr old \<Rightarrow>
               (case packr fs of
                  (fs', Some e) \<Rightarrow> (fs', HookPanic e)
                | (fs', None) \<Rightarrow> (fs', hook_after (\<lambda>n. read fs' (join_path wd n)) hook_files old))))"

subsection \<open>Lemmas\<close>

lemma debug_is_true: "equal_fold s ''true'' \<longleftrightarrow> map ascii_lower s = ''true''"
  by (simp add: equal_fold_def ascii_lower_def)

lemma equal_fold_trans: "equal_fold s t \<Longrightarrow> equal_fold t u \<Longrightarrow> equal_fold s u"
  by (simp add: equal_fold_def)

text \<open>The multiplexer of the profiling endpoint: the exact pages, and the index below its directory.\<close>

lemma mux_find_matches: "mux_find rs path = Some (p, h) \<Longrightarrow> (p, h) \<in> set rs \<and> mux_matches p path"
  by (induction rs arbitrary: p h) (auto split: option.splits if_splits)

lemma mux_find_longest:
  "mux_find rs path = Some (p, h) \<Longrightarrow> (q, g) \<in> set rs \<Longrightarrow> mux_matches q path \<Longrightarrow> length q \<le> length p"
proof (induction rs arbitrary: p h q g)
  case (Cons r rs)
  obtain q' g' where r: "r = (q', g')" by force
  show ?case
  proof (cases "mux_find rs path")
    case None
    then have "\<not> mux_matches q path" if "(q, g) \<in> set rs"
      using that by (induction rs) (auto split: option.splits if_splits)
    then show ?thesis using Cons.prems None r by (auto split: if_splits)
  next
    case (Some m)
    obtain a b where m: "m = (a, b)" by force
    from Cons.IH [of a b] Some m show ?thesis
      using Cons.prems r by (force split: if_splits)
  qed
qed simp

text \<open>\<open>debug\<close> ends with status 0 exactly when it has reached its shell.\<close>

lemma debug_Run_status:
  "snd (snd (debug_Run dial cmds rpc ls args s)) = 0 \<longleftrightarrow> (\<exists>addr rest. args = addr # rest \<and> dial addr = Inr ())"
  by (auto simp: debug_Run_def split: list.splits sum.splits prod.splits)

lemma shell_loop_append:
  "shell_loop cmds rpc (ls @ ms) s =
     (let (s1, out1) = shell_loop cmds rpc ls s; (s2, out2) = shell_loop cmds rpc ms s1 in (s2, out1 @ out2))"
  by (induction ls arbitrary: s) (simp_all add: Let_def case_prod_beta split_paired_all split: option.split shell_action.split)

text \<open>Each line that names a command prints exactly one line.\<close>

lemma shell_loop_prints:
  "length (snd (shell_loop cmds rpc ls s)) = length (filter (\<lambda>(n, _). map_of cmds n \<noteq> None) ls)"
  by (induction ls arbitrary: s) (simp_all add: case_prod_beta split_paired_all split: option.split shell_action.split)

text \<open>A process that returns from \<open>main\<close> was interrupted once, and what it closed is what \<open>Stop\<close> closes.\<close>

lemma process_done:
  assumes "run_events process_step es p = Some (ProcDone cl stopped)" and "p = ProcWaits a sc"
  shows "es = [Interrupt] \<and> command_Stop sc = (cl, stopped)"
proof (cases es)
  case Nil
  with assms show ?thesis by simp
next
  case (Cons e fs)
  have ends: "run_events process_step gs q = Some r \<Longrightarrow> (\<forall>a sc. q \<noteq> ProcWaits a sc) \<Longrightarrow> gs = [] \<and> r = q" for gs q r
  proof (cases gs)
    case (Cons g hs)
    assume "run_events process_step gs q = Some r" "\<forall>a sc. q \<noteq> ProcWaits a sc"
    with Cons show ?thesis by (cases g; cases q) auto
  qed simp
  show ?thesis
  proof (cases e)
    case Interrupt
    obtain c d where "command_Stop sc = (c, d)" by force
    with assms Cons Interrupt ends [of fs "ProcDone c d"] show ?thesis by auto
  next
    case (PprofReturns x)
    with assms Cons ends [of fs "ProcExit 1"] show ?thesis
      by (auto simp: EnablePPROF_def split: option.splits)
  qed
qed

text \<open>
  Without a command on the line the process prints the help and waits for the interrupt as if it served; the
  interrupt then stops nothing.
\<close>

lemma help_waits:
  assumes "new_logger (logger_choice getenv) = Inr ()" and "cobra argv = ShowHelp"
  shows "run_events process_step [Interrupt] (main_start getenv new_logger cobra run_server run_debug argv)
      = Some (ProcDone [] False)
    \<and> run_events process_step [] (main_start getenv new_logger cobra run_server run_debug argv)
      = Some (ProcWaits (pprof_addr getenv) NewServerCommand)"
  using assms by (simp add: main_start_def command_Stop_def NewServerCommand_def)

text \<open>\<open>main\<close> waits for the signal after the help, and after a server that has started; in no other case.\<close>

lemma main_waits_iff:
  "main_start getenv new_logger cobra run_server run_debug argv = ProcWaits a sc \<longleftrightarrow>
     new_logger (logger_choice getenv) = Inr () \<and> a = pprof_addr getenv
     \<and> (cobra argv = ShowHelp \<and> sc = NewServerCommand
        \<or> (\<exists>join args. cobra argv = RunServer join args \<and> run_server join args NewServerCommand = Some sc))"
  by (auto simp: main_start_def Let_def split: sum.splits cobra_choice.splits option.splits)

lemma main_start_not_done: "main_start getenv new_logger cobra run_server run_debug argv \<noteq> ProcDone cl stopped"
  by (simp add: main_start_def Let_def split: sum.split cobra_choice.split option.split)

lemma run_boot_server: "run_boot ok bs sc = Some sc' \<Longrightarrow> sc_server sc' \<longleftrightarrow> sc_server sc \<or> BootKeep \<in> set bs"
  by (induction bs arbitrary: sc) (auto split: if_splits)

lemma command_Run_server:
  assumes "command_Run read_file parse ok join args sc = Some sc'"
  shows "sc_server sc'" and "sc_listener sc' = sc_listener sc"
proof -
  from assms obtain c script where run: "run_boot ok (boot_steps c join script) sc = Some sc'"
    by (auto simp: command_Run_def split: list.splits option.splits)
  from run_boot_server [OF this] show "sc_server sc'" by (simp add: boot_steps_def)
  from run_boot_listener [OF run] show "sc_listener sc' = sc_listener sc" .
qed

text \<open>
  The process returns from \<open>main\<close> only after an interrupt that found it waiting, and as the first event then; it
  has closed no listener, and stopped a server exactly when its command line chose the command \<open>server\<close>.
\<close>

theorem process_ends:
  assumes "run_events process_step es
      (main_start getenv new_logger cobra (command_Run read_file parse ok) run_debug argv) = Some (ProcDone cl stopped)"
    (is "run_events _ _ ?p = _")
  shows "es = [Interrupt] \<and> cl = [] \<and> (stopped \<longleftrightarrow> (\<exists>join args. cobra argv = RunServer join args))"
proof -
  have stuck: "run_events process_step es q = Some (ProcDone cl stopped) \<Longrightarrow> (\<exists>m. q = ProcPanic m) \<or> (\<exists>c. q = ProcExit c) \<Longrightarrow> False" for q
    by (cases es; cases q; cases "hd es") auto
  obtain a sc where p: "?p = ProcWaits a sc"
    using stuck [OF assms] main_start_not_done by (cases ?p) blast+
  note fin = process_done [OF assms p]
  from p main_waits_iff [of getenv new_logger cobra "command_Run read_file parse ok" run_debug argv a sc]
  consider "cobra argv = ShowHelp" "sc = NewServerCommand"
    | join args where "cobra argv = RunServer join args" "command_Run read_file parse ok join args NewServerCommand = Some sc"
    by auto
  then show ?thesis
  proof cases
    case 1
    with fin show ?thesis by (auto simp: command_Stop_def NewServerCommand_def)
  next
    case 2
    with fin command_Run_server [OF 2(2)] show ?thesis by (auto simp: command_Stop_def NewServerCommand_def)
  qed
qed

definition quick_start :: config where
  "quick_start =
     \<lparr>cfg_node_name = ''a'', cfg_gossip = \<lparr>gc_addr = ''0.0.0.0'', gc_port = 7946, gc_secret = []\<rparr>,
      cfg_rpc = \<lparr>rc_addr = ''0.0.0.0'', rc_port = 8080, rc_reply_concurrency = 1\<rparr>, cfg_concurrency = 1,
      cfg_queue = \<lparr>qc_dir = ''q'', qc_max_bytes_per_file = 0, qc_max_msg_size = 0, qc_sync_every = 0, qc_sync_timeout = 0\<rparr>,
      cfg_plugins = [], cfg_script_args = []\<rparr>"

theorem process_ends_witness:
  "[Interrupt] = [Interrupt] \<and> [] = ([] :: nat list)
   \<and> (True \<longleftrightarrow> (\<exists>join args. RunServer [] [''c.yaml'', ''main.lua''] = RunServer join args))"
  by (rule process_ends [of "[Interrupt]" "\<lambda>_. []" "\<lambda>_. Inr ()" "\<lambda>_. RunServer [] [''c.yaml'', ''main.lua'']"
          "\<lambda>_. Some []" "\<lambda>_. Some quick_start" "\<lambda>_. True" "\<lambda>_. 0" "[]"])
     (simp add: main_start_def command_Stop_def NewServerCommand_def command_Run_def boot_steps_def quick_start_def Let_def)

text \<open>What the loops of the hook find.\<close>

definition read_or_empty :: "read_error + bytes \<Rightarrow> bytes" where
  "read_or_empty r = (case r of Inl e \<Rightarrow> [] | Inr b \<Rightarrow> b)"

definition tolerated :: "read_error + bytes \<Rightarrow> bool" where
  "tolerated r = (case r of Inl e \<Rightarrow> re_not_exist e | Inr b \<Rightarrow> True)"

lemma hook_before_eq:
  "hook_before read ns old = Inr old' \<longleftrightarrow>
     list_all (\<lambda>n. tolerated (read n)) ns
     \<and> old' = (\<lambda>n. if n \<in> set ns then Some (read_or_empty (read n)) else old n)"
proof (induction ns arbitrary: old)
  case (Cons n ns)
  have upd: "(\<lambda>m. if m \<in> set (n # ns) then Some (read_or_empty (read m)) else old m)
      = (\<lambda>m. if m \<in> set ns then Some (read_or_empty (read m)) else (old(n \<mapsto> read_or_empty (read n))) m)"
    by (rule ext) simp
  have step: "hook_before read (n # ns) old
      = (case read n of
           Inl e \<Rightarrow> if re_not_exist e then hook_before read ns (old(n \<mapsto> [])) else Inl (re_text e)
         | Inr b \<Rightarrow> hook_before read ns (old(n \<mapsto> b)))"
    by simp
  show ?case
    unfolding upd step
    by (cases "read n") (simp_all add: Cons.IH tolerated_def read_or_empty_def del: fun_upd_apply cong: if_cong)
qed auto

text \<open>The second loop decides at the first file that is not read as it was before.\<close>

lemma hook_after_first:
  "hook_after read ns old =
     (case dropWhile (\<lambda>n. read n = Inr (old_content old n)) ns of
        [] \<Rightarrow> HookPass
      | n # _ \<Rightarrow> (case read n of Inl e \<Rightarrow> HookPanic (re_text e) | Inr b \<Rightarrow> HookExit 1 (changed_message n)))"
  by (induction ns) (auto split: sum.splits)

lemma hook_after_pass: "hook_after read ns old = HookPass \<longleftrightarrow> list_all (\<lambda>n. read n = Inr (old_content old n)) ns"
  by (induction ns) (auto split: sum.splits)

text \<open>
  A file that a run of \<open>packr\<close> leaves missing makes the hook die, although the first loop takes missing files as
  empty.
\<close>

lemma missing_file_panics:
  assumes "read fs (join_path wd ''proto/rpc.pb.go'') = Inl \<lparr>re_text = e, re_not_exist = True\<rparr>"
    and "list_all (\<lambda>n. tolerated (read fs (join_path wd n))) hook_files" and "packr fs = (fs, None)"
  shows "pre_commit (Inr wd) read packr fs = (fs, HookPanic e)"
proof -
  obtain old where "hook_before (\<lambda>n. read fs (join_path wd n)) hook_files Map.empty = Inr old"
    using assms(2) hook_before_eq by blast
  moreover have "hook_after (\<lambda>n. read fs (join_path wd n)) hook_files old = HookPanic e"
    using assms(1) by (simp add: hook_files_def)
  ultimately show ?thesis using assms(3) by (simp add: pre_commit_def)
qed

text \<open>
  C40: The git hook lets a commit through exactly when the working directory is known, every generated file could be
  read before or was missing, \<open>packr\<close> has succeeded, and afterwards every one of them can be read and is as before,
  a missing file counting as an empty one.
\<close>

theorem pre_commit_spec:
  "snd (pre_commit getwd read packr fs) = HookPass \<longleftrightarrow>
     (\<exists>wd fs'. getwd = Inr wd \<and> packr fs = (fs', None)
        \<and> list_all (\<lambda>n. tolerated (read fs (join_path wd n))
                        \<and> read fs' (join_path wd n) = Inr (read_or_empty (read fs (join_path wd n)))) hook_files)"
proof (cases getwd)
  case (Inl e)
  then show ?thesis by (simp add: pre_commit_def)
next
  case (Inr wd)
  let ?before = "\<lambda>n. read fs (join_path wd n)"
  let ?old = "\<lambda>n. if n \<in> set hook_files then Some (read_or_empty (?before n)) else None"
  obtain fs' r where packr: "packr fs = (fs', r)" by force
  have old: "old_content ?old n = read_or_empty (?before n)" if "n \<in> set hook_files" for n
    using that by (simp add: old_content_def)
  have after: "hook_after (\<lambda>n. read fs' (join_path wd n)) hook_files ?old = HookPass \<longleftrightarrow>
      list_all (\<lambda>n. read fs' (join_path wd n) = Inr (read_or_empty (?before n))) hook_files"
    using old by (auto simp: hook_after_pass list_all_iff simp del: sum.inject)
  show ?thesis
  proof (cases "list_all (\<lambda>n. tolerated (?before n)) hook_files")
    case True
    then have "hook_before ?before hook_files Map.empty = Inr ?old" by (simp add: hook_before_eq)
    with Inr packr after True show ?thesis
      by (auto simp: pre_commit_def list_all_iff split: option.split)
  next
    case False
    then have no: "hook_before ?before hook_files Map.empty \<noteq> Inr old" for old by (simp add: hook_before_eq)
    then obtain e where "hook_before ?before hook_files Map.empty = Inl e"
      by (cases "hook_before ?before hook_files Map.empty") auto
    with Inr False show ?thesis by (auto simp: pre_commit_def list_all_iff)
  qed
qed

end
